(* ===== verification/QO_Prelude.thy ===== *)
theory QO_Prelude
  imports Main "HOL-Library.AList" "HOL-Library.Word" "HOL-Library.Sublist" "HOL-Library.Multiset"
begin

text \<open>
  The shared vocabulary of the development: the C++ types the extension is written with, the
  operations of \<open>std::string\<close>, \<open>std::vector\<close> and \<open>std::unordered_map\<close> its code calls, and the
  lemmas on them that the component theories use.

  \<^item> A \<open>std::string\<close> or \<open>std::string_view\<close> is a \<open>string\<close> (a list of bytes);
    \<open>static_cast<unsigned char>\<close> is \<open>uc\<close>.
  \<^item> \<open>std::int64_t\<close> values are unix seconds and durations, modelled as \<open>int\<close>: signed overflow is
    undefined in C++, so the model describes the runs in which the sums stay in range.
    \<open>std::uint64_t\<close> counters are \<open>64 word\<close> and wrap.
  \<^item> A \<open>std::unordered_map\<close> is an association list with distinct keys: \<open>map_of\<close> is \<open>find\<close>,
    \<open>AList.update\<close> is \<open>operator[] =\<close>, \<open>AList.delete\<close> is \<open>erase\<close>, its length is \<open>size\<close>.
\<close>

section \<open>Names of the model's basic types\<close>

type_synonym seconds = int
type_synonym u64 = "64 word"
type_synonym bytes = "8 word list"

named_theorems qo_inv \<open>preservation of component invariants\<close>
named_theorems qo_frame \<open>fields an operation leaves unchanged\<close>

section \<open>Bytes and strings\<close>

definition uc :: "char \<Rightarrow> nat" where
  "uc c = of_char c"

text \<open>\<open>std::tolower\<close> in the C locale.\<close>

definition to_lower :: "char \<Rightarrow> char" where
  "to_lower c = (if 65 \<le> uc c \<and> uc c \<le> 90 then char_of (uc c + 32) else c)"

definition lower_ascii :: "string \<Rightarrow> string" where
  "lower_ascii s = map to_lower s"

text \<open>\<open>s.rfind(p, 0) == 0\<close>, and the \<open>StartsWith\<close> helpers: a size test and \<open>std::equal\<close>.\<close>

definition starts_with :: "string \<Rightarrow> string \<Rightarrow> bool" where
  "starts_with s p \<longleftrightarrow> length p \<le> length s \<and> take (length p) s = p"

text \<open>\<open>s.find(c, start)\<close>: the first index at or after \<open>start\<close> that holds \<open>c\<close>.\<close>

fun find_char_from :: "string \<Rightarrow> char \<Rightarrow> nat \<Rightarrow> nat option" where
  "find_char_from [] c i = None"
| "find_char_from (x # xs) c i = (if x = c then Some i else find_char_from xs c (Suc i))"

definition find_char :: "string \<Rightarrow> char \<Rightarrow> nat \<Rightarrow> nat option" where
  "find_char s c start = find_char_from (drop start s) c start"

text \<open>\<open>s.substr(pos, n)\<close> for \<open>pos \<le> s.size()\<close>.\<close>

definition substr :: "string \<Rightarrow> nat \<Rightarrow> nat \<Rightarrow> string" where
  "substr s pos n = take n (drop pos s)"

text \<open>\<open>s.rfind(c)\<close>: the last index that holds \<open>c\<close>.\<close>

definition rfind_char :: "string \<Rightarrow> char \<Rightarrow> nat option" where
  "rfind_char s c = map_option (\<lambda>i. length s - 1 - i) (find_char (rev s) c 0)"

text \<open>\<open>s.find(pat, pos)\<close>: the first index at or after \<open>pos\<close> where \<open>pat\<close> stands.\<close>

fun find_str_from :: "string \<Rightarrow> string \<Rightarrow> nat \<Rightarrow> nat option" where
  "find_str_from pat [] i = (if pat = [] then Some i else None)"
| "find_str_from pat (x # xs) i = (if starts_with (x # xs) pat then Some i else find_str_from pat xs (Suc i))"

definition find_str :: "string \<Rightarrow> string \<Rightarrow> nat \<Rightarrow> nat option" where
  "find_str s pat pos = (if pos \<le> length s then find_str_from pat (drop pos s) pos else None)"

text \<open>\<open>std::clamp\<close>.\<close>

definition clamp :: "int \<Rightarrow> int \<Rightarrow> int \<Rightarrow> int" where
  "clamp x lo hi = (if x < lo then lo else if hi < x then hi else x)"

section \<open>Lemmas on strings\<close>

lemma uc_less [simp]: "uc c < 256"
  by (simp add: uc_def)

lemma uc_inject [simp]: "uc a = uc b \<longleftrightarrow> a = b"
  by (simp add: uc_def)

lemma char_of_uc [simp]: "char_of (uc c) = c"
  by (simp add: uc_def)

lemma uc_char_of: "n < 256 \<Longrightarrow> uc (char_of n) = n"
  by (simp add: uc_def)

lemma to_lower_idem [simp]: "to_lower (to_lower c) = to_lower c"
  by (simp add: to_lower_def uc_char_of)

lemma lower_ascii_idem [simp]: "lower_ascii (lower_ascii s) = lower_ascii s"
  by (simp add: lower_ascii_def)

lemma length_lower_ascii [simp]: "length (lower_ascii s) = length s"
  by (simp add: lower_ascii_def)

lemma lower_ascii_Nil_iff [simp]: "lower_ascii s = [] \<longleftrightarrow> s = []"
  by (simp add: lower_ascii_def)

lemma starts_with_prefix: "starts_with s p \<longleftrightarrow> prefix p s"
proof
  assume "starts_with s p"
  then have "s = p @ drop (length p) s"
    unfolding starts_with_def by (metis append_take_drop_id)
  then show "prefix p s" by (rule prefixI)
next
  assume "prefix p s"
  then show "starts_with s p"
    by (auto simp: starts_with_def prefix_def)
qed

lemma starts_with_append [simp]: "starts_with (p @ s) p"
  by (simp add: starts_with_prefix)

lemma find_char_from_Some:
  "find_char_from xs c i = Some j \<Longrightarrow>
     i \<le> j \<and> j < i + length xs \<and> xs ! (j - i) = c \<and> c \<notin> set (take (j - i) xs)"
proof (induction xs c i rule: find_char_from.induct)
  case (1 c i)
  then show ?case by simp
next
  case (2 x xs c i)
  show ?case
  proof (cases "x = c")
    case True
    with 2 show ?thesis by simp
  next
    case False
    with 2 have r: "Suc i \<le> j" "j < Suc i + length xs" "xs ! (j - Suc i) = c"
      "c \<notin> set (take (j - Suc i) xs)" by auto
    from r(1) have "j - i = Suc (j - Suc i)" by simp
    with r False show ?thesis by auto
  qed
qed

lemma find_char_from_None: "find_char_from xs c i = None \<longleftrightarrow> c \<notin> set xs"
  by (induction xs c i rule: find_char_from.induct) auto

lemma find_char_from_takeWhile:
  "find_char_from xs c i = (if c \<in> set xs then Some (i + length (takeWhile (\<lambda>x. x \<noteq> c) xs)) else None)"
  by (induction xs c i rule: find_char_from.induct) auto

lemma length_takeWhile_neq: "c \<in> set xs \<Longrightarrow> length (takeWhile (\<lambda>x. x \<noteq> c) xs) < length xs"
  by (induction xs) auto

lemma find_str_from_Some:
  "find_str_from pat xs i = Some j \<Longrightarrow> i \<le> j \<and> j - i + length pat \<le> length xs"
proof (induction xs arbitrary: i)
  case (Cons x xs)
  show ?case
  proof (cases "starts_with (x # xs) pat")
    case True
    then have "j = i" "length pat \<le> length (x # xs)" using Cons.prems by (simp_all add: starts_with_def)
    then show ?thesis by simp
  next
    case False
    then have "find_str_from pat xs (Suc i) = Some j" using Cons.prems by simp
    from Cons.IH [OF this] show ?thesis by auto
  qed
qed (simp split: if_splits)

lemma find_str_Some: "find_str s pat pos = Some j \<Longrightarrow> pos \<le> j \<and> j + length pat \<le> length s"
proof -
  assume *: "find_str s pat pos = Some j"
  then have "pos \<le> length s" "find_str_from pat (drop pos s) pos = Some j"
    unfolding find_str_def by (auto split: if_splits)
  moreover from find_str_from_Some [OF this(2)] have "pos \<le> j" "j - pos + length pat \<le> length s - pos" by auto
  ultimately show ?thesis by arith
qed

lemma clamp_bounds: "lo \<le> hi \<Longrightarrow> lo \<le> clamp x lo hi \<and> clamp x lo hi \<le> hi"
  by (simp add: clamp_def)

lemma unat_byte [simp]: "unat (b :: 8 word) < 256"
  by (rule order_less_le_trans [OF unsigned_less]) simp

section \<open>Lemmas on association lists\<close>

text \<open>Its condition on \<open>set al\<close> makes it loop with equations for that set.\<close>

declare AList.delete_id [simp del]

lemma length_update:
  "length (AList.update k v al) = (if k \<in> fst ` set al then length al else Suc (length al))"
  by (induction al) auto

lemma length_delete:
  "distinct (map fst al) \<Longrightarrow>
     length (AList.delete k al) = (if k \<in> fst ` set al then length al - 1 else length al)"
proof (induction al)
  case Nil
  then show ?case by simp
next
  case (Cons p al)
  show ?case
  proof (cases "fst p = k")
    case True
    with Cons.prems have "k \<notin> fst ` set al" by auto
    then have "AList.delete k al = al"
      by (rule AList.delete_id)
    with True show ?thesis by (auto simp: AList.delete_eq)
  next
    case False
    with Cons show ?thesis
      by (cases al) (auto simp: AList.delete_eq)
  qed
qed

lemma set_split_delete:
  "distinct (map fst al) \<Longrightarrow> map_of al k = Some v \<Longrightarrow> set al = insert (k, v) (set (AList.delete k al))"
proof (induction al)
  case (Cons p al)
  show ?case
  proof (cases "fst p = k")
    case True
    with Cons.prems have "k \<notin> fst ` set al" "p = (k, v)" by (auto simp: prod_eq_iff)
    then show ?thesis by (simp add: AList.delete_id)
  next
    case False
    with Cons show ?thesis by (cases p) auto
  qed
qed simp

lemma map_of_update [simp]: "map_of (AList.update k v al) = (map_of al)(k \<mapsto> v)"
  by (rule update_conv')

lemma map_of_delete [simp]: "map_of (AList.delete k al) = (map_of al)(k := None)"
  by (rule delete_conv')

lemma dom_map_of_fst: "dom (map_of al) = fst ` set al"
  by (rule dom_map_of_conv_image_fst)

lemma set_remove1_distinct: "distinct xs \<Longrightarrow> set (remove1 x xs) = set xs - {x}"
  by (rule set_remove1_eq)

section \<open>Picking an element by a linear scan\<close>

text \<open>The loop that keeps the best element seen so far.\<close>

lemma foldl_pick_mem: "foldl (\<lambda>v x. if R x v then x else v) v xs \<in> insert v (set xs)"
proof (induction xs arbitrary: v)
  case (Cons x xs)
  from Cons.IH [of x] Cons.IH [of v] show ?case by auto
qed simp

lemma foldl_pick_least:
  assumes "\<And>x. x \<in> A \<Longrightarrow> x \<noteq> n \<Longrightarrow> R n x \<and> \<not> R x n"
  shows "v = n \<or> n \<in> set xs \<Longrightarrow> v \<in> A \<Longrightarrow> set xs \<subseteq> A \<Longrightarrow> foldl (\<lambda>v x. if R x v then x else v) v xs = n"
proof (induction xs arbitrary: v)
  case (Cons x xs)
  have x: "x \<in> A" using Cons.prems by simp
  have "v = n \<Longrightarrow> x = n \<or> \<not> R x v" "x = n \<Longrightarrow> v = n \<or> R x v"
    using assms [OF x] assms [OF Cons.prems(2)] by blast+
  then have "(if R x v then x else v) = n \<or> n \<in> set xs" using Cons.prems(1) by auto
  moreover have "(if R x v then x else v) \<in> A" using x Cons.prems(2) by simp
  ultimately show ?case using Cons.IH [of "if R x v then x else v"] Cons.prems(3) by simp
qed simp

section \<open>Enumerations of unordered containers\<close>

text \<open>\<open>iter\<close> enumerates a container: some order of its elements.\<close>

definition enumerates :: "('a list \<Rightarrow> 'a list) \<Rightarrow> bool" where
  "enumerates iter \<longleftrightarrow> (\<forall>m. mset (iter m) = mset m)"

lemma enumerates_set: "enumerates iter \<Longrightarrow> set (iter m) = set m"
  by (metis enumerates_def set_mset_mset)

lemma enumerates_id: "enumerates (\<lambda>m. m)"
  by (simp add: enumerates_def)

lemma update_append: "k \<notin> fst ` set al \<Longrightarrow> AList.update k v al = al @ [(k, v)]"
  by (induction al) auto

lemma delete_append: "k \<notin> fst ` set al \<Longrightarrow> AList.delete k (al @ [(k, v)]) = al"
  by (auto simp: AList.delete_eq image_iff intro!: filter_True)

lemma set_delete_subset: "set (AList.delete k m) \<subseteq> set m"
  by (auto simp: AList.delete_eq)

lemma length_delete_mem:
  "distinct (map fst m) \<Longrightarrow> k \<in> fst ` set m \<Longrightarrow> Suc (length (AList.delete k m)) = length m"
proof (induction m)
  case (Cons a m)
  show ?case
  proof (cases "fst a = k")
    case True
    with Cons.prems have "k \<notin> fst ` set m" by auto
    then have "AList.delete k m = m" by (simp add: delete_id)
    with True show ?thesis by (cases a) simp
  next
    case False
    with Cons show ?thesis by (cases a) auto
  qed
qed simp

end
