(* ===== verification/Text_Codec.thy ===== *)
theory Text_Codec
  imports QO_Prelude
begin

text \<open>
  The encoders and decoders the extension writes by hand: hexadecimal digests, percent-encoded
  form parameters, JSON and log-line escaping, SQL identifier and literal quoting, the base64url
  decoder for JWK members and the splitter of space-delimited scopes. Each comes with the reader
  of the format it targets (a specification, not code of the repository) and the round trip that
  says the text cannot be misread.
\<close>

unbundle bit_operations_syntax

section \<open>Encoders of the source\<close>

definition kHex :: string where
  "kHex = ''0123456789abcdef''"

definition kHexUpper :: string where
  "kHexUpper = ''0123456789ABCDEF''"

text \<open>\<open>HexEncode\<close>: the high nibble \<open>(b >> 4) & 0x0F\<close> first, then \<open>b & 0x0F\<close>.\<close>

fun HexEncode :: "bytes \<Rightarrow> string" where
  "HexEncode [] = []"
| "HexEncode (b # bs) =
     kHex ! unat (drop_bit 4 b AND 0x0F) # kHex ! unat (b AND 0x0F) # HexEncode bs"

definition unreserved :: "char \<Rightarrow> bool" where
  "unreserved c \<longleftrightarrow> 65 \<le> uc c \<and> uc c \<le> 90 \<or> 97 \<le> uc c \<and> uc c \<le> 122 \<or> 48 \<le> uc c \<and> uc c \<le> 57 \<or>
     c = CHR ''-'' \<or> c = CHR ''_'' \<or> c = CHR ''.'' \<or> c = CHR ''~''"

fun UrlEncode :: "string \<Rightarrow> string" where
  "UrlEncode [] = []"
| "UrlEncode (c # cs) =
     (if unreserved c then [c]
      else [CHR ''%'', kHexUpper ! (uc c div 16 mod 16), kHexUpper ! (uc c mod 16)]) @ UrlEncode cs"

definition json_escape_char :: "char \<Rightarrow> string" where
  "json_escape_char c =
     (if c = CHR 0x22 then [CHR 0x5C, CHR 0x22]
      else if c = CHR 0x5C then [CHR 0x5C, CHR 0x5C]
      else if c = CHR 0x08 then [CHR 0x5C, CHR ''b'']
      else if c = CHR 0x0C then [CHR 0x5C, CHR ''f'']
      else if c = CHR 0x0A then [CHR 0x5C, CHR ''n'']
      else if c = CHR 0x0D then [CHR 0x5C, CHR ''r'']
      else if c = CHR 0x09 then [CHR 0x5C, CHR ''t'']
      else if uc c < 0x20
      then [CHR 0x5C, CHR ''u'', CHR ''0'', CHR ''0'', kHex ! (uc c div 16), kHex ! (uc c mod 16)]
      else [c])"

definition JsonEscape :: "string \<Rightarrow> string" where
  "JsonEscape s = concat (map json_escape_char s)"

definition needs_quoting :: "string \<Rightarrow> bool" where
  "needs_quoting v \<longleftrightarrow> v = [] \<or>
     (\<exists>c \<in> set v. c = CHR '' '' \<or> c = CHR ''='' \<or> c = CHR 0x22 \<or> c = CHR 0x5C \<or> uc c < 0x20 \<or> uc c = 0x7F)"

definition log_escape_char :: "char \<Rightarrow> string" where
  "log_escape_char c =
     (if c = CHR 0x22 \<or> c = CHR 0x5C then [CHR 0x5C, c]
      else if c = CHR 0x0D then [CHR 0x5C, CHR ''r'']
      else if c = CHR 0x0A then [CHR 0x5C, CHR ''n'']
      else if c = CHR 0x09 then [CHR 0x5C, CHR ''t'']
      else if uc c < 0x20 \<or> uc c = 0x7F
      then [CHR 0x5C, CHR ''x'', kHex ! (uc c div 16 mod 16), kHex ! (uc c mod 16)]
      else [c])"

definition MaybeQuote :: "string \<Rightarrow> string" where
  "MaybeQuote v =
     (if \<not> needs_quoting v then v
      else [CHR 0x22] @ concat (map log_escape_char v) @ [CHR 0x22])"

text \<open>
  \<open>QuoteQualifiedIdentifier\<close> walks the name with the output and the current segment as its state;
  \<open>flush\<close> quotes the segment, doubling embedded quotes.
\<close>

definition quote_segment :: "string \<Rightarrow> string" where
  "quote_segment seg =
     [CHR 0x22] @ concat (map (\<lambda>c. if c = CHR 0x22 then [CHR 0x22, CHR 0x22] else [c]) seg) @ [CHR 0x22]"

fun qualified_loop :: "string \<Rightarrow> string \<Rightarrow> string \<Rightarrow> string" where
  "qualified_loop [] out segment = out @ quote_segment segment"
| "qualified_loop (c # cs) out segment =
     (if c = CHR ''.'' then qualified_loop cs (out @ quote_segment segment @ ''.'') []
      else qualified_loop cs out (segment @ [c]))"

definition QuoteQualifiedIdentifier :: "string \<Rightarrow> string" where
  "QuoteQualifiedIdentifier qualified = qualified_loop qualified [] []"

definition EscapeSingleQuotes :: "string \<Rightarrow> string" where
  "EscapeSingleQuotes s = concat (map (\<lambda>c. if c = CHR 0x27 then [CHR 0x27, CHR 0x27] else [c]) s)"

text \<open>
  The base64url decoder: a 32-bit \<open>unsigned int\<close> shift register (its high bits fall off on the
  left) and the number of bits not yet written.
\<close>

definition value_of :: "char \<Rightarrow> nat option" where
  "value_of c =
     (if 65 \<le> uc c \<and> uc c \<le> 90 then Some (uc c - 65)
      else if 97 \<le> uc c \<and> uc c \<le> 122 then Some (uc c - 97 + 26)
      else if 48 \<le> uc c \<and> uc c \<le> 57 then Some (uc c - 48 + 52)
      else if c = CHR ''-'' then Some 62
      else if c = CHR ''_'' then Some 63
      else None)"

fun b64_loop :: "string \<Rightarrow> 32 word \<Rightarrow> nat \<Rightarrow> bytes \<Rightarrow> bytes option" where
  "b64_loop [] buffer bits out = Some out"
| "b64_loop (c # cs) buffer bits out =
     (if c = CHR ''='' then Some out
      else case value_of c of
        None \<Rightarrow> None
      | Some v \<Rightarrow>
          let buffer' = push_bit 6 buffer OR of_nat v; bits' = bits + 6
          in if 8 \<le> bits'
             then b64_loop cs buffer' (bits' - 8) (out @ [ucast (drop_bit (bits' - 8) buffer' AND 0xFF)])
             else b64_loop cs buffer' bits' out)"

definition Base64UrlDecode :: "string \<Rightarrow> bytes option" where
  "Base64UrlDecode s = (if s = [] then None else b64_loop s 0 0 [])"

text \<open>
  The loop over a space-delimited \<open>scope\<close> string, written three times in the source: find the next
  space from \<open>start\<close> (or the end), keep the piece when it is not empty, go on after the space.
\<close>

function split_scope_from :: "string \<Rightarrow> nat \<Rightarrow> string list" where
  "split_scope_from s start =
     (if start < length s
      then let e = (case find_char s CHR '' '' start of None \<Rightarrow> length s | Some j \<Rightarrow> j)
           in (if start < e then [substr s start (e - start)] else []) @ split_scope_from s (Suc e)
      else [])"
  by pat_completeness auto
termination
  by (relation "measure (\<lambda>(s, start). Suc (length s) - start)")
    (auto simp: find_char_def split: option.splits dest!: find_char_from_Some)

declare split_scope_from.simps [simp del]

definition split_scope :: "string \<Rightarrow> string list" where
  "split_scope s = split_scope_from s 0"

text \<open>\<open>std::to_string\<close> of a 64-bit integer.\<close>

fun nat_digits :: "nat \<Rightarrow> string" where
  "nat_digits n = (if n < 10 then [char_of (48 + n)] else nat_digits (n div 10) @ [char_of (48 + n mod 10)])"

declare nat_digits.simps [simp del]

definition int_to_string :: "int \<Rightarrow> string" where
  "int_to_string i = (if i < 0 then CHR ''-'' # nat_digits (nat (- i)) else nat_digits (nat i))"

section \<open>Readers of the target formats\<close>

text \<open>Hexadecimal digits of either case.\<close>

definition hex_val :: "char \<Rightarrow> nat option" where
  "hex_val c =
     (if 48 \<le> uc c \<and> uc c \<le> 57 then Some (uc c - 48)
      else if 97 \<le> uc c \<and> uc c \<le> 102 then Some (uc c - 87)
      else if 65 \<le> uc c \<and> uc c \<le> 70 then Some (uc c - 55)
      else None)"

fun hex_decode :: "string \<Rightarrow> bytes option" where
  "hex_decode [] = Some []"
| "hex_decode [c] = None"
| "hex_decode (h # l # cs) =
     (case (hex_val h, hex_val l, hex_decode cs) of
        (Some a, Some b, Some bs) \<Rightarrow> Some (of_nat (16 * a + b) # bs)
      | _ \<Rightarrow> None)"

text \<open>Percent decoding (RFC 3986).\<close>

fun url_decode :: "string \<Rightarrow> string option" where
  "url_decode [] = Some []"
| "url_decode (c # cs) =
     (if c = CHR ''%'' then
        (case cs of
           h # l # r \<Rightarrow>
             (case (hex_val h, hex_val l, url_decode r) of
                (Some a, Some b, Some s) \<Rightarrow> Some (char_of (16 * a + b) # s)
              | _ \<Rightarrow> None)
         | _ \<Rightarrow> None)
      else map_option ((#) c) (url_decode cs))"

text \<open>The characters of a JSON string literal up to its closing quote (RFC 8259), and the rest.\<close>

definition json_simple_escape :: "char \<Rightarrow> char option" where
  "json_simple_escape e =
     map_of [(CHR 0x22, CHR 0x22), (CHR 0x5C, CHR 0x5C), (CHR ''/'', CHR ''/''), (CHR ''b'', CHR 0x08),
       (CHR ''f'', CHR 0x0C), (CHR ''n'', CHR 0x0A), (CHR ''r'', CHR 0x0D), (CHR ''t'', CHR 0x09)] e"

fun json_string_body :: "string \<Rightarrow> (string \<times> string) option" where
  "json_string_body [] = None"
| "json_string_body (c # cs) =
     (if c = CHR 0x22 then Some ([], cs)
      else if c = CHR 0x5C then
        (case cs of
           [] \<Rightarrow> None
         | e # r \<Rightarrow>
             (case json_simple_escape e of
                Some x \<Rightarrow> map_option (map_prod ((#) x) id) (json_string_body r)
              | None \<Rightarrow>
                  (if e = CHR ''u'' then
                     (case r of
                        d1 # d2 # d3 # d4 # r' \<Rightarrow>
                          (case (hex_val d1, hex_val d2, hex_val d3, hex_val d4) of
                             (Some 0, Some 0, Some a, Some b) \<Rightarrow>
                               map_option (map_prod ((#) (char_of (16 * a + b))) id) (json_string_body r')
                           | _ \<Rightarrow> None)
                      | _ \<Rightarrow> None)
                   else None)))
      else if uc c < 0x20 then None
      else map_option (map_prod ((#) c) id) (json_string_body cs))"

text \<open>A quoted value of a \<open>key=value\<close> log line up to its closing quote, and the rest.\<close>

fun log_string_body :: "string \<Rightarrow> (string \<times> string) option" where
  "log_string_body [] = None"
| "log_string_body (c # cs) =
     (if c = CHR 0x22 then Some ([], cs)
      else if c = CHR 0x5C then
        (case cs of
           [] \<Rightarrow> None
         | e # r \<Rightarrow>
             (if e = CHR ''x'' then
                (case r of
                   h # l # r' \<Rightarrow>
                     (case (hex_val h, hex_val l) of
                        (Some a, Some b) \<Rightarrow>
                          map_option (map_prod ((#) (char_of (16 * a + b))) id) (log_string_body r')
                      | _ \<Rightarrow> None)
                 | _ \<Rightarrow> None)
              else map_option
                (map_prod ((#) (if e = CHR ''r'' then CHR 0x0D else if e = CHR ''n'' then CHR 0x0A
                                else if e = CHR ''t'' then CHR 0x09 else e)) id)
                (log_string_body r)))
      else map_option (map_prod ((#) c) id) (log_string_body cs))"

text \<open>A log value: quoted, or bare up to the next space.\<close>

definition log_value :: "string \<Rightarrow> (string \<times> string) option" where
  "log_value s =
     (case s of
        c # cs \<Rightarrow>
          if c = CHR 0x22 then log_string_body cs
          else Some (takeWhile (\<lambda>x. x \<noteq> CHR '' '') s, dropWhile (\<lambda>x. x \<noteq> CHR '' '') s)
      | [] \<Rightarrow> Some ([], []))"

text \<open>
  A text delimited by a quote character that is written twice to stand for itself: the SQL rule
  for identifiers (with a double quote) and for string literals (with a single quote). The result
  is the content and what follows the closing quote.
\<close>

fun sql_delimited :: "char \<Rightarrow> string \<Rightarrow> (string \<times> string) option" where
  "sql_delimited q [] = None"
| "sql_delimited q (c # cs) =
     (if c = q then
        (case cs of
           d # r \<Rightarrow> if d = q then map_option (map_prod ((#) q) id) (sql_delimited q r) else Some ([], d # r)
         | [] \<Rightarrow> Some ([], []))
      else map_option (map_prod ((#) c) id) (sql_delimited q cs))"

text \<open>A dotted sequence of quoted identifiers.\<close>

fun sql_qualified :: "nat \<Rightarrow> string \<Rightarrow> string list option" where
  "sql_qualified 0 s = None"
| "sql_qualified (Suc n) s =
     (case s of
        q # r \<Rightarrow>
          if q = CHR 0x22 then
            (case sql_delimited q r of
               Some (seg, []) \<Rightarrow> Some [seg]
             | Some (seg, d # r') \<Rightarrow> if d = CHR ''.'' then map_option ((#) seg) (sql_qualified n r') else None
             | None \<Rightarrow> None)
          else None
      | [] \<Rightarrow> None)"

text \<open>The pieces of a text between occurrences of a separator (at least one).\<close>

fun split_on :: "char \<Rightarrow> string \<Rightarrow> string list" where
  "split_on c [] = [[]]"
| "split_on c (x # xs) =
     (if x = c then [] # split_on c xs
      else (case split_on c xs of p # ps \<Rightarrow> (x # p) # ps | [] \<Rightarrow> [[x]]))"

text \<open>The encoder of RFC 4648 section 5 without padding.\<close>

definition b64_char :: "nat \<Rightarrow> char" where
  "b64_char n =
     (if n < 26 then char_of (n + 65) else if n < 52 then char_of (n - 26 + 97)
      else if n < 62 then char_of (n - 52 + 48) else if n = 62 then CHR ''-'' else CHR ''_'')"

fun base64url_encode :: "bytes \<Rightarrow> string" where
  "base64url_encode [] = []"
| "base64url_encode [a] = [b64_char (unat a div 4), b64_char (unat a mod 4 * 16)]"
| "base64url_encode [a, b] =
     [b64_char (unat a div 4), b64_char (unat a mod 4 * 16 + unat b div 16), b64_char (unat b mod 16 * 4)]"
| "base64url_encode (a # b # c # bs) =
     [b64_char (unat a div 4), b64_char (unat a mod 4 * 16 + unat b div 16),
      b64_char (unat b mod 16 * 4 + unat c div 64), b64_char (unat c mod 64)] @ base64url_encode bs"

section \<open>Hexadecimal digits\<close>

text \<open>A bounded claim about digits is settled by evaluating it on the whole range.\<close>

lemma below_by_evaluation: "list_all P [0..<k] \<Longrightarrow> n < k \<Longrightarrow> P n"
  by (simp add: list_all_iff)

lemma hex_val_kHex [simp]: "n < 16 \<Longrightarrow> hex_val (kHex ! n) = Some n"
  by (rule below_by_evaluation [where P = "\<lambda>n. hex_val (kHex ! n) = Some n" and k = 16]) (code_simp, assumption)

lemma hex_val_kHexUpper [simp]: "n < 16 \<Longrightarrow> hex_val (kHexUpper ! n) = Some n"
  by (rule below_by_evaluation [where P = "\<lambda>n. hex_val (kHexUpper ! n) = Some n" and k = 16]) (code_simp, assumption)

lemma length_kHex [simp]: "length kHex = 16"
  by (simp add: kHex_def)

lemma div16_less [simp]: "uc c div 16 < 16" "unat (b :: 8 word) div 16 < 16"
  by (simp_all add: less_mult_imp_div_less)

lemma kHexUpper_unreserved: "n < 16 \<Longrightarrow> unreserved (kHexUpper ! n)"
  by (rule below_by_evaluation [where P = "\<lambda>n. unreserved (kHexUpper ! n)" and k = 16]) (code_simp, assumption)

lemma nibbles:
  fixes b :: "8 word"
  shows "unat (drop_bit 4 b AND 0x0F) = unat b div 16" and "unat (b AND 0x0F) = unat b mod 16"
proof -
  have m: "(0x0F :: 8 word) = mask 4" by (simp add: mask_eq_exp_minus_1)
  have lt: "unat b < 256" by simp
  have "unat (drop_bit 4 b AND 0x0F) = take_bit 4 (drop_bit 4 (unat b))"
    by (simp add: m unat_drop_bit_eq flip: take_bit_eq_mask) (simp add: unsigned_take_bit_eq unat_drop_bit_eq)
  also have "\<dots> = unat b div 16"
    using lt by (simp only: take_bit_eq_mod drop_bit_eq_div) (simp add: less_mult_imp_div_less)
  finally show "unat (drop_bit 4 b AND 0x0F) = unat b div 16" .
  show "unat (b AND 0x0F) = unat b mod 16"
    by (simp only: m flip: take_bit_eq_mask) (simp add: unsigned_take_bit_eq take_bit_eq_mod [of 4 "unat b"])
qed

lemma HexEncode_Cons:
  "HexEncode (b # bs) = kHex ! (unat b div 16) # kHex ! (unat b mod 16) # HexEncode bs"
  by (simp only: HexEncode.simps nibbles(1)) (simp only: nibbles(2))

lemma length_HexEncode [simp]: "length (HexEncode bs) = 2 * length bs"
  by (induction bs) simp_all

declare HexEncode.simps(2) [simp del]

lemma HexEncode_lower_hex: "set (HexEncode bs) \<subseteq> set kHex"
  by (induction bs) (simp_all add: HexEncode_Cons)

lemma hex_decode_HexEncode: "hex_decode (HexEncode bs) = Some bs"
proof (induction bs)
  case (Cons b bs)
  have "(of_nat (16 * (unat b div 16) + unat b mod 16) :: 8 word) = b"
    by (simp only: mult_div_mod_eq) simp
  with Cons show ?case by (simp add: HexEncode_Cons)
qed simp

section \<open>Form parameters\<close>

lemma unreserved_no_delim:
  "unreserved c \<Longrightarrow> c \<noteq> CHR ''%'' \<and> c \<noteq> CHR ''&'' \<and> c \<noteq> CHR ''=''"
  by (auto simp: unreserved_def uc_def)

lemma url_decode_UrlEncode: "url_decode (UrlEncode s) = Some s"
proof (induction s)
  case (Cons c cs)
  then show ?case by (auto dest: unreserved_no_delim)
qed simp

lemma UrlEncode_chars: "c \<in> set (UrlEncode s) \<Longrightarrow> unreserved c \<or> c = CHR ''%''"
  by (induction s) (auto split: if_splits intro: kHexUpper_unreserved)

lemma UrlEncode_no_delim: "CHR ''&'' \<notin> set (UrlEncode s)" "CHR ''='' \<notin> set (UrlEncode s)"
  by (auto dest!: UrlEncode_chars unreserved_no_delim)

section \<open>JSON string literals\<close>

lemma uc_small_div: "uc c < 0x20 \<Longrightarrow> uc c div 16 < 16 \<and> uc c mod 16 < 16 \<and> 16 * (uc c div 16) + uc c mod 16 = uc c"
  by simp

lemma json_string_body_escape_char:
  "json_string_body (json_escape_char c @ r) = map_option (map_prod ((#) c) id) (json_string_body r)"
proof -
  have u0: "hex_val CHR ''0'' = Some 0" by (simp add: hex_val_def uc_def)
  have "char_of (16 * (uc c div 16) + uc c mod 16) = c"
    by (simp only: mult_div_mod_eq char_of_uc)
  then show ?thesis
    by (simp add: json_escape_char_def json_simple_escape_def u0 uc_def)
qed

lemma json_string_body_JsonEscape:
  "json_string_body (JsonEscape s @ CHR 0x22 # r) = Some (s, r)"
  by (induction s) (simp_all add: JsonEscape_def json_string_body_escape_char del: json_string_body.simps(2), simp)

section \<open>Log values\<close>

definition control_char :: "char \<Rightarrow> bool" where
  "control_char c \<longleftrightarrow> uc c < 0x20 \<or> uc c = 0x7F"

lemma kHex_not_control: "n < 16 \<Longrightarrow> \<not> control_char (kHex ! n)"
  by (rule below_by_evaluation [where P = "\<lambda>n. \<not> control_char (kHex ! n)" and k = 16]) (code_simp, assumption)

lemma log_string_body_escape_char:
  "log_string_body (log_escape_char c @ r) = map_option (map_prod ((#) c) id) (log_string_body r)"
proof -
  have "char_of (16 * (uc c div 16) + uc c mod 16) = c"
    by (simp only: mult_div_mod_eq char_of_uc)
  then show ?thesis by (simp add: log_escape_char_def)
qed

lemma log_string_body_escaped:
  "log_string_body (concat (map log_escape_char v) @ CHR 0x22 # r) = Some (v, r)"
  by (induction v) (simp_all add: log_string_body_escape_char del: log_string_body.simps(2), simp)

lemma log_escape_char_printable: "x \<in> set (log_escape_char c) \<Longrightarrow> \<not> control_char x"
  by (auto simp: log_escape_char_def kHex_not_control split: if_splits) (auto simp: control_char_def uc_def)

lemma MaybeQuote_printable:
  assumes "x \<in> set (MaybeQuote v)"
  shows "\<not> control_char x"
proof (cases "needs_quoting v")
  case True
  have "\<not> control_char CHR 0x22" by (simp add: control_char_def uc_def)
  with True assms show ?thesis
    by (auto simp: MaybeQuote_def dest: log_escape_char_printable)
next
  case False
  with assms show ?thesis by (auto simp: MaybeQuote_def needs_quoting_def control_char_def)
qed

lemma log_value_MaybeQuote:
  assumes "r = [] \<or> hd r = CHR '' ''"
  shows "log_value (MaybeQuote v @ r) = Some (v, r)"
proof (cases "needs_quoting v")
  case True
  then show ?thesis
    by (simp add: MaybeQuote_def log_value_def log_string_body_escaped)
next
  case False
  then have v: "v \<noteq> []" "\<forall>c \<in> set v. c \<noteq> CHR '' '' \<and> c \<noteq> CHR 0x22"
    by (auto simp: needs_quoting_def)
  then obtain c cs where c: "v = c # cs" "c \<noteq> CHR 0x22" by (cases v) auto
  have "takeWhile (\<lambda>x. x \<noteq> CHR '' '') (v @ r) = v" "dropWhile (\<lambda>x. x \<noteq> CHR '' '') (v @ r) = r"
    using v assms by (cases r; auto simp: takeWhile_append2)+
  with False c show ?thesis by (simp add: MaybeQuote_def log_value_def)
qed

section \<open>Printed integers\<close>

definition digit_char :: "char \<Rightarrow> bool" where
  "digit_char c \<longleftrightarrow> 48 \<le> uc c \<and> uc c \<le> 57"

lemma nat_digits_digits: "c \<in> set (nat_digits n) \<Longrightarrow> digit_char c"
proof (induction n rule: nat_digits.induct)
  case (1 n)
  then show ?case
    by (subst (asm) (2) nat_digits.simps) (auto simp: digit_char_def uc_char_of split: if_splits)
qed

lemma nat_digits_not_Nil [simp]: "nat_digits n \<noteq> []"
  by (subst nat_digits.simps) simp

lemma int_to_string_not_Nil [simp]: "int_to_string i \<noteq> []"
  by (simp add: int_to_string_def)

lemma int_to_string_bare [simp]: "\<not> needs_quoting (int_to_string i)"
proof -
  have "\<not> (c = CHR '' '' \<or> c = CHR ''='' \<or> c = CHR 0x22 \<or> c = CHR 0x5C \<or> uc c < 0x20 \<or> uc c = 0x7F)"
    if "c \<in> set (int_to_string i)" for c
  proof -
    from that have "digit_char c \<or> c = CHR ''-''"
      by (auto simp: int_to_string_def dest: nat_digits_digits split: if_splits)
    then show ?thesis by (auto simp: digit_char_def uc_def)
  qed
  then show ?thesis by (auto simp: needs_quoting_def)
qed

section \<open>SQL quoting\<close>

lemma sql_delimited_doubled:
  assumes "r = [] \<or> hd r \<noteq> q"
  shows "sql_delimited q (concat (map (\<lambda>c. if c = q then [q, q] else [c]) s) @ q # r) = Some (s, r)"
proof (induction s)
  case Nil
  with assms show ?case by (cases r) auto
qed auto

lemma split_on_Cons_ex: "\<exists>p ps. split_on c xs = p # ps"
  by (induction xs) (auto split: list.splits)

lemma split_on_append_first:
  "c \<notin> set seg \<Longrightarrow> split_on c (seg @ c # xs) = seg # split_on c xs"
  by (induction seg) auto

lemma split_on_no_sep: "c \<notin> set seg \<Longrightarrow> split_on c seg = [seg]"
  by (induction seg) auto

lemma split_on_no_sep_iff: "p \<in> set (split_on c xs) \<Longrightarrow> c \<notin> set p"
proof (induction xs arbitrary: p)
  case (Cons x xs)
  obtain q qs where "split_on c xs = q # qs" using split_on_Cons_ex by blast
  with Cons show ?case by (auto split: if_splits)
qed simp

fun join_dots :: "string list \<Rightarrow> string" where
  "join_dots [] = []"
| "join_dots [x] = x"
| "join_dots (x # xs) = x @ ''.'' @ join_dots xs"

lemma qualified_loop_eq:
  "CHR ''.'' \<notin> set seg \<Longrightarrow>
     qualified_loop cs out seg = out @ join_dots (map quote_segment (split_on CHR ''.'' (seg @ cs)))"
proof (induction cs out seg rule: qualified_loop.induct)
  case (1 out seg)
  then show ?case by (simp add: split_on_no_sep)
next
  case (2 c cs out seg)
  obtain p ps where "split_on CHR ''.'' cs = p # ps" using split_on_Cons_ex by blast
  with 2 show ?case by (auto simp: split_on_append_first)
qed

lemma QuoteQualifiedIdentifier_eq:
  "QuoteQualifiedIdentifier s = join_dots (map quote_segment (split_on CHR ''.'' s))"
  by (simp add: QuoteQualifiedIdentifier_def qualified_loop_eq)

lemma sql_qualified_quote_segment:
  assumes "r = [] \<or> hd r \<noteq> CHR 0x22"
  shows "sql_qualified (Suc n) (quote_segment x @ r) =
    (case r of [] \<Rightarrow> Some [x]
     | d # r' \<Rightarrow> if d = CHR ''.'' then map_option ((#) x) (sql_qualified n r') else None)"
  using sql_delimited_doubled [OF assms, of x] by (simp add: quote_segment_def split: list.split)

lemma sql_qualified_join_dots:
  "segs \<noteq> [] \<Longrightarrow> length segs \<le> n \<Longrightarrow> sql_qualified n (join_dots (map quote_segment segs)) = Some segs"
proof (induction segs arbitrary: n rule: join_dots.induct)
  case (2 x)
  then obtain m where "n = Suc m" by (cases n) auto
  then show ?case using sql_qualified_quote_segment [of "[]" m x] by simp
next
  case (3 x y xs)
  then obtain m where "n = Suc m" by (cases n) auto
  then show ?case using 3 sql_qualified_quote_segment [of "''.'' @ join_dots (map quote_segment (y # xs))" m x]
    by simp
qed simp

lemma sql_delimited_EscapeSingleQuotes:
  "r = [] \<or> hd r \<noteq> CHR 0x27 \<Longrightarrow> sql_delimited CHR 0x27 (EscapeSingleQuotes s @ CHR 0x27 # r) = Some (s, r)"
  unfolding EscapeSingleQuotes_def by (rule sql_delimited_doubled)

section \<open>Scopes\<close>

lemma split_on_takeWhile:
  "split_on c xs = (if c \<in> set xs
     then takeWhile (\<lambda>x. x \<noteq> c) xs # split_on c (tl (dropWhile (\<lambda>x. x \<noteq> c) xs)) else [xs])"
  by (induction xs) auto

lemma split_scope_from_eq:
  "start \<le> length s \<Longrightarrow> split_scope_from s start = filter (\<lambda>p. p \<noteq> []) (split_on CHR '' '' (drop start s))"
proof (induction s start rule: split_scope_from.induct)
  case (1 s start)
  let ?d = "drop start s" and ?sp = "CHR '' ''"
  show ?case
  proof (cases "start < length s")
    case False
    then show ?thesis by (subst split_scope_from.simps) simp
  next
    case lt: True
    show ?thesis
    proof (cases "?sp \<in> set ?d")
      case False
      then have "find_char s ?sp start = None"
        by (simp add: find_char_def find_char_from_None)
      moreover have "split_scope_from s (Suc (length s)) = []"
        by (subst split_scope_from.simps) simp
      ultimately show ?thesis
        using lt False by (subst split_scope_from.simps) (simp add: substr_def split_on_no_sep)
    next
      case True
      let ?n = "length (takeWhile (\<lambda>x. x \<noteq> ?sp) ?d)"
      have f: "find_char s ?sp start = Some (start + ?n)"
        using True by (simp add: find_char_def find_char_from_takeWhile)
      have n: "?n < length ?d"
        using True by (rule length_takeWhile_neq)
      have tk: "take ?n ?d = takeWhile (\<lambda>x. x \<noteq> ?sp) ?d" by (rule takeWhile_eq_take [symmetric])
      have dr: "tl (dropWhile (\<lambda>x. x \<noteq> ?sp) ?d) = drop (Suc (start + ?n)) s"
        by (simp add: dropWhile_eq_drop add.commute) (simp add: drop_Suc drop_tl)
      have "split_scope_from s (Suc (start + ?n)) =
          filter (\<lambda>p. p \<noteq> []) (split_on ?sp (drop (Suc (start + ?n)) s))"
        using 1 lt f n by simp
      then show ?thesis
        using lt f True n
        by (subst split_scope_from.simps) (subst split_on_takeWhile, simp add: substr_def tk dr)
    qed
  qed
qed

lemma split_scope_eq: "split_scope s = filter (\<lambda>p. p \<noteq> []) (split_on CHR '' '' s)"
  by (simp add: split_scope_def split_scope_from_eq)

section \<open>Base64url\<close>

lemma b64_char_uc:
  "n < 26 \<Longrightarrow> uc (b64_char n) = n + 65"
  "26 \<le> n \<Longrightarrow> n < 52 \<Longrightarrow> uc (b64_char n) = n + 71"
  "52 \<le> n \<Longrightarrow> n < 62 \<Longrightarrow> uc (b64_char n) = n - 4"
  "n = 62 \<Longrightarrow> uc (b64_char n) = 45"
  "n = 63 \<Longrightarrow> uc (b64_char n) = 95"
  by (simp_all add: b64_char_def uc_char_of) (simp_all add: uc_def)

lemma value_of_uc:
  "value_of c =
     (if 65 \<le> uc c \<and> uc c \<le> 90 then Some (uc c - 65)
      else if 97 \<le> uc c \<and> uc c \<le> 122 then Some (uc c - 97 + 26)
      else if 48 \<le> uc c \<and> uc c \<le> 57 then Some (uc c - 48 + 52)
      else if uc c = 45 then Some 62 else if uc c = 95 then Some 63 else None)"
proof -
  have "c = CHR ''-'' \<longleftrightarrow> uc c = uc CHR ''-''" "c = CHR ''_'' \<longleftrightarrow> uc c = uc CHR ''_''" by simp_all
  moreover have "uc CHR ''-'' = 45" "uc CHR ''_'' = 95" by (simp_all add: uc_def)
  ultimately show ?thesis by (simp add: value_of_def)
qed

lemma b64_char_value:
  assumes "n < 64"
  shows "value_of (b64_char n) = Some n" and "b64_char n \<noteq> CHR ''=''"
proof -
  from assms consider "n < 26" | "26 \<le> n" "n < 52" | "52 \<le> n" "n < 62" | "n = 62" | "n = 63" by linarith
  then show v: "value_of (b64_char n) = Some n"
    by cases (auto simp: b64_char_uc value_of_uc)
  have "value_of CHR ''='' = None" by (simp add: value_of_uc) (simp add: uc_def)
  with v show "b64_char n \<noteq> CHR ''=''" by auto
qed

text \<open>Shifting the register left by six wraps at 32 bits, but never touches the pending bits.\<close>

lemma shift_register:
  fixes buffer :: "32 word"
  assumes v: "v < 64" and bits: "bits \<le> 26"
  shows "unat (push_bit 6 buffer OR of_nat v) mod 2 ^ (bits + 6) = unat buffer mod 2 ^ bits * 64 + v"
proof -
  have "push_bit 6 buffer OR of_nat v = push_bit 6 buffer + (of_nat v :: 32 word)"
  proof (rule disjunctive_add [symmetric])
    fix n
    have "(of_nat v :: 32 word) = take_bit 6 (of_nat v)"
      using v by (simp add: take_bit_of_nat take_bit_nat_eq_self)
    then have "\<not> bit (of_nat v :: 32 word) n" if "6 \<le> n"
      using that by (metis bit_take_bit_iff leD)
    then show "\<not> bit (push_bit 6 buffer) n \<or> \<not> bit (of_nat v :: 32 word) n"
      by (cases "6 \<le> n") (simp_all add: bit_push_bit_iff)
  qed
  moreover have "unat (of_nat v :: 32 word) = v"
    using v by (simp add: unsigned_of_nat take_bit_nat_eq_self)
  ultimately have "unat (push_bit 6 buffer OR of_nat v) = (unat buffer * 64 + v) mod 2 ^ 32"
    by (simp add: push_bit_eq_mult unat_word_ariths mod_simps)
  moreover have "(unat buffer * 64 + v) mod 2 ^ 32 mod 2 ^ (bits + 6) = (unat buffer * 64 + v) mod 2 ^ (bits + 6)"
    using bits by (intro mod_mod_cancel le_imp_power_dvd) simp
  moreover have "(unat buffer * 64 + v) mod 2 ^ (bits + 6) = unat buffer mod 2 ^ bits * 64 + v"
  proof -
    have "(unat buffer * 64 + v) mod (64 * 2 ^ bits) = 64 * ((unat buffer * 64 + v) div 64 mod 2 ^ bits) + (unat buffer * 64 + v) mod 64"
      by (rule mod_mult2_eq)
    with v show ?thesis by (simp add: power_add mult.commute)
  qed
  ultimately show ?thesis by simp
qed

lemma register_byte:
  fixes buffer :: "32 word"
  assumes "k \<le> 24"
  shows "(ucast (drop_bit k buffer AND 0xFF) :: 8 word) = of_nat (unat buffer mod 2 ^ (k + 8) div 2 ^ k)"
proof -
  have m: "(0xFF :: 32 word) = mask 8" by (simp add: mask_eq_exp_minus_1)
  have "unat (drop_bit k buffer AND 0xFF) = unat buffer div 2 ^ k mod 2 ^ 8"
    by (simp only: m flip: take_bit_eq_mask)
      (simp add: unsigned_take_bit_eq unat_drop_bit_eq take_bit_eq_mod [of 8 "unat buffer div 2 ^ k"]
        drop_bit_eq_div [of k "unat buffer"])
  also have "\<dots> = unat buffer mod 2 ^ (k + 8) div 2 ^ k"
    by (simp add: power_add mod_mult2_eq)
  finally show ?thesis by (metis of_nat_unat)
qed

lemma b64_loop_step:
  assumes c: "value_of c = Some v" "c \<noteq> CHR ''=''" "v < 64" and bits: "bits \<le> 6"
    and p: "unat buffer mod 2 ^ bits = p"
  shows "bits < 2 \<Longrightarrow> \<exists>buffer'. b64_loop (c # cs) buffer bits out = b64_loop cs buffer' (bits + 6) out \<and>
           unat buffer' mod 2 ^ (bits + 6) = p * 64 + v"
    and "2 \<le> bits \<Longrightarrow> \<exists>buffer'. b64_loop (c # cs) buffer bits out =
             b64_loop cs buffer' (bits - 2) (out @ [of_nat ((p * 64 + v) div 2 ^ (bits - 2))]) \<and>
           unat buffer' mod 2 ^ (bits - 2) = (p * 64 + v) mod 2 ^ (bits - 2)"
proof -
  let ?b = "push_bit 6 buffer OR of_nat v"
  have r: "unat ?b mod 2 ^ (bits + 6) = p * 64 + v"
    using shift_register [of v bits buffer] c(3) bits p by simp
  { assume "bits < 2"
    with c r show "\<exists>buffer'. b64_loop (c # cs) buffer bits out = b64_loop cs buffer' (bits + 6) out \<and>
        unat buffer' mod 2 ^ (bits + 6) = p * 64 + v"
      by (intro exI [of _ ?b]) simp }
  { assume ge: "2 \<le> bits"
    have k: "bits + 6 - 8 = bits - 2" "bits - 2 + 8 = bits + 6" using ge by simp_all
    have "(ucast (drop_bit (bits - 2) ?b AND 0xFF) :: 8 word) = of_nat ((p * 64 + v) div 2 ^ (bits - 2))"
      using register_byte [of "bits - 2" ?b] bits r k by simp
    moreover have "unat ?b mod 2 ^ (bits - 2) = (p * 64 + v) mod 2 ^ (bits - 2)"
      unfolding r [symmetric] by (intro mod_mod_cancel [symmetric] le_imp_power_dvd) simp
    ultimately show "\<exists>buffer'. b64_loop (c # cs) buffer bits out =
             b64_loop cs buffer' (bits - 2) (out @ [of_nat ((p * 64 + v) div 2 ^ (bits - 2))]) \<and>
           unat buffer' mod 2 ^ (bits - 2) = (p * 64 + v) mod 2 ^ (bits - 2)"
      using c ge by (intro exI [of _ ?b]) (simp add: k(1) Let_def) }
qed

declare b64_loop.simps(2) [simp del]

lemma b64_loop_1:
  assumes "v1 < 64" "v2 < 64"
  shows "\<exists>buffer'. b64_loop (b64_char v1 # b64_char v2 # cs) buffer 0 out =
      b64_loop cs buffer' 4 (out @ [of_nat ((v1 * 64 + v2) div 16)]) \<and>
    unat buffer' mod 16 = (v1 * 64 + v2) mod 16"
proof -
  obtain b1 where b1: "b64_loop (b64_char v1 # b64_char v2 # cs) buffer 0 out = b64_loop (b64_char v2 # cs) b1 6 out"
      "unat b1 mod 2 ^ 6 = v1"
    using b64_loop_step(1) [OF b64_char_value, of v1 0 buffer 0 "b64_char v2 # cs" out] assms by auto
  then show ?thesis
    using b64_loop_step(2) [OF b64_char_value, of v2 6 b1 v1 cs out] assms by auto
qed

lemma sextet_pack:
  "x div 4 * 64 + (x mod 4 * 16 + q) = 16 * x + (q :: nat)"
  "x div 16 * 64 + (x mod 16 * 4 + q) = 4 * x + (q :: nat)"
  "x div 4 * 64 + x mod 4 * 16 = 16 * (x :: nat)"
  "x div 16 * 64 + x mod 16 * 4 = 4 * (x :: nat)"
proof -
  have "16 * (4 * (x div 4) + x mod 4) = 16 * x" "4 * (16 * (x div 16) + x mod 16) = 4 * x"
    by (simp_all only: mult_div_mod_eq)
  then show "x div 4 * 64 + (x mod 4 * 16 + q) = 16 * x + q" "x div 16 * 64 + (x mod 16 * 4 + q) = 4 * x + q"
    "x div 4 * 64 + x mod 4 * 16 = 16 * x" "x div 16 * 64 + x mod 16 * 4 = 4 * x"
    by (simp_all only: algebra_simps)
qed

lemma byte_parts:
  "unat (a :: 8 word) div 4 < 64" "unat a div 16 < 16" "unat a div 64 < 4"
  "unat a mod 4 * 16 + unat b div 16 < 64" "unat a mod 16 * 4 + unat b div 64 < 64"
  for b :: "8 word"
proof -
  show d: "unat a div 4 < 64" "unat a div 16 < 16" "unat a div 64 < 4" for a :: "8 word"
    by (simp_all add: less_mult_imp_div_less)
  have "unat a mod 4 < 4" "unat a mod 16 < 16" by simp_all
  with d(2,3) [of b] show "unat a mod 4 * 16 + unat b div 16 < 64" "unat a mod 16 * 4 + unat b div 64 < 64"
    by linarith+
qed

lemma b64_loop_encode: "b64_loop (base64url_encode bs) buffer 0 out = Some (out @ bs)"
proof (induction bs arbitrary: buffer out rule: base64url_encode.induct)
  case 1
  show ?case by simp
next
  case (2 a)
  have "unat a div 4 < 64" "unat a mod 4 * 16 < 64" using byte_parts(1) [of a] by simp_all
  then show ?case
    using b64_loop_1 [of "unat a div 4" "unat a mod 4 * 16" "[]" buffer out] by (auto simp: sextet_pack)
next
  case (3 a b)
  have s: "unat a div 4 < 64" "unat a mod 4 * 16 + unat b div 16 < 64" "unat b mod 16 * 4 < 64"
    using byte_parts by simp_all
  have e: "(16 * unat a + unat b div 16) div 16 = unat a" "(16 * unat a + unat b div 16) mod 16 = unat b div 16"
    using byte_parts(2) [of b] by simp_all
  obtain b1 where b1: "b64_loop (base64url_encode [a, b]) buffer 0 out =
      b64_loop [b64_char (unat b mod 16 * 4)] b1 4 (out @ [a])" "unat b1 mod 2 ^ 4 = unat b div 16"
    using b64_loop_1 [OF s(1,2), of "[b64_char (unat b mod 16 * 4)]" buffer out] by (auto simp: sextet_pack e byte_parts)
  show ?case
    using b64_loop_step(2) [OF b64_char_value [OF s(3)] s(3) _ b1(2), of "[]" "out @ [a]"] b1 by (auto simp: sextet_pack e byte_parts)
next
  case (4 a b c bs)
  have s: "unat a div 4 < 64" "unat a mod 4 * 16 + unat b div 16 < 64"
    "unat b mod 16 * 4 + unat c div 64 < 64" "unat c mod 64 < 64"
    using byte_parts by simp_all
  have e: "(16 * unat a + unat b div 16) div 16 = unat a" "(16 * unat a + unat b div 16) mod 16 = unat b div 16"
    "(4 * unat b + unat c div 64) div 4 = unat b" "(4 * unat b + unat c div 64) mod 4 = unat c div 64"
    using byte_parts(2) [of b] byte_parts(3) [of c] by simp_all
  let ?r = "base64url_encode bs"
  let ?r4 = "b64_char (unat c mod 64) # ?r"
  let ?r3 = "b64_char (unat b mod 16 * 4 + unat c div 64) # ?r4"
  obtain b1 where b1: "b64_loop (base64url_encode (a # b # c # bs)) buffer 0 out = b64_loop ?r3 b1 4 (out @ [a])"
      "unat b1 mod 2 ^ 4 = unat b div 16"
    using b64_loop_1 [OF s(1,2), of ?r3 buffer out] by (auto simp: sextet_pack e byte_parts)
  obtain b2 where b2: "b64_loop ?r3 b1 4 (out @ [a]) = b64_loop ?r4 b2 2 (out @ [a, b])"
      "unat b2 mod 2 ^ 2 = unat c div 64"
    using b64_loop_step(2) [OF b64_char_value [OF s(3)] s(3) _ b1(2), of ?r4 "out @ [a]"] by (auto simp: sextet_pack e byte_parts)
  obtain b3 where b3: "b64_loop ?r4 b2 2 (out @ [a, b]) = b64_loop ?r b3 0 (out @ [a, b, c])"
    using b64_loop_step(2) [OF b64_char_value [OF s(4)] s(4) _ b2(2), of ?r "out @ [a, b]"] by (auto simp: sextet_pack e byte_parts)
  show ?case using b1 b2 b3 4 [of b3 "out @ [a, b, c]"] by simp
qed

lemma base64url_encode_Nil_iff: "base64url_encode bs = [] \<longleftrightarrow> bs = []"
  by (cases bs rule: base64url_encode.cases) simp_all

lemma Base64UrlDecode_encode: "bs \<noteq> [] \<Longrightarrow> Base64UrlDecode (base64url_encode bs) = Some bs"
  by (simp add: Base64UrlDecode_def base64url_encode_Nil_iff b64_loop_encode)

section \<open>Properties\<close>

text \<open>
  A form parameter cannot be forged. Percent decoding recovers the value exactly, and the
  encoded text contains neither of the delimiters of the form format, so no value can end its parameter
  or start another one.
\<close>

lemma UrlEncode_roundtrip:
  "url_decode (UrlEncode s) = Some s \<and> CHR ''&'' \<notin> set (UrlEncode s) \<and> CHR ''='' \<notin> set (UrlEncode s)"
  by (simp add: url_decode_UrlEncode UrlEncode_no_delim)

text \<open>
  A JSON string literal cannot be escaped from. Whatever bytes the token holds, a JSON reader
  that starts after the opening quote reads back exactly the token and stops at the closing quote the
  code wrote.
\<close>

lemma JsonEscape_roundtrip: "json_string_body (JsonEscape s @ CHR 0x22 # r) = Some (s, r)"
  by (rule json_string_body_JsonEscape)

text \<open>
  C33: identifiers and literals spliced into SQL are read back as they were meant. The quoted form
  of a qualified name is read as the sequence of its dot-separated parts, and an escaped literal as the
  original text, ending where the code closes it.
\<close>

theorem sql_quoting_roundtrip:
  "sql_qualified (Suc (length s)) (QuoteQualifiedIdentifier s) = Some (split_on CHR ''.'' s) \<and>
   sql_delimited CHR 0x27 (EscapeSingleQuotes t @ CHR 0x27 # CHR '')'' # r) = Some (t, CHR '')'' # r)"
proof -
  have "length (split_on c xs) \<le> Suc (length xs) \<and> split_on c xs \<noteq> []" for c xs
    by (induction xs) (auto split: list.splits)
  then have "sql_qualified (Suc (length s)) (QuoteQualifiedIdentifier s) = Some (split_on CHR ''.'' s)"
    unfolding QuoteQualifiedIdentifier_eq by (intro sql_qualified_join_dots) simp_all
  then show ?thesis using sql_delimited_EscapeSingleQuotes [of "CHR '')'' # r" t] by simp
qed

text \<open>
  The base64url decoder for key material inverts the unpadded base64url encoding of RFC 4648
  on every non-empty byte string, although its 32-bit register overflows on the way.
\<close>

lemma Base64UrlDecode_roundtrip:
  assumes "bs \<noteq> []"
  shows "Base64UrlDecode (base64url_encode bs) = Some bs"
  using assms by (rule Base64UrlDecode_encode)

lemma Base64UrlDecode_roundtrip_witness: "Base64UrlDecode (base64url_encode [0, 255, 16, 1]) = Some [0, 255, 16, 1]"
  by (rule Base64UrlDecode_roundtrip) simp

text \<open>
  the hand-written scope splitter terminates and yields the non-empty pieces between
  spaces, in order.
\<close>

lemma split_scope_correct: "split_scope s = filter (\<lambda>p. p \<noteq> []) (split_on CHR '' '' s)"
  by (rule split_scope_eq)

end
