(* ===== verification/Host.thy ===== *)
theory Host
  imports Text_Codec
begin

text \<open>
  What the extension uses of its host, DuckDB: values, settings, secrets, queries. The host is not part
  of the repository, so everything it provides is a parameter, gathered in the record \<open>Host\<close> over an
  abstract type \<open>'v\<close> of values:

  \<^item> \<open>h_IsNull\<close>, \<open>h_ToString\<close>, \<open>h_String\<close>, \<open>h_Bool\<close>, \<open>h_Int32\<close>, \<open>h_Children\<close>: \<open>Value::IsNull\<close>,
    \<open>Value::ToString\<close>, \<open>StringValue::Get\<close>, \<open>BooleanValue::Get\<close> or \<open>GetValue<bool>\<close>, \<open>GetValue<int32_t>\<close>
    and \<open>ListValue::GetChildren\<close>; \<open>h_varchar\<close>, \<open>h_null\<close>, \<open>h_bigint\<close>: the constructors of values.
  \<^item> \<open>h_setting\<close>: \<open>TryGetCurrentSetting\<close>; \<open>h_secret\<close>: \<open>GetSecretByName\<close>, the inner option being the
    \<open>dynamic_cast\<close> to a key-value secret.
  \<^item> \<open>h_query\<close>: \<open>Connection::Query\<close>, \<open>None\<close> when \<open>HasError\<close>; \<open>h_prepare\<close>, \<open>h_execute\<close>: a prepared
    statement, with the error message if there is one.

  The theory then models secret_accessor.cpp. A \<open>SecretAccessor\<close> is its pointer \<open>kv\<close>, \<open>None\<close> when null;
  secret maps compare field names case-insensitively in the host, so their keys are kept in lower case.
  Each \<open>throw\<close> of the sources is a constructor of \<open>Exn\<close> with the arguments of its message.
\<close>

record 'v KeyValueSecret =
  sec_type :: string
  sec_map :: "(string \<times> 'v) list"
  sec_redact_keys :: "string list"

record 'v Host =
  h_IsNull :: "'v \<Rightarrow> bool"
  h_ToString :: "'v \<Rightarrow> string"
  h_String :: "'v \<Rightarrow> string"
  h_Bool :: "'v \<Rightarrow> bool"
  h_Int32 :: "'v \<Rightarrow> int"
  h_Children :: "'v \<Rightarrow> 'v list"
  h_varchar :: "string \<Rightarrow> 'v"
  h_null :: 'v
  h_bigint :: "int \<Rightarrow> 'v"
  h_setting :: "string \<Rightarrow> 'v option"
  h_secret :: "string \<Rightarrow> 'v KeyValueSecret option option"
  h_query :: "string \<Rightarrow> 'v list list option"
  h_prepare :: "string \<Rightarrow> string option"
  h_execute :: "string \<Rightarrow> 'v list \<Rightarrow> string option"

datatype Exn =
    SecretNameEmpty string
  | SecretNotFound string string
  | SecretNotKeyValue string string
  | SecretWrongType string string string string
  | OktaReserved
  | TenantRequired string
  | MissingField string string
  | UnknownMode string
  | ServerSecretUnset
  | UrlTooLong string
  | UrlBadCharacters string
  | UrlBadScheme string
  | UrlUserinfo string
  | UrlNotHttps string
  | TenantTooLong
  | TenantBadCharacters
  | TenantUserinfo
  | PlaintextListener string
  | EndpointFailed string string
  | NoTokenPersisted string string
  | AcquireUnconfigured string string string
  | DeviceDenied
  | DeviceExpired
  | DeviceError
  | DeviceNoToken
  | DeviceTimeout
  | HostError string

type_synonym 'a throws = "Exn + 'a"

section \<open>Settings\<close>

text \<open>A setting that is present and not null.\<close>

definition setting :: "'v Host \<Rightarrow> string \<Rightarrow> 'v option" where
  "setting H name = (case h_setting H name of None \<Rightarrow> None | Some v \<Rightarrow> if h_IsNull H v then None else Some v)"

definition ReadStringSetting :: "'v Host \<Rightarrow> string \<Rightarrow> string" where
  "ReadStringSetting H name = (case setting H name of None \<Rightarrow> [] | Some v \<Rightarrow> h_ToString H v)"

definition ReadIntSetting :: "'v Host \<Rightarrow> string \<Rightarrow> int \<Rightarrow> int" where
  "ReadIntSetting H name fallback = (case setting H name of None \<Rightarrow> fallback | Some v \<Rightarrow> h_Int32 H v)"

section \<open>Secrets (secret_accessor.cpp)\<close>

definition secret_get :: "'v Host \<Rightarrow> 'v KeyValueSecret option \<Rightarrow> string \<Rightarrow> string" where
  "secret_get H accessor field =
     (case accessor of
        None \<Rightarrow> []
      | Some kv \<Rightarrow> (case map_of (sec_map kv) field of Some v \<Rightarrow> h_ToString H v | None \<Rightarrow> []))"

definition secret_has :: "'v KeyValueSecret option \<Rightarrow> string \<Rightarrow> bool" where
  "secret_has accessor field =
     (case accessor of None \<Rightarrow> False | Some kv \<Rightarrow> map_of (sec_map kv) field \<noteq> None)"

definition OpenSecret :: "'v Host \<Rightarrow> string \<Rightarrow> string option \<Rightarrow> string \<Rightarrow> 'v KeyValueSecret option throws" where
  "OpenSecret H secret_name expected_type fn =
     (if secret_name = [] then Inl (SecretNameEmpty fn)
      else case h_secret H secret_name of
        None \<Rightarrow> Inl (SecretNotFound fn secret_name)
      | Some None \<Rightarrow> Inl (SecretNotKeyValue fn secret_name)
      | Some (Some kv) \<Rightarrow>
          (case expected_type of
             None \<Rightarrow> Inr (Some kv)
           | Some t \<Rightarrow>
               if sec_type kv \<noteq> t then Inl (SecretWrongType fn secret_name t (sec_type kv)) else Inr (Some kv)))"

definition TryOpenSecret :: "'v Host \<Rightarrow> string \<Rightarrow> string option \<Rightarrow> 'v KeyValueSecret option" where
  "TryOpenSecret H secret_name expected_type =
     (if secret_name = [] then None
      else case h_secret H secret_name of
        None \<Rightarrow> None
      | Some None \<Rightarrow> None
      | Some (Some kv) \<Rightarrow>
          (case expected_type of
             None \<Rightarrow> Some kv
           | Some t \<Rightarrow> if sec_type kv \<noteq> t then None else Some kv))"

text \<open>The new content of a secret after a token was obtained; an empty refresh token keeps the old one.\<close>

definition PersistTokenFields ::
    "'v Host \<Rightarrow> 'v KeyValueSecret \<Rightarrow> string \<Rightarrow> string \<Rightarrow> string \<Rightarrow> 'v KeyValueSecret" where
  "PersistTokenFields H kv access_token expires_at refresh_token =
     (let m1 = AList.update ''access_token'' (h_varchar H access_token) (sec_map kv);
          m2 = AList.update ''expires_at'' (h_varchar H expires_at) m1;
          m3 = if refresh_token \<noteq> [] then AList.update ''refresh_token'' (h_varchar H refresh_token) m2 else m2
      in kv\<lparr>sec_map := m3\<rparr>)"

section \<open>Lemmas\<close>

text \<open>The soft lookup is the throwing one with its errors dropped.\<close>

lemma TryOpenSecret_OpenSecret:
  "TryOpenSecret H n t = (case OpenSecret H n t fn of Inl e \<Rightarrow> None | Inr kv \<Rightarrow> kv)"
  by (simp add: TryOpenSecret_def OpenSecret_def split: option.split)

lemma OpenSecret_Inr:
  "OpenSecret H n t fn = Inr a \<Longrightarrow> \<exists>kv. a = Some kv \<and> h_secret H n = Some (Some kv)"
  by (auto simp: OpenSecret_def split: if_splits option.splits)

lemma secret_get_None [simp]: "secret_get H None f = []"
  by (simp add: secret_get_def)

lemma secret_get_Some: "secret_get H (Some kv) f = (case map_of (sec_map kv) f of Some v \<Rightarrow> h_ToString H v | None \<Rightarrow> [])"
  by (simp add: secret_get_def)

lemma secret_get_Persist:
  assumes "\<And>s. h_ToString H (h_varchar H s) = s"
  shows "secret_get H (Some (PersistTokenFields H kv a e r)) ''access_token'' = a"
    and "secret_get H (Some (PersistTokenFields H kv a e r)) ''expires_at'' = e"
    and "secret_get H (Some (PersistTokenFields H kv a e r)) ''refresh_token'' =
         (if r = [] then secret_get H (Some kv) ''refresh_token'' else r)"
    and "f \<notin> {''access_token'', ''expires_at'', ''refresh_token''} \<Longrightarrow>
         secret_get H (Some (PersistTokenFields H kv a e r)) f = secret_get H (Some kv) f"
  by (auto simp: secret_get_def PersistTokenFields_def Let_def assms)

section \<open>A small host for concrete inputs\<close>

datatype dbval = NullV | StrV string | IntV int | BoolV bool | ListV "dbval list"

definition plain_host ::
    "(string \<times> dbval) list \<Rightarrow> (string \<times> dbval KeyValueSecret) list \<Rightarrow> (string \<times> dbval list list) list \<Rightarrow> dbval Host" where
  "plain_host settings secrets tables =
     \<lparr>h_IsNull = (\<lambda>v. v = NullV),
      h_ToString = (\<lambda>v. case v of StrV s \<Rightarrow> s | IntV i \<Rightarrow> int_to_string i | _ \<Rightarrow> []),
      h_String = (\<lambda>v. case v of StrV s \<Rightarrow> s | _ \<Rightarrow> []),
      h_Bool = (\<lambda>v. case v of BoolV b \<Rightarrow> b | _ \<Rightarrow> False),
      h_Int32 = (\<lambda>v. case v of IntV i \<Rightarrow> i | _ \<Rightarrow> 0),
      h_Children = (\<lambda>v. case v of ListV vs \<Rightarrow> vs | _ \<Rightarrow> []),
      h_varchar = StrV, h_null = NullV, h_bigint = IntV,
      h_setting = map_of settings,
      h_secret = (\<lambda>n. map_option Some (map_of secrets n)),
      h_query = map_of tables,
      h_prepare = (\<lambda>sql. None), h_execute = (\<lambda>sql vs. None)\<rparr>"

end
