(* ===== verification/Audit_Trail.thy ===== *)
theory Audit_Trail
  imports Host
begin

text \<open>
  The audit trail (audit.hpp, audit.cpp, audit_sink.cpp, tracing_redact.cpp): the bounded ring of recent
  events, the one-line form of an event, the redaction of tokens, and the fan-out of an event to the
  ring, the log and an operator's table.

  The contract of the ring is the locale \<open>bounded_log\<close>: what is read back are the newest events that
  fit, in the order they were pushed. A log line is read back with the reader \<open>log_line\<close>.
\<close>

section \<open>Events and the ring (audit.cpp)\<close>

datatype AuditEventType = TokenAccepted | TokenRejected | AuthzAllow | AuthzDeny | JwksRefresh

definition AuditEventTypeName :: "AuditEventType \<Rightarrow> string" where
  "AuditEventTypeName t =
     (case t of
        TokenAccepted \<Rightarrow> ''token_accepted''
      | TokenRejected \<Rightarrow> ''token_rejected''
      | AuthzAllow \<Rightarrow> ''authz_allow''
      | AuthzDeny \<Rightarrow> ''authz_deny''
      | JwksRefresh \<Rightarrow> ''jwks_refresh'')"

record AuditEvent =
  ae_timestamp_unix_s :: int
  ae_event_type :: AuditEventType
  ae_subject :: string
  ae_issuer :: string
  ae_kid :: string
  ae_token_hash :: string
  ae_action :: string
  ae_reason :: string

definition new_AuditEvent :: AuditEvent where
  "new_AuditEvent = \<lparr>ae_timestamp_unix_s = 0, ae_event_type = TokenRejected, ae_subject = [], ae_issuer = [],
     ae_kid = [], ae_token_hash = [], ae_action = [], ae_reason = []\<rparr>"

record AuditRing =
  ar_ring :: "AuditEvent list"
  ar_head :: nat
  ar_count :: nat

definition new_AuditRing :: "nat \<Rightarrow> AuditRing" where
  "new_AuditRing capacity =
     \<lparr>ar_ring = replicate (if 0 < capacity then capacity else 1) new_AuditEvent, ar_head = 0, ar_count = 0\<rparr>"

definition Push :: "AuditRing \<Rightarrow> AuditEvent \<Rightarrow> AuditRing" where
  "Push r event =
     r\<lparr>ar_ring := (ar_ring r)[ar_head r := event],
       ar_head := (ar_head r + 1) mod length (ar_ring r),
       ar_count := if ar_count r < length (ar_ring r) then ar_count r + 1 else ar_count r\<rparr>"

definition Snapshot :: "AuditRing \<Rightarrow> AuditEvent list" where
  "Snapshot r =
     (let cap = length (ar_ring r);
          start = (ar_head r + cap - ar_count r) mod cap
      in map (\<lambda>i. ar_ring r ! ((start + i) mod cap)) [0..<ar_count r])"

section \<open>Log lines (audit.cpp)\<close>

definition Field :: "string \<Rightarrow> string \<Rightarrow> string" where
  "Field key value = (if value = [] then [] else CHR '' '' # key @ CHR ''='' # MaybeQuote value)"

definition FormatAuditLine :: "AuditEvent \<Rightarrow> string" where
  "FormatAuditLine e =
     ''ts='' @ int_to_string (ae_timestamp_unix_s e) @ '' event='' @ AuditEventTypeName (ae_event_type e) @
     Field ''sub'' (ae_subject e) @
     Field ''iss'' (ae_issuer e) @
     Field ''kid'' (ae_kid e) @
     Field ''action'' (ae_action e) @
     Field ''reason'' (ae_reason e) @
     Field ''token'' (ae_token_hash e)"

section \<open>Redaction (tracing_redact.cpp)\<close>

definition kRedactedPrefixBytes :: nat where
  "kRedactedPrefixBytes = 4"

text \<open>\<open>sha\<close> is the digest of OpenSSL, \<open>None\<close> when one of its calls fails.\<close>

definition RedactSensitive :: "(string \<Rightarrow> bytes option) \<Rightarrow> string \<Rightarrow> string" where
  "RedactSensitive sha v =
     (if v = [] then []
      else case sha v of
        None \<Rightarrow> []
      | Some digest \<Rightarrow>
          if kRedactedPrefixBytes \<le> length digest then HexEncode (take kRedactedPrefixBytes digest) else [])"

definition EqualsAsciiCi :: "string \<Rightarrow> string \<Rightarrow> bool" where
  "EqualsAsciiCi a b \<longleftrightarrow> length a = length b \<and> list_all2 (\<lambda>x y. to_lower x = to_lower y) a b"

definition kSensitive :: "string list" where
  "kSensitive = [''token'', ''access_token'', ''refresh_token'', ''id_token'', ''client_secret'', ''password'', ''code'']"

definition IsSensitiveField :: "string \<Rightarrow> bool" where
  "IsSensitiveField field_name \<longleftrightarrow> (\<exists>candidate \<in> set kSensitive. EqualsAsciiCi field_name candidate)"

section \<open>The sinks (audit_sink.cpp)\<close>

datatype LogLevel = INFO | WARNING

text \<open>The ring is part of the shared state; the log and the statements run against the audit table
  are what leaves the process. The shared state of the theory \<open>Authorization\<close> extends this record.\<close>

record 'v AuditSinks =
  as_ring :: AuditRing
  as_log :: "(LogLevel \<times> string) list"
  as_rows :: "(string \<times> 'v list) list"

definition LookupAuditTable :: "'v Host \<Rightarrow> string" where
  "LookupAuditTable H =
     (case setting H ''quack_oauth_server_secret_name'' of
        None \<Rightarrow> []
      | Some v \<Rightarrow> secret_get H (TryOpenSecret H (h_ToString H v) (Some ''quack_oauth_server'')) ''audit_table'')"

definition audit_insert_sql :: "string \<Rightarrow> string" where
  "audit_insert_sql table =
     ''INSERT INTO '' @ QuoteQualifiedIdentifier table @
     '' (timestamp_unix_s, event_type, subject, issuer, kid, token_hash, '' @
     ''action, reason) VALUES (?, ?, ?, ?, ?, ?, ?, ?)''"

definition audit_row :: "'v Host \<Rightarrow> AuditEvent \<Rightarrow> 'v list" where
  "audit_row H e =
     (let opt = (\<lambda>s. if s = [] then h_null H else h_varchar H s)
      in [h_bigint H (ae_timestamp_unix_s e), h_varchar H (AuditEventTypeName (ae_event_type e)),
          opt (ae_subject e), opt (ae_issuer e), opt (ae_kid e), opt (ae_token_hash e), opt (ae_action e),
          opt (ae_reason e)])"

definition InsertAuditRow :: 
    "'v Host \<Rightarrow> string \<Rightarrow> AuditEvent \<Rightarrow> ('v, 'z) AuditSinks_scheme \<Rightarrow> ('v, 'z) AuditSinks_scheme" where
  "InsertAuditRow H table e s =
     (let sql = audit_insert_sql table
      in case h_prepare H sql of
           Some err \<Rightarrow> s\<lparr>as_log := as_log s @ [(WARNING, ''quack_oauth audit_table insert prepare failed: '' @ err)]\<rparr>
         | None \<Rightarrow>
             let row = audit_row H e; s' = s\<lparr>as_rows := as_rows s @ [(sql, row)]\<rparr>
             in case h_execute H sql row of
                  Some err \<Rightarrow> s'\<lparr>as_log := as_log s @ [(WARNING, ''quack_oauth audit_table insert failed: '' @ err)]\<rparr>
                | None \<Rightarrow> s')"

definition IsDenialEvent :: "AuditEventType \<Rightarrow> bool" where
  "IsDenialEvent t \<longleftrightarrow> t = TokenRejected \<or> t = AuthzDeny"

definition EmitAuditEvent :: 
    "'v Host \<Rightarrow> AuditEvent \<Rightarrow> ('v, 'z) AuditSinks_scheme \<Rightarrow> ('v, 'z) AuditSinks_scheme" where
  "EmitAuditEvent H e s =
     (let s1 = s\<lparr>as_ring := Push (as_ring s) e\<rparr>;
          line = FormatAuditLine e;
          s2 = s1\<lparr>as_log := as_log s1 @ [(if IsDenialEvent (ae_event_type e) then WARNING else INFO, line)]\<rparr>;
          audit_table = LookupAuditTable H
      in if audit_table \<noteq> [] then InsertAuditRow H audit_table e s2 else s2)"

section \<open>The ring keeps the newest events\<close>

text \<open>The contract of a log that holds at most \<open>cap\<close> events.\<close>

locale bounded_log =
  fixes inv :: "'r \<Rightarrow> bool" and push :: "'r \<Rightarrow> 'e \<Rightarrow> 'r" and snap :: "'r \<Rightarrow> 'e list" and cap :: "'r \<Rightarrow> nat"
  assumes inv_push: "inv r \<Longrightarrow> inv (push r e)"
    and cap_push: "inv r \<Longrightarrow> cap (push r e) = cap r"
    and snap_bound: "inv r \<Longrightarrow> length (snap r) \<le> cap r"
    and snap_push: "inv r \<Longrightarrow> snap (push r e) = drop (Suc (length (snap r)) - cap r) (snap r @ [e])"
begin

lemma pushes_inv: "inv r \<Longrightarrow> inv (foldl push r es)"
  by (induction es arbitrary: r) (simp_all add: inv_push)

lemma pushes_snap:
  assumes "inv r"
  shows "snap (foldl push r es) = drop (length (snap r) + length es - cap r) (snap r @ es)"
  using assms
proof (induction es arbitrary: r)
  case Nil
  then show ?case using snap_bound [of r] by simp
next
  case (Cons e es)
  let ?s = "snap r"
  from snap_bound [OF Cons.prems] have b: "length ?s \<le> cap r" .
  have "snap (foldl push r (e # es)) =
      drop (length (snap (push r e)) + length es - cap r) (snap (push r e) @ es)"
    using Cons by (simp add: inv_push cap_push)
  also have "\<dots> = drop (length ?s + Suc (length es) - cap r) (?s @ e # es)"
  proof -
    let ?k = "Suc (length ?s) - cap r"
    have "snap (push r e) @ es = drop ?k (?s @ e # es)" by (cases "cap r") (simp_all add: snap_push [OF Cons.prems])
    moreover have "length (snap (push r e)) = Suc (length ?s) - ?k" by (simp add: snap_push [OF Cons.prems])
    moreover have "Suc (length ?s) - ?k + length es - cap r + ?k = length ?s + Suc (length es) - cap r"
      using b by (cases "length ?s = cap r") auto
    ultimately show ?thesis by (simp del: drop_append)
  qed
  finally show ?case by simp
qed

lemma newest_kept:
  assumes "inv r" "snap r = []" "0 < cap r" "es \<noteq> []"
  shows "last (snap (foldl push r es)) = last es"
proof -
  have "length es - cap r < length es" using assms by (simp add: diff_less)
  then show ?thesis using pushes_snap [OF assms(1), of es] assms(2) by (simp add: last_drop)
qed

end

definition ring_inv :: "AuditRing \<Rightarrow> bool" where
  "ring_inv r \<longleftrightarrow> ar_head r < length (ar_ring r) \<and> ar_count r \<le> length (ar_ring r)"

text \<open>The ring read from its oldest slot: the list rotated so that the next write position comes first.\<close>

lemma Snapshot_rotate:
  assumes "ring_inv r"
  shows "Snapshot r = drop (length (ar_ring r) - ar_count r) (rotate (ar_head r) (ar_ring r))"
proof (rule nth_equalityI)
  let ?n = "length (ar_ring r)"
  from assms have n: "0 < ?n" and c: "ar_count r \<le> ?n" and h: "ar_head r < ?n" by (auto simp: ring_inv_def)
  show "length (Snapshot r) = length (drop (?n - ar_count r) (rotate (ar_head r) (ar_ring r)))"
    using c by (simp add: Snapshot_def Let_def)
  fix i assume "i < length (Snapshot r)"
  then have i: "i < ar_count r" by (simp add: Snapshot_def Let_def)
  have "((ar_head r + ?n - ar_count r) mod ?n + i) mod ?n = (ar_head r + (?n - ar_count r + i)) mod ?n"
    using c by (simp add: mod_simps algebra_simps)
  moreover have "?n - ar_count r + i < ?n" using i c by simp
  ultimately show "Snapshot r ! i = drop (?n - ar_count r) (rotate (ar_head r) (ar_ring r)) ! i"
    using i c by (simp add: Snapshot_def Let_def nth_rotate)
qed

text \<open>Overwriting the slot at the write position and moving on rotates it to the end.\<close>

lemma rotate_push:
  assumes "h < length xs"
  shows "rotate (Suc h mod length xs) (xs[h := e]) = tl (rotate h xs) @ [e]"
proof -
  have "rotate h (xs[h := e]) = e # tl (rotate h xs)"
    using assms by (simp add: rotate_drop_take drop_update_swap Cons_nth_drop_Suc [symmetric])
  then have "rotate (Suc h) (xs[h := e]) = tl (rotate h xs) @ [e]" by simp
  then show ?thesis by (metis length_list_update rotate_conv_mod)
qed

lemma Push_inv [qo_inv]: "ring_inv r \<Longrightarrow> ring_inv (Push r e)"
  by (auto simp: ring_inv_def Push_def intro: mod_less_divisor)

lemma length_Snapshot [simp]: "length (Snapshot r) = ar_count r"
  by (simp add: Snapshot_def Let_def)

lemma Snapshot_Push:
  assumes "ring_inv r"
  shows "Snapshot (Push r e) = drop (Suc (length (Snapshot r)) - length (ar_ring r)) (Snapshot r @ [e])"
proof -
  let ?n = "length (ar_ring r)" and ?rot = "rotate (ar_head r) (ar_ring r)"
  from assms have h: "ar_head r < ?n" and c: "ar_count r \<le> ?n" by (auto simp: ring_inv_def)
  have "Snapshot (Push r e) = drop (?n - ar_count (Push r e)) (tl ?rot @ [e])"
    using Snapshot_rotate [OF Push_inv [OF assms, of e]] h by (simp add: Push_def rotate_push)
  also have "\<dots> = drop (Suc (ar_count r) - ?n) (drop (?n - ar_count r) ?rot @ [e])"
    using c h drop_Suc [of "?n - Suc (ar_count r)" ?rot] by (cases "ar_count r = ?n") (auto simp: Push_def Suc_diff_le drop_append tl_drop Suc_diff_Suc drop_Suc)
  finally show ?thesis by (simp only: Snapshot_rotate [OF assms, symmetric] length_Snapshot)
qed

interpretation audit_ring: bounded_log ring_inv Push Snapshot "\<lambda>r. length (ar_ring r)"
proof unfold_locales
  show "ring_inv r \<Longrightarrow> ring_inv (Push r e)" for r e by (rule Push_inv)
  show "ring_inv r \<Longrightarrow> length (ar_ring (Push r e)) = length (ar_ring r)" for r e by (simp add: Push_def)
  show "ring_inv r \<Longrightarrow> length (Snapshot r) \<le> length (ar_ring r)" for r by (simp add: ring_inv_def)
  show "ring_inv r \<Longrightarrow>
      Snapshot (Push r e) = drop (Suc (length (Snapshot r)) - length (ar_ring r)) (Snapshot r @ [e])" for r e
    by (rule Snapshot_Push)
qed

lemma new_AuditRing_inv [qo_inv]: "ring_inv (new_AuditRing n)"
  by (simp add: ring_inv_def new_AuditRing_def)

section \<open>Reading a log line back\<close>

text \<open>A line of \<open>key=value\<close> pairs separated by single spaces; the number bounds the pairs read.\<close>

fun log_line :: "nat \<Rightarrow> string \<Rightarrow> (string \<times> string) list option" where
  "log_line 0 s = None"
| "log_line (Suc n) s =
     (case dropWhile (\<lambda>c. c \<noteq> CHR ''='') s of
        [] \<Rightarrow> None
      | _ # v \<Rightarrow>
          (case log_value v of
             None \<Rightarrow> None
           | Some (x, r) \<Rightarrow>
               let pair = (takeWhile (\<lambda>c. c \<noteq> CHR ''='') s, x)
               in (case r of
                     [] \<Rightarrow> Some [pair]
                   | c # r' \<Rightarrow> if c = CHR '' '' then map_option ((#) pair) (log_line n r') else None)))"

fun log_pairs :: "(string \<times> string) list \<Rightarrow> string" where
  "log_pairs [] = []"
| "log_pairs ((k, v) # ps) =
     k @ CHR ''='' # MaybeQuote v @ (if ps = [] then [] else CHR '' '' # log_pairs ps)"

lemma log_line_pairs:
  assumes "ps \<noteq> []" "\<forall>(k, v) \<in> set ps. CHR ''='' \<notin> set k" "length ps \<le> n"
  shows "log_line n (log_pairs ps) = Some ps"
  using assms
proof (induction ps arbitrary: n)
  case (Cons p ps)
  obtain k v where p: "p = (k, v)" by (cases p)
  obtain m where n: "n = Suc m" using Cons.prems by (cases n) auto
  let ?r = "if ps = [] then [] else CHR '' '' # log_pairs ps"
  have k: "takeWhile (\<lambda>c. c \<noteq> CHR ''='') (k @ CHR ''='' # z) = k"
      "dropWhile (\<lambda>c. c \<noteq> CHR ''='') (k @ CHR ''='' # z) = CHR ''='' # z" for z
  proof -
    have "\<forall>c \<in> set k. c \<noteq> CHR ''=''" using Cons.prems p by auto
    then show "takeWhile (\<lambda>c. c \<noteq> CHR ''='') (k @ CHR ''='' # z) = k"
      "dropWhile (\<lambda>c. c \<noteq> CHR ''='') (k @ CHR ''='' # z) = CHR ''='' # z"
      by (simp_all add: takeWhile_append2 dropWhile_append2)
  qed
  have v: "log_value (MaybeQuote v @ ?r) = Some (v, ?r)" by (rule log_value_MaybeQuote) simp
  show ?case
  proof (cases "ps = []")
    case True
    then show ?thesis using v by (simp add: p n k)
  next
    case False
    with Cons.IH [of m] Cons.prems n have "log_line m (log_pairs ps) = Some ps" by auto
    then show ?thesis using v False by (simp add: p n k)
  qed
qed simp

text \<open>The fields of an event as a line shows them: empty ones are left out.\<close>

definition audit_fields :: "AuditEvent \<Rightarrow> (string \<times> string) list" where
  "audit_fields e =
     [(''ts'', int_to_string (ae_timestamp_unix_s e)), (''event'', AuditEventTypeName (ae_event_type e))] @
     filter (\<lambda>(k, v). v \<noteq> [])
       [(''sub'', ae_subject e), (''iss'', ae_issuer e), (''kid'', ae_kid e), (''action'', ae_action e),
        (''reason'', ae_reason e), (''token'', ae_token_hash e)]"

lemma AuditEventTypeName_bare [simp]: "\<not> needs_quoting (AuditEventTypeName t)"
  by (cases t) (simp_all add: AuditEventTypeName_def needs_quoting_def uc_def)

lemma log_pairs_append:
  "ps \<noteq> [] \<Longrightarrow> log_pairs (ps @ qs) = log_pairs ps @ (if qs = [] then [] else CHR '' '' # log_pairs qs)"
  by (induction ps rule: log_pairs.induct) auto

lemma log_pairs_fields:
  "(if filter (\<lambda>(k, v). v \<noteq> []) ps = [] then [] else CHR '' '' # log_pairs (filter (\<lambda>(k, v). v \<noteq> []) ps)) =
   concat (map (\<lambda>(k, v). Field k v) ps)"
proof (induction ps)
  case (Cons p ps)
  then show ?case
    by (cases p; cases "filter (\<lambda>(k, v). v \<noteq> []) ps = []")
      (simp_all add: Field_def del: concat_eq_Nil_conv Nil_eq_concat_conv)
qed simp

lemma FormatAuditLine_pairs: "FormatAuditLine e = log_pairs (audit_fields e)"
proof -
  have bare: "\<not> needs_quoting v \<Longrightarrow> MaybeQuote v = v" for v by (simp add: MaybeQuote_def)
  show ?thesis
    unfolding audit_fields_def
    by (subst log_pairs_append, simp, subst log_pairs_fields) (simp add: FormatAuditLine_def bare)
qed

lemma control_free_audit_line: "c \<in> set (FormatAuditLine e) \<Longrightarrow> \<not> control_char c"
proof -
  have F: "\<forall>c \<in> set k. \<not> control_char c \<Longrightarrow> c \<in> set (Field k v) \<Longrightarrow> \<not> control_char c" for k v c
    by (auto simp: Field_def dest: MaybeQuote_printable split: if_splits) (auto simp: control_char_def uc_def)
  have "\<forall>k \<in> {''sub'', ''iss'', ''kid'', ''action'', ''reason'', ''token'', ''ts='', '' event=''}.
      \<forall>c \<in> set k. \<not> control_char c"
    by code_simp
  moreover have "\<not> needs_quoting v \<Longrightarrow> c \<in> set v \<Longrightarrow> \<not> control_char c" for v c
    by (auto simp: needs_quoting_def control_char_def)
  ultimately show "c \<in> set (FormatAuditLine e) \<Longrightarrow> \<not> control_char c"
    unfolding FormatAuditLine_def set_append by (elim UnE) (use F in \<open>(meson AuditEventTypeName_bare int_to_string_bare insertI1 insertI2)+\<close>)
qed

section \<open>Properties\<close>

text \<open>
  C36: The audit ring refines a plain list of events. After any sequence of pushes on a new ring,
  \<open>Snapshot\<close> answers exactly the newest events that fit, oldest first; a capacity of zero counts as one.
\<close>

theorem AuditRing_keeps_newest:
  "Snapshot (foldl Push (new_AuditRing n) es) = drop (length es - max n 1) es"
proof -
  have "Snapshot (new_AuditRing n) = []" "length (ar_ring (new_AuditRing n)) = max n 1"
    by (auto simp: Snapshot_def new_AuditRing_def Let_def)
  then show ?thesis using audit_ring.pushes_snap [OF new_AuditRing_inv, of n es] by simp
qed

text \<open>
  C37: An audit line is one line, and reads back as the fields of its event, whatever bytes a subject,
  an issuer, a kid or a reason contain: no value can end the line, add a pair or change another one.
\<close>

theorem FormatAuditLine_roundtrip:
  "log_line 8 (FormatAuditLine e) = Some (audit_fields e) \<and> filter control_char (FormatAuditLine e) = []"
proof -
  have "audit_fields e \<noteq> []" "\<forall>(k, v) \<in> set (audit_fields e). CHR ''='' \<notin> set k" "length (audit_fields e) \<le> 8"
    by (auto simp: audit_fields_def)
  then have "log_line 8 (FormatAuditLine e) = Some (audit_fields e)"
    unfolding FormatAuditLine_pairs by (rule log_line_pairs)
  then show ?thesis by (simp add: control_free_audit_line filter_empty_conv)
qed

end
