(* ===== verification/Decision_Cache.thy ===== *)
theory Decision_Cache
  imports Text_Codec
begin

text \<open>
  \<open>DecisionCache\<close> (decision_cache.hpp, decision_cache.cpp): the principals of validated opaque
  tokens, keyed by the hash of the token, with a time to live and least-recently-used eviction.

  The C++ class keeps a \<open>std::list\<close> of entries, most recent first, and an \<open>unordered_map\<close> from
  keys to list iterators. A list node is modelled by its address, a natural number that survives
  splicing and is never given out twice: \<open>entries\<close> pairs addresses with entries in list order and
  \<open>index\<close> maps a key to an address. The abstract cache at the end of the theory is the list of
  entries alone; the refinement lemmas show that the two structures stay consistent.
\<close>

section \<open>Model\<close>

record Principal =
  subject :: string
  issuer :: string
  scopes :: "string list"
  exp :: seconds

record Entry =
  key :: string
  principal :: Principal
  expires_at_s :: seconds

record DecisionCache =
  max_entries :: nat
  default_ttl_s :: seconds
  entries :: "(nat \<times> Entry) list"
  index :: "(string \<times> nat) list"
  next_node :: nat

definition new_DecisionCache :: "nat \<Rightarrow> seconds \<Rightarrow> DecisionCache" where
  "new_DecisionCache cap ttl =
     \<lparr>max_entries = (if cap = 0 then 1 else cap), default_ttl_s = ttl, entries = [], index = [], next_node = 0\<rparr>"

text \<open>
  \<open>KeyOf\<close>: hexadecimal SHA-256 of the token. The digest is OpenSSL's; \<open>None\<close> stands for a failing
  call of the EVP interface, for which the source returns the empty string.
\<close>

definition KeyOf :: "(string \<Rightarrow> bytes option) \<Rightarrow> string \<Rightarrow> string" where
  "KeyOf sha256 token =
     (case sha256 token of
        None \<Rightarrow> []
      | Some digest \<Rightarrow> if length digest = 32 then HexEncode digest else [])"

definition Lookup :: "DecisionCache \<Rightarrow> string \<Rightarrow> seconds \<Rightarrow> Principal option \<times> DecisionCache" where
  "Lookup c k now_s =
     (case map_of (index c) k of
        None \<Rightarrow> (None, c)
      | Some it \<Rightarrow>
          (case map_of (entries c) it of
             None \<Rightarrow> (None, c)
           | Some e \<Rightarrow>
               if expires_at_s e \<le> now_s
               then (None, c\<lparr>entries := AList.delete it (entries c), index := AList.delete k (index c)\<rparr>)
               else (Some (principal e), c\<lparr>entries := (it, e) # AList.delete it (entries c)\<rparr>)))"

definition effective_ttl :: "DecisionCache \<Rightarrow> Principal \<Rightarrow> seconds \<Rightarrow> seconds" where
  "effective_ttl c p now_s = (if exp p > 0 then min (default_ttl_s c) (exp p - now_s) else default_ttl_s c)"

function evict :: "DecisionCache \<Rightarrow> DecisionCache" where
  "evict c =
     (if max_entries c < length (entries c)
      then evict (c\<lparr>index := AList.delete (key (snd (last (entries c)))) (index c),
                    entries := butlast (entries c)\<rparr>)
      else c)"
  by pat_completeness auto
termination
  by (relation "measure (\<lambda>c. length (entries c))") auto

declare evict.simps [simp del]

definition Store :: "DecisionCache \<Rightarrow> string \<Rightarrow> Principal \<Rightarrow> seconds \<Rightarrow> DecisionCache" where
  "Store c k p now_s =
     (let ttl = effective_ttl c p now_s in
      if ttl \<le> 0 then c
      else case map_of (index c) k of
        Some it \<Rightarrow>
          (case map_of (entries c) it of
             None \<Rightarrow> c
           | Some e \<Rightarrow>
               c\<lparr>entries := (it, e\<lparr>principal := p, expires_at_s := now_s + ttl\<rparr>) # AList.delete it (entries c)\<rparr>)
      | None \<Rightarrow>
          let node = next_node c
          in evict (c\<lparr>entries := (node, \<lparr>key = k, principal = p, expires_at_s = now_s + ttl\<rparr>) # entries c,
                      index := AList.update k node (index c), next_node := Suc node\<rparr>))"

definition Size :: "DecisionCache \<Rightarrow> nat" where
  "Size c = length (entries c)"

section \<open>Specification: an LRU list\<close>

type_synonym lru = "Entry list"

definition without :: "string \<Rightarrow> lru \<Rightarrow> lru" where
  "without k xs = filter (\<lambda>e. key e \<noteq> k) xs"

definition lru_find :: "string \<Rightarrow> lru \<Rightarrow> Entry option" where
  "lru_find k xs = find (\<lambda>e. key e = k) xs"

definition lru_lookup :: "string \<Rightarrow> seconds \<Rightarrow> lru \<Rightarrow> Principal option \<times> lru" where
  "lru_lookup k now_s xs =
     (case lru_find k xs of
        None \<Rightarrow> (None, xs)
      | Some e \<Rightarrow> if expires_at_s e \<le> now_s then (None, without k xs) else (Some (principal e), e # without k xs))"

definition lru_store :: "nat \<Rightarrow> string \<Rightarrow> Principal \<Rightarrow> seconds \<Rightarrow> lru \<Rightarrow> lru" where
  "lru_store cap k p expiry xs = take cap (\<lparr>key = k, principal = p, expires_at_s = expiry\<rparr> # without k xs)"

definition abs_cache :: "DecisionCache \<Rightarrow> lru" where
  "abs_cache c = map snd (entries c)"

text \<open>
  \<open>linked\<close>: the list and the index agree, addresses are fresh, keys are unique. \<open>cache_ok\<close> adds
  the capacity.
\<close>

definition linked :: "DecisionCache \<Rightarrow> bool" where
  "linked c \<longleftrightarrow>
     distinct (map fst (entries c)) \<and> distinct (map key (abs_cache c)) \<and> distinct (map fst (index c)) \<and>
     set (index c) = (\<lambda>(it, e). (key e, it)) ` set (entries c) \<and>
     (\<forall>p \<in> set (entries c). fst p < next_node c)"

definition cache_ok :: "DecisionCache \<Rightarrow> bool" where
  "cache_ok c \<longleftrightarrow> linked c \<and> 1 \<le> max_entries c \<and> length (entries c) \<le> max_entries c"

text \<open>What a client can observe of the cache under a key: the principal and when it expires.\<close>

definition cache_view :: "DecisionCache \<Rightarrow> string \<Rightarrow> (Principal \<times> seconds) option" where
  "cache_view c k = map_option (\<lambda>e. (principal e, expires_at_s e)) (lru_find k (abs_cache c))"

text \<open>A history of calls on a cache, over any implementation of its two operations.\<close>

datatype cache_op = OpLookup string seconds | OpStore string Principal seconds

fun run_ops :: "('c \<Rightarrow> string \<Rightarrow> seconds \<Rightarrow> Principal option \<times> 'c) \<Rightarrow>
    ('c \<Rightarrow> string \<Rightarrow> Principal \<Rightarrow> seconds \<Rightarrow> 'c) \<Rightarrow> cache_op list \<Rightarrow> 'c \<Rightarrow> 'c" where
  "run_ops lookup store [] c = c"
| "run_ops lookup store (OpLookup k now # ops) c = run_ops lookup store ops (snd (lookup c k now))"
| "run_ops lookup store (OpStore k p now # ops) c = run_ops lookup store ops (store c k p now)"

section \<open>Consistency of the list and the index\<close>

lemma linkedD:
  assumes "linked c"
  shows "distinct (map fst (entries c))" "distinct (map key (abs_cache c))" "distinct (map fst (index c))"
    "set (index c) = (\<lambda>(it, e). (key e, it)) ` set (entries c)"
    "\<forall>p \<in> set (entries c). fst p < next_node c"
  using assms by (auto simp: linked_def)

lemma without_notin: "k \<notin> key ` set xs \<Longrightarrow> without k xs = xs"
  by (auto simp: without_def filter_id_conv)

lemma lru_find_None: "lru_find k xs = None \<longleftrightarrow> k \<notin> key ` set xs"
  by (auto simp: lru_find_def find_None_iff)

lemma lru_find_unique: "distinct (map key xs) \<Longrightarrow> e \<in> set xs \<Longrightarrow> lru_find (key e) xs = Some e"
  by (induction xs) (auto simp: lru_find_def)

lemma distinct_filter_key: "distinct (map key xs) \<Longrightarrow> distinct (map key (without k xs))"
  by (induction xs) (auto simp: without_def)

lemma index_None:
  assumes "linked c" "map_of (index c) k = None"
  shows "k \<notin> key ` set (abs_cache c)"
  using assms linkedD(4) [OF assms(1)] by (force simp: abs_cache_def map_of_eq_None_iff)

lemma index_Some:
  assumes ok: "linked c" and it: "map_of (index c) k = Some it"
  obtains e where "map_of (entries c) it = Some e" "key e = k" "(it, e) \<in> set (entries c)"
    "lru_find k (abs_cache c) = Some e"
    "map snd (AList.delete it (entries c)) = without k (abs_cache c)"
proof -
  from map_of_SomeD [OF it] linkedD(4) [OF ok] obtain e where e: "(it, e) \<in> set (entries c)" "key e = k" by auto
  have m: "map_of (entries c) it = Some e" using e(1) linkedD(1) [OF ok] by (simp add: map_of_eq_Some_iff)
  have "lru_find (key e) (abs_cache c) = Some e"
    using e(1) linkedD(2) [OF ok] by (intro lru_find_unique) (auto simp: abs_cache_def image_iff intro: rev_bexI)
  moreover have same: "i = it \<longleftrightarrow> key x = k" if x: "(i, x) \<in> set (entries c)" for i x
  proof
    assume "i = it"
    with x linkedD(1) [OF ok] m have "x = e" by (metis map_of_is_SomeI option.inject)
    then show "key x = k" using e(2) by simp
  next
    assume "key x = k"
    with x have "map_of (index c) k = Some i"
      using linkedD(3,4) [OF ok] by (force simp: map_of_eq_Some_iff)
    with it show "i = it" by simp
  qed
  have "map snd (AList.delete it (entries c)) = without k (abs_cache c)"
    unfolding abs_cache_def without_def AList.delete_eq filter_map o_def
    using same by (intro arg_cong [of _ _ "map snd"] filter_cong) (force split: prod.splits)+
  ultimately show ?thesis using that [OF m e(2,1)] e(2) by simp
qed

lemma entries_front:
  assumes ok: "linked c" and it: "map_of (index c) k = Some it" and e': "key e' = k"
  shows "linked (c\<lparr>entries := (it, e') # AList.delete it (entries c)\<rparr>)"
proof -
  obtain e where e: "map_of (entries c) it = Some e" "key e = k" "(it, e) \<in> set (entries c)"
      "map snd (AList.delete it (entries c)) = without k (abs_cache c)"
    using ok it by (rule index_Some)
  let ?es = "AList.delete it (entries c)"
  have d: "distinct (map fst ?es)" "it \<notin> fst ` set ?es"
    using linkedD(1) [OF ok] by (simp_all add: distinct_delete delete_notin_dom)
  have k: "distinct (map key (map snd ?es))" "k \<notin> key ` set (map snd ?es)"
    using distinct_filter_key [OF linkedD(2) [OF ok], of k] unfolding e(4) by (auto simp: without_def)
  have split: "set (entries c) = insert (it, e) (set ?es)"
    using linkedD(1) [OF ok] e(1) by (rule set_split_delete)
  have "set (index c) = (\<lambda>(it, e). (key e, it)) ` insert (it, e') (set ?es)"
    using linkedD(4) [OF ok] e(2) e' by (simp add: split)
  moreover have "\<forall>p \<in> set ((it, e') # ?es). fst p < next_node c"
    using linkedD(5) [OF ok] by (simp add: split)
  ultimately show ?thesis
    using d k linkedD(3) [OF ok] e' by (auto simp: linked_def abs_cache_def)
qed

lemma length_front:
  assumes "linked c" "map_of (index c) k = Some it"
  shows "length ((it, e') # AList.delete it (entries c)) = length (entries c)"
proof -
  obtain e where e: "(it, e) \<in> set (entries c)" using assms by (rule index_Some)
  then have "it \<in> fst ` set (entries c)" "0 < length (entries c)" by (force, auto)
  then show ?thesis using linkedD(1) [OF assms(1)] by (simp add: length_delete)
qed

lemma linked_delete:
  assumes ok: "linked c" and it: "map_of (index c) k = Some it"
  shows "linked (c\<lparr>entries := AList.delete it (entries c), index := AList.delete k (index c)\<rparr>)"
proof -
  obtain e where e: "map_of (entries c) it = Some e" "key e = k"
      "map snd (AList.delete it (entries c)) = without k (abs_cache c)"
    using ok it by (rule index_Some)
  let ?es = "AList.delete it (entries c)"
  have split: "set (entries c) = insert (it, e) (set ?es)"
    using linkedD(1) [OF ok] e(1) by (rule set_split_delete)
  have "key x \<noteq> k" if "(i, x) \<in> set ?es" for i x
  proof -
    from that have "x \<in> set (map snd ?es)" by force
    then show ?thesis unfolding e(3) by (simp add: without_def)
  qed
  then have "(\<lambda>(it, e). (key e, it)) ` set ?es = {p \<in> set (index c). fst p \<noteq> k}"
    using e(2) by (simp only: linkedD(4) [OF ok] split) auto
  moreover have "{p \<in> set (index c). fst p \<noteq> k} = set (AList.delete k (index c))"
    by (auto simp: AList.delete_eq)
  moreover have "distinct (map key (map snd ?es))"
    unfolding e(3) by (rule distinct_filter_key [OF linkedD(2) [OF ok]])
  ultimately show ?thesis
    using linkedD(1,3,5) [OF ok] by (simp add: linked_def abs_cache_def distinct_delete split)
qed

lemma linked_push:
  assumes ok: "linked c" and none: "map_of (index c) (key e) = None"
  shows "linked (c\<lparr>entries := (next_node c, e) # entries c, index := AList.update (key e) (next_node c) (index c),
    next_node := Suc (next_node c)\<rparr>)"
proof -
  have "key e \<notin> key ` set (abs_cache c)" using ok none by (rule index_None)
  moreover have "next_node c \<notin> fst ` set (entries c)" using linkedD(5) [OF ok] by auto
  moreover have "set (AList.update k v al) = insert (k, v) (set al)" if "k \<notin> fst ` set al"
    for k :: string and v :: nat and al using that by (induction al) auto
  then have "set (AList.update (key e) (next_node c) (index c)) = insert (key e, next_node c) (set (index c))"
    using none by (simp add: map_of_eq_None_iff)
  ultimately show ?thesis
    using linkedD [OF ok] by (auto simp: linked_def abs_cache_def distinct_update)
qed

lemma linked_pop:
  assumes ok: "linked c" and ne: "entries c \<noteq> []"
  shows "linked (c\<lparr>index := AList.delete (key (snd (last (entries c)))) (index c), entries := butlast (entries c)\<rparr>)"
proof -
  obtain es it e where es: "entries c = es @ [(it, e)]" using ne by (metis append_butlast_last_id surj_pair)
  have "map_of (index c) (key e) = Some it"
    using linkedD(3,4) [OF ok] by (simp add: es map_of_eq_Some_iff)
  moreover have "AList.delete it (entries c) = es"
    using linkedD(1) [OF ok] by (force simp: es AList.delete_eq filter_id_conv)
  ultimately show ?thesis using linked_delete [OF ok, of "key e" it] by (simp add: es linked_def abs_cache_def)
qed

lemma evict_spec:
  "linked c \<Longrightarrow> 1 \<le> max_entries c \<Longrightarrow>
     cache_ok (evict c) \<and> abs_cache (evict c) = take (max_entries c) (abs_cache c) \<and>
     max_entries (evict c) = max_entries c \<and> default_ttl_s (evict c) = default_ttl_s c"
proof (induction c rule: evict.induct)
  case (1 c)
  let ?c' = "c\<lparr>index := AList.delete (key (snd (last (entries c)))) (index c), entries := butlast (entries c)\<rparr>"
  show ?case
  proof (cases "max_entries c < length (entries c)")
    case True
    then have "entries c \<noteq> []" by auto
    then have "linked ?c'" using linked_pop [OF 1(2)] by simp
    with 1 True have "cache_ok (evict ?c') \<and> abs_cache (evict ?c') = take (max_entries c) (abs_cache ?c') \<and>
        max_entries (evict ?c') = max_entries c \<and> default_ttl_s (evict ?c') = default_ttl_s c" by simp
    moreover have "take (max_entries c) (abs_cache ?c') = take (max_entries c) (abs_cache c)"
      using True by (simp add: abs_cache_def take_map butlast_conv_take min_def)
    ultimately show ?thesis using True by (simp add: evict.simps [of c])
  next
    case False
    with 1 show ?thesis by (simp add: evict.simps [of c] cache_ok_def abs_cache_def)
  qed
qed

section \<open>Refinement\<close>

lemma Lookup_refines:
  assumes ok: "cache_ok c"
  shows "cache_ok (snd (Lookup c k now_s)) \<and>
    (fst (Lookup c k now_s), abs_cache (snd (Lookup c k now_s))) = lru_lookup k now_s (abs_cache c)"
proof (cases "map_of (index c) k")
  case None
  with ok have "lru_find k (abs_cache c) = None"
    by (auto simp: lru_find_None cache_ok_def dest: index_None)
  with None ok show ?thesis by (simp add: Lookup_def lru_lookup_def)
next
  case (Some it)
  from ok have l: "linked c" by (simp add: cache_ok_def)
  then obtain e where e: "map_of (entries c) it = Some e" "key e = k" "lru_find k (abs_cache c) = Some e"
      "map snd (AList.delete it (entries c)) = without k (abs_cache c)"
    using Some by (rule index_Some)
  have "length (AList.delete it (entries c)) \<le> length (entries c)" by (rule length_delete_le)
  then show ?thesis
    using ok Some e linked_delete [OF l Some] entries_front [OF l Some e(2)] length_front [OF l Some, of e]
    by (auto simp: Lookup_def lru_lookup_def cache_ok_def abs_cache_def)
qed

lemma Store_refines:
  assumes ok: "cache_ok c"
  shows "cache_ok (Store c k p now_s) \<and> default_ttl_s (Store c k p now_s) = default_ttl_s c \<and>
    max_entries (Store c k p now_s) = max_entries c \<and>
    abs_cache (Store c k p now_s) =
      (if effective_ttl c p now_s \<le> 0 then abs_cache c
       else lru_store (max_entries c) k p (now_s + effective_ttl c p now_s) (abs_cache c))"
proof (cases "effective_ttl c p now_s \<le> 0")
  case True
  with ok show ?thesis by (simp add: Store_def)
next
  case ttl: False
  from ok have l: "linked c" and cap: "1 \<le> max_entries c" "length (entries c) \<le> max_entries c"
    by (simp_all add: cache_ok_def)
  show ?thesis
  proof (cases "map_of (index c) k")
    case None
    let ?e = "\<lparr>key = k, principal = p, expires_at_s = now_s + effective_ttl c p now_s\<rparr>"
    let ?c = "c\<lparr>entries := (next_node c, ?e) # entries c, index := AList.update k (next_node c) (index c),
      next_node := Suc (next_node c)\<rparr>"
    have "linked ?c" using linked_push [OF l, of ?e] None by simp
    moreover have "Store c k p now_s = evict ?c" using ttl None by (simp add: Store_def Let_def)
    moreover have "without k (abs_cache c) = abs_cache c" using index_None [OF l None] by (rule without_notin)
    ultimately show ?thesis
      using evict_spec [of ?c] ttl cap by (simp add: lru_store_def abs_cache_def)
  next
    case (Some it)
    with l obtain e where e: "map_of (entries c) it = Some e" "key e = k"
      "map snd (AList.delete it (entries c)) = without k (abs_cache c)" by (rule index_Some)
    let ?e = "e\<lparr>principal := p, expires_at_s := now_s + effective_ttl c p now_s\<rparr>"
    have eq: "?e = \<lparr>key = k, principal = p, expires_at_s = now_s + effective_ttl c p now_s\<rparr>"
      using e(2) by (cases e) simp
    have len: "length ((it, ?e) # AList.delete it (entries c)) = length (entries c)"
      by (rule length_front [OF l Some])
    have "Suc (length (without k (abs_cache c))) \<le> max_entries c"
      using len cap by (simp flip: e(3))
    then show ?thesis
      using ttl Some e cap len entries_front [OF l Some, of ?e] ok
      by (simp add: Store_def Let_def cache_ok_def lru_store_def abs_cache_def eq)
  qed
qed

section \<open>The interface its clients rely on\<close>

text \<open>
  The token validators use the cache through \<open>Lookup\<close> and \<open>Store\<close> only. The laws below are what they
  rely on; \<open>view\<close> is the content under a key and \<open>ttl\<close> the lifetime a store gives.
\<close>

locale decision_store =
  fixes lookup :: "'c \<Rightarrow> string \<Rightarrow> seconds \<Rightarrow> Principal option \<times> 'c"
    and store :: "'c \<Rightarrow> string \<Rightarrow> Principal \<Rightarrow> seconds \<Rightarrow> 'c"
    and view :: "'c \<Rightarrow> string \<Rightarrow> (Principal \<times> seconds) option"
    and ttl :: "'c \<Rightarrow> Principal \<Rightarrow> seconds \<Rightarrow> seconds"
    and ok :: "'c \<Rightarrow> bool"
  assumes ok_lookup: "ok c \<Longrightarrow> ok (snd (lookup c k now))"
    and ok_store: "ok c \<Longrightarrow> ok (store c k p now)"
    and lookup_result: "ok c \<Longrightarrow> fst (lookup c k now) = Some p \<longleftrightarrow> (\<exists>e. view c k = Some (p, e) \<and> now < e)"
    and lookup_view: "ok c \<Longrightarrow> view (snd (lookup c k now)) k' = Some x \<Longrightarrow> view c k' = Some x"
    and lookup_keeps: "ok c \<Longrightarrow> view c k' = Some (q, e) \<Longrightarrow> k' \<noteq> k \<or> now < e \<Longrightarrow>
      view (snd (lookup c k now)) k' = Some (q, e)"
    and store_same: "ok c \<Longrightarrow> 0 < ttl c p now \<Longrightarrow> view (store c k p now) k = Some (p, now + ttl c p now)"
    and store_skip: "ok c \<Longrightarrow> ttl c p now \<le> 0 \<Longrightarrow> store c k p now = c"
    and store_other: "ok c \<Longrightarrow> k' \<noteq> k \<Longrightarrow> view (store c k p now) k' = Some x \<Longrightarrow> view c k' = Some x"
    and ttl_store: "ok c \<Longrightarrow> ttl (store c k p now) = ttl c"
    and ttl_lookup: "ok c \<Longrightarrow> ttl (snd (lookup c k now)) = ttl c"
    and ttl_exp: "0 < exp p \<Longrightarrow> ttl c p now \<le> exp p - now"
begin

lemma hit_after_store:
  assumes "ok c" "0 < ttl c p now" "now' < now + ttl c p now"
  shows "fst (lookup (store c k p now) k now') = Some p"
  using assms by (auto simp: lookup_result ok_store store_same)

lemma run_ops_ok: "ok c \<Longrightarrow> ok (run_ops lookup store ops c) \<and> ttl (run_ops lookup store ops c) = ttl c"
proof (induction ops arbitrary: c)
  case (Cons op ops)
  then show ?case by (cases op) (simp_all add: ok_lookup ok_store ttl_store ttl_lookup)
qed simp

lemma view_provenance:
  "ok c \<Longrightarrow> view (run_ops lookup store ops c) k = Some (p, e) \<Longrightarrow>
     view c k = Some (p, e) \<or> (\<exists>t. OpStore k p t \<in> set ops \<and> e = t + ttl c p t)"
proof (induction ops arbitrary: c)
  case (Cons op ops)
  show ?case
  proof (cases op)
    case (OpLookup k' now)
    with Cons.prems Cons.IH [of "snd (lookup c k' now)"] show ?thesis
      by (auto simp: ok_lookup ttl_lookup dest: lookup_view)
  next
    case (OpStore k' q now)
    with Cons.prems Cons.IH [of "store c k' q now"]
    consider (kept) "view (store c k' q now) k = Some (p, e)"
      | (later) t where "OpStore k p t \<in> set ops" "e = t + ttl c p t"
      by (auto simp: ok_store ttl_store)
    then show ?thesis
    proof cases
      case later
      then show ?thesis by auto
    next
      case kept
      have "view c k = Some (p, e) \<or> k = k' \<and> p = q \<and> e = now + ttl c p now"
      proof (cases "k = k'")
        case True
        with kept Cons.prems(1) show ?thesis
          by (cases "ttl c q now \<le> 0") (auto simp: store_same store_skip)
      next
        case False
        with kept Cons.prems(1) show ?thesis using store_other [of c k k' q now] by simp
      qed
      with OpStore show ?thesis by auto
    qed
  qed
qed simp

lemma hit_provenance:
  assumes "ok c" "\<And>k. view c k = None" "fst (lookup (run_ops lookup store ops c) k now) = Some p"
  shows "\<exists>t. OpStore k p t \<in> set ops \<and> now < t + ttl c p t \<and> (0 < exp p \<longrightarrow> now < exp p)"
proof -
  from assms obtain e where "view (run_ops lookup store ops c) k = Some (p, e)" "now < e"
    using run_ops_ok [OF assms(1), of ops] by (auto simp: lookup_result)
  with view_provenance [OF assms(1)] assms(2) obtain t where "OpStore k p t \<in> set ops" "now < t + ttl c p t"
    by force
  with ttl_exp [of p c t] show ?thesis by force
qed

end

subsection \<open>\<open>DecisionCache\<close> provides the interface\<close>

lemma lru_find_Cons: "lru_find k (e # xs) = (if key e = k then Some e else lru_find k xs)"
  by (simp add: lru_find_def)

lemma lru_find_without: "lru_find k' (without k xs) = (if k' = k then None else lru_find k' xs)"
  by (induction xs) (auto simp: lru_find_def without_def)

lemma lru_find_take: "lru_find k (take n xs) = Some e \<Longrightarrow> lru_find k xs = Some e"
  by (induction xs arbitrary: n) (auto simp: lru_find_def take_Cons split: nat.splits if_splits)

lemma lru_find_key: "lru_find k xs = Some e \<Longrightarrow> key e = k"
  by (auto simp: lru_find_def find_Some_iff)

lemma Lookup_fst: "cache_ok c \<Longrightarrow> fst (Lookup c k now) = fst (lru_lookup k now (abs_cache c))"
  using Lookup_refines [of c k now] by (metis fst_conv)

lemma Lookup_abs: "cache_ok c \<Longrightarrow> abs_cache (snd (Lookup c k now)) = snd (lru_lookup k now (abs_cache c))"
  using Lookup_refines [of c k now] by (metis snd_conv)

lemma Lookup_ttl: "effective_ttl (snd (Lookup c k now)) = effective_ttl c"
  by (simp add: Lookup_def effective_ttl_def fun_eq_iff split: option.split)

interpretation dcache: decision_store Lookup Store cache_view effective_ttl cache_ok
proof
  fix c k k' now p q e x
  assume ok: "cache_ok c"
  show "cache_ok (snd (Lookup c k now))" "cache_ok (Store c k p now)"
    using Lookup_refines [OF ok] Store_refines [OF ok] by blast+
  show "fst (Lookup c k now) = Some p \<longleftrightarrow> (\<exists>e. cache_view c k = Some (p, e) \<and> now < e)"
    by (auto simp: Lookup_fst [OF ok] lru_lookup_def cache_view_def split: option.splits)
  show "cache_view c k' = Some x" if "cache_view (snd (Lookup c k now)) k' = Some x"
    using that by (auto simp: cache_view_def Lookup_abs [OF ok] lru_lookup_def lru_find_Cons lru_find_without
      split: option.splits if_splits dest: lru_find_key)
  show "cache_view (snd (Lookup c k now)) k' = Some (q, e)" if "cache_view c k' = Some (q, e)" "k' \<noteq> k \<or> now < e"
    using that by (auto simp: cache_view_def Lookup_abs [OF ok] lru_lookup_def lru_find_Cons lru_find_without
      split: option.splits if_splits dest: lru_find_key)
  show "cache_view (Store c k p now) k = Some (p, now + effective_ttl c p now)" if "0 < effective_ttl c p now"
    using that Store_refines [OF ok, of k p now] ok
    by (simp add: cache_view_def lru_store_def cache_ok_def take_Cons' lru_find_Cons)
  show "Store c k p now = c" if "effective_ttl c p now \<le> 0"
    using that by (simp add: Store_def)
  show "cache_view c k' = Some x" if "k' \<noteq> k" "cache_view (Store c k p now) k' = Some x"
    using that Store_refines [OF ok, of k p now]
    by (auto simp: cache_view_def lru_store_def lru_find_Cons lru_find_without split: if_splits dest!: lru_find_take)
  show "effective_ttl (Store c k p now) = effective_ttl c"
    using Store_refines [OF ok, of k p now] by (simp add: effective_ttl_def fun_eq_iff)
  show "effective_ttl (snd (Lookup c k now)) = effective_ttl c" by (rule Lookup_ttl)
next
  fix c and p :: Principal and now
  assume "0 < exp p"
  then show "effective_ttl c p now \<le> exp p - now" by (simp add: effective_ttl_def)
qed

lemma new_DecisionCache_ok: "cache_ok (new_DecisionCache cap ttl)" "cache_view (new_DecisionCache cap ttl) k = None"
  by (simp_all add: new_DecisionCache_def cache_ok_def linked_def abs_cache_def cache_view_def lru_find_def)

section \<open>Properties\<close>

text \<open>
  C26: the optimised cache (a list of nodes and an index of node addresses) behaves as a plain
  list of entries in order of use: from any consistent state, \<open>Lookup\<close> and \<open>Store\<close> keep the two structures
  consistent and the size within the capacity, return what the plain list returns, and leave the list
  it leaves.
\<close>

theorem DecisionCache_refines_lru:
  assumes "cache_ok c"
  shows "cache_ok (snd (Lookup c k now_s)) \<and>
    (fst (Lookup c k now_s), abs_cache (snd (Lookup c k now_s))) = lru_lookup k now_s (abs_cache c) \<and>
    cache_ok (Store c k p now_s) \<and> Size (Store c k p now_s) \<le> max_entries c \<and>
    abs_cache (Store c k p now_s) =
      (if effective_ttl c p now_s \<le> 0 then abs_cache c
       else lru_store (max_entries c) k p (now_s + effective_ttl c p now_s) (abs_cache c))"
  using Lookup_refines [OF assms, of k now_s] Store_refines [OF assms, of k p now_s]
  by (auto simp: Size_def cache_ok_def)

definition sample_principal :: Principal where
  "sample_principal = \<lparr>subject = ''alice'', issuer = [], scopes = [''read''], exp = 0\<rparr>"

lemma DecisionCache_refines_lru_witness:
  "abs_cache (Store (Store (new_DecisionCache 1 30) ''a'' sample_principal 0) ''b'' sample_principal 5) =
     [\<lparr>key = ''b'', principal = sample_principal, expires_at_s = 35\<rparr>]"
proof -
  let ?c = "Store (new_DecisionCache 1 30) ''a'' sample_principal 0"
  have "abs_cache (Store ?c ''b'' sample_principal 5) =
      (if effective_ttl ?c sample_principal 5 \<le> 0 then abs_cache ?c
       else lru_store (max_entries ?c) ''b'' sample_principal (5 + effective_ttl ?c sample_principal 5) (abs_cache ?c))"
    using DecisionCache_refines_lru [OF dcache.ok_store [OF new_DecisionCache_ok(1)]] by blast
  also have "\<dots> = [\<lparr>key = ''b'', principal = sample_principal, expires_at_s = 35\<rparr>]" by code_simp
  finally show ?thesis .
qed

text \<open>
  C27: a cached decision is recent and not past the token's expiry. Over any history of calls
  on a fresh cache, a lookup that returns \<open>p\<close> at \<open>now_s\<close> means that \<open>p\<close> was stored under that very key at
  some \<open>t\<close> less than the configured lifetime ago, and that the principal, if it carries an expiry, has
  not reached it. A revoked token is therefore served from the cache for at most the lifetime.
\<close>

theorem cached_decision_recent:
  assumes "fst (Lookup (run_ops Lookup Store ops (new_DecisionCache cap ttl)) k now_s) = Some p"
  shows "\<exists>t. OpStore k p t \<in> set ops \<and> now_s < t + ttl \<and> (0 < exp p \<longrightarrow> now_s < exp p)"
proof -
  have "effective_ttl (new_DecisionCache cap ttl) p t \<le> ttl" for t
    by (simp add: effective_ttl_def new_DecisionCache_def)
  moreover obtain t where "OpStore k p t \<in> set ops" "now_s < t + effective_ttl (new_DecisionCache cap ttl) p t"
      "0 < exp p \<longrightarrow> now_s < exp p"
    using dcache.hit_provenance [OF new_DecisionCache_ok assms] by blast
  ultimately show ?thesis by (metis add_le_cancel_left order_less_le_trans)
qed

lemma cached_decision_recent_witness:
  "let ops = [OpStore ''a'' sample_principal 100, OpLookup ''b'' 101]
   in fst (Lookup (run_ops Lookup Store ops (new_DecisionCache 10 30)) ''a'' 120) = Some sample_principal \<and>
     (\<exists>t. OpStore ''a'' sample_principal t \<in> set ops \<and> 120 < t + 30)"
proof -
  let ?ops = "[OpStore ''a'' sample_principal 100, OpLookup ''b'' 101]"
  have h: "fst (Lookup (run_ops Lookup Store ?ops (new_DecisionCache 10 30)) ''a'' 120) = Some sample_principal" by code_simp
  from cached_decision_recent [OF h] h show ?thesis unfolding Let_def by blast
qed

text \<open>
  cache keys tell tokens apart exactly as far as their SHA-256 digests do: two tokens that
  both have a 32-byte digest share a key if and only if the digests are equal. When hashing fails the
  key is the empty string, whatever the token.
\<close>

lemma KeyOf_injective_on_digests:
  assumes "sha256 t1 = Some d1" "sha256 t2 = Some d2" "length d1 = 32" "length d2 = 32"
  shows "(KeyOf sha256 t1 = KeyOf sha256 t2 \<longleftrightarrow> d1 = d2) \<and> (sha256 t3 = None \<longrightarrow> KeyOf sha256 t3 = [])"
proof -
  have "HexEncode d1 = HexEncode d2 \<longleftrightarrow> d1 = d2"
    by (metis hex_decode_HexEncode option.inject)
  with assms show ?thesis by (simp add: KeyOf_def)
qed

definition sample_sha :: "string \<Rightarrow> bytes option" where
  "sample_sha t = Some (replicate 31 0 @ [of_nat (length t)])"

lemma KeyOf_injective_on_digests_witness: "KeyOf sample_sha ''a'' \<noteq> KeyOf sample_sha ''ab''"
proof -
  have "sample_sha ''a'' = Some (replicate 31 0 @ [1])" "sample_sha ''ab'' = Some (replicate 31 0 @ [2])"
    by (simp_all add: sample_sha_def)
  moreover have "length (replicate 31 0 @ [1 :: 8 word]) = 32" "length (replicate 31 0 @ [2 :: 8 word]) = 32"
    by simp_all
  moreover have "replicate 31 0 @ [1 :: 8 word] \<noteq> replicate 31 0 @ [2]" by (simp only: same_append_eq) simp
  ultimately show ?thesis using KeyOf_injective_on_digests by blast
qed

text \<open>
  When hashing fails, decisions are shared between tokens. If the digests of two tokens
  cannot be computed, a principal stored for the first is what a lookup for the second returns.
\<close>

lemma hash_failure_shares_decisions:
  assumes "cache_ok c" "sha256 t1 = None" "sha256 t2 = None" "0 < effective_ttl c p now_s"
  shows "fst (Lookup (Store c (KeyOf sha256 t1) p now_s) (KeyOf sha256 t2) now_s) = Some p"
  using dcache.hit_after_store [OF assms(1,4), of now_s "[]"] assms by (simp add: KeyOf_def)

lemma hash_failure_shares_decisions_witness:
  "fst (Lookup (Store (new_DecisionCache 10 30) (KeyOf (\<lambda>_. None) ''good'') sample_principal 100)
     (KeyOf (\<lambda>_. None) ''forged'') 100) = Some sample_principal"
  by (rule hash_failure_shares_decisions [OF new_DecisionCache_ok(1)]) code_simp+

end
