(* ===== verification/Policy.thy ===== *)
theory Policy
  imports Decision_Cache
begin

text \<open>
  Authorization (authz.hpp, authz.cpp, policy.hpp, policy.cpp, principal_expiry.cpp): the actions, the
  default scope policy, rule documents with glob patterns over objects and columns, and the expiry check.
  The specification of glob matching is the function \<open>glob\<close>, which tries every split; the code's
  two-pointer loop with one backtracking point is shown equivalent to it.
\<close>

section \<open>Actions and the default policy (authz.cpp)\<close>

datatype Action = Attach | Scan | CopyTo | CopyFrom | ServeAdmin | Insert | Update | Delete | Ddl | Pragma

definition ActionName :: "Action \<Rightarrow> string" where
  "ActionName a =
     (case a of
        Attach \<Rightarrow> ''Attach'' | Scan \<Rightarrow> ''Scan'' | CopyTo \<Rightarrow> ''CopyTo'' | CopyFrom \<Rightarrow> ''CopyFrom''
      | ServeAdmin \<Rightarrow> ''ServeAdmin'' | Insert \<Rightarrow> ''Insert'' | Update \<Rightarrow> ''Update'' | Delete \<Rightarrow> ''Delete''
      | Ddl \<Rightarrow> ''Ddl'' | Pragma \<Rightarrow> ''Pragma'')"

datatype Decision = Allow | Deny

record PolicyOutcome =
  po_decision :: Decision
  po_reason :: string

definition HasScope :: "Principal \<Rightarrow> string \<Rightarrow> bool" where
  "HasScope p needle \<longleftrightarrow> needle \<in> set (scopes p)"

definition EvaluateDefaultPolicy :: "Principal \<Rightarrow> Action \<Rightarrow> PolicyOutcome" where
  "EvaluateDefaultPolicy p action =
     (let has_read = HasScope p ''quack:read'' \<or> HasScope p ''quack:write'';
          has_write = HasScope p ''quack:write'';
          allow = \<lparr>po_decision = Allow, po_reason = ''ok''\<rparr>;
          read = (if has_read then allow else \<lparr>po_decision = Deny, po_reason = ''requires quack:read''\<rparr>);
          write = (if has_write then allow else \<lparr>po_decision = Deny, po_reason = ''requires quack:write''\<rparr>);
          admin = \<lparr>po_decision = Deny, po_reason = ''default policy never permits administrative actions''\<rparr>
      in case action of
           Attach \<Rightarrow> read | Scan \<Rightarrow> read
         | CopyTo \<Rightarrow> write | CopyFrom \<Rightarrow> write | Insert \<Rightarrow> write | Update \<Rightarrow> write | Delete \<Rightarrow> write
         | Ddl \<Rightarrow> admin | Pragma \<Rightarrow> admin | ServeAdmin \<Rightarrow> admin)"

section \<open>Principal expiry (principal_expiry.cpp)\<close>

definition IsPrincipalExpired :: "Principal \<Rightarrow> seconds \<Rightarrow> seconds \<Rightarrow> bool" where
  "IsPrincipalExpired p now_s skew_s \<longleftrightarrow> (if exp p \<le> 0 then False else exp p + skew_s < now_s)"

section \<open>Rule documents (policy.cpp)\<close>

record PolicyRule =
  pr_subject :: "string option"
  pr_any_scope :: "string list"
  pr_actions :: "Action list"
  pr_object_pattern :: "string option"
  pr_column_pattern :: "string option"
  pr_allow :: bool

record PolicyDocument =
  pd_rules :: "PolicyRule list"
  pd_default_allow :: bool

text \<open>What the SQL inspector reports of a query (sql_inspect.hpp).\<close>

record AuthzRequest =
  ar_action :: Action
  ar_objects :: "string list"
  ar_columns :: "string list"
  ar_unsafe :: bool
  ar_error :: string

definition PrincipalHasAnyScope :: "Principal \<Rightarrow> string list \<Rightarrow> bool" where
  "PrincipalHasAnyScope p any_of \<longleftrightarrow> (if any_of = [] then True else \<exists>needle \<in> set any_of. needle \<in> set (scopes p))"

definition ActionMatches :: "Action \<Rightarrow> Action list \<Rightarrow> bool" where
  "ActionMatches action al \<longleftrightarrow> (if al = [] then True else action \<in> set al)"

definition ActionFromString :: "string \<Rightarrow> Action option" where
  "ActionFromString s =
     (if s = ''Attach'' then Some Attach else if s = ''Scan'' then Some Scan
      else if s = ''CopyTo'' then Some CopyTo else if s = ''CopyFrom'' then Some CopyFrom
      else if s = ''ServeAdmin'' then Some ServeAdmin else if s = ''Insert'' then Some Insert
      else if s = ''Update'' then Some Update else if s = ''Delete'' then Some Delete
      else if s = ''Ddl'' then Some Ddl else if s = ''Pragma'' then Some Pragma
      else None)"

text \<open>
  The loop of \<open>GlobMatch\<close>: the positions \<open>pi\<close> and \<open>vi\<close> in pattern and value and, once a star was seen,
  its position and the value position it is being tried at. The result is the value of \<open>pi\<close> when the
  value is used up, \<open>None\<close> the \<open>return false\<close>.
\<close>

function glob_loop :: "string \<Rightarrow> string \<Rightarrow> nat \<Rightarrow> nat \<Rightarrow> (nat \<times> nat) option \<Rightarrow> nat option" where
  "glob_loop pat val pi vi star =
     (if vi < length val then
        (if pi < length pat \<and> pat ! pi = CHR ''*'' then glob_loop pat val (Suc pi) vi (Some (pi, vi))
         else if pi < length pat \<and> to_lower (pat ! pi) = to_lower (val ! vi)
         then glob_loop pat val (Suc pi) (Suc vi) star
         else case star of
           Some (star_p, star_v) \<Rightarrow> glob_loop pat val (Suc star_p) (Suc star_v) (Some (star_p, Suc star_v))
         | None \<Rightarrow> None)
      else Some pi)"
  by pat_completeness auto
termination
  by (relation "measures [\<lambda>(pat, val, pi, vi, star). case star of None \<Rightarrow> 0 | Some (p, v) \<Rightarrow> if v \<le> vi then 0 else 1,
      \<lambda>(pat, val, pi, vi, star). case star of None \<Rightarrow> Suc (length val) | Some (p, v) \<Rightarrow> length val - v,
      \<lambda>(pat, val, pi, vi, star). length val - vi, \<lambda>(pat, val, pi, vi, star). length pat - pi]")
    (auto split: option.splits)

declare glob_loop.simps [simp del]

definition GlobMatch :: "string \<Rightarrow> string \<Rightarrow> bool" where
  "GlobMatch pat val \<longleftrightarrow>
     (case glob_loop pat val 0 0 None of
        None \<Rightarrow> False
      | Some pi \<Rightarrow> pi + length (takeWhile (\<lambda>c. c = CHR ''*'') (drop pi pat)) = length pat)"

definition rule_matches :: "Principal \<Rightarrow> Action \<Rightarrow> string \<Rightarrow> string \<Rightarrow> PolicyRule \<Rightarrow> bool" where
  "rule_matches p action obj col rule \<longleftrightarrow>
     (if pr_subject rule \<noteq> None \<and> pr_subject rule \<noteq> Some (subject p) then False
      else if \<not> PrincipalHasAnyScope p (pr_any_scope rule) then False
      else if \<not> ActionMatches action (pr_actions rule) then False
      else if pr_object_pattern rule \<noteq> None \<and> obj \<noteq> [] \<and> \<not> GlobMatch (the (pr_object_pattern rule)) obj then False
      else if pr_column_pattern rule \<noteq> None \<and> col \<noteq> [] \<and> \<not> GlobMatch (the (pr_column_pattern rule)) col then False
      else if pr_object_pattern rule \<noteq> None \<and> obj = [] then False
      else if pr_column_pattern rule \<noteq> None \<and> col = [] then False
      else True)"

definition cell_reason :: "string \<Rightarrow> string \<Rightarrow> string \<Rightarrow> string" where
  "cell_reason verdict obj col =
     verdict @ (if obj \<noteq> [] then '' on '' @ obj else []) @ (if col \<noteq> [] then ''.'' @ col else [])"

fun eval_rules :: "PolicyRule list \<Rightarrow> bool \<Rightarrow> Principal \<Rightarrow> Action \<Rightarrow> string \<Rightarrow> string \<Rightarrow> PolicyOutcome" where
  "eval_rules [] default_allow p action obj col =
     \<lparr>po_decision = (if default_allow then Allow else Deny),
      po_reason = cell_reason (if default_allow then ''default allow'' else ''default deny'') obj col\<rparr>"
| "eval_rules (rule # rules) default_allow p action obj col =
     (if rule_matches p action obj col rule
      then \<lparr>po_decision = (if pr_allow rule then Allow else Deny),
            po_reason = cell_reason (if pr_allow rule then ''rule allow'' else ''rule deny'') obj col\<rparr>
      else eval_rules rules default_allow p action obj col)"

definition EvaluateCell :: "PolicyDocument \<Rightarrow> Principal \<Rightarrow> Action \<Rightarrow> string \<Rightarrow> string \<Rightarrow> PolicyOutcome" where
  "EvaluateCell doc p action obj col = eval_rules (pd_rules doc) (pd_default_allow doc) p action obj col"

text \<open>The two nested loops return the first outcome that denies.\<close>

fun first_deny :: "PolicyOutcome list \<Rightarrow> PolicyOutcome option" where
  "first_deny [] = None"
| "first_deny (o1 # os) = (if po_decision o1 = Deny then Some o1 else first_deny os)"

definition EvaluatePolicy :: "PolicyDocument \<Rightarrow> Principal \<Rightarrow> AuthzRequest \<Rightarrow> PolicyOutcome" where
  "EvaluatePolicy doc p req =
     (if ar_objects req = [] then EvaluateCell doc p (ar_action req) [] []
      else
        let cells = concat (map (\<lambda>obj. if ar_columns req = [] then [(obj, [])]
                                         else map (\<lambda>col. (obj, col)) (ar_columns req)) (ar_objects req))
        in case first_deny (map (\<lambda>(obj, col). EvaluateCell doc p (ar_action req) obj col) cells) of
             Some outcome \<Rightarrow> outcome
           | None \<Rightarrow> \<lparr>po_decision = Allow, po_reason = ''ok''\<rparr>)"

section \<open>Specification of glob matching\<close>

fun glob :: "string \<Rightarrow> string \<Rightarrow> bool" where
  "glob [] v \<longleftrightarrow> v = []"
| "glob (p # ps) v \<longleftrightarrow>
     (if p = CHR ''*'' then (\<exists>n \<in> {0 .. length v}. glob ps (drop n v))
      else v \<noteq> [] \<and> to_lower p = to_lower (hd v) \<and> glob ps (tl v))"

definition same_text :: "string \<Rightarrow> string \<Rightarrow> bool" where
  "same_text s t \<longleftrightarrow> length s = length t \<and> map to_lower s = map to_lower t"

lemma glob_star: "glob (CHR ''*'' # ps) v \<longleftrightarrow> (\<exists>n \<le> length v. glob ps (drop n v))"
  by auto

declare glob.simps(2) [simp del]

lemma glob_lit: "p \<noteq> CHR ''*'' \<Longrightarrow> glob (p # ps) v \<longleftrightarrow> v \<noteq> [] \<and> to_lower p = to_lower (hd v) \<and> glob ps (tl v)"
  by (simp add: glob.simps(2))

lemma glob_star_Cons: "glob (CHR ''*'' # ps) (x # xs) \<longleftrightarrow> glob ps (x # xs) \<or> glob (CHR ''*'' # ps) xs"
proof -
  have "(\<exists>n \<le> Suc m. P n) \<longleftrightarrow> P 0 \<or> (\<exists>n \<le> m. P (Suc n))" for m and P :: "nat \<Rightarrow> bool"
    by (metis Suc_le_mono le0 not0_implies_Suc)
  then show ?thesis by (simp add: glob_star)
qed

lemma glob_star_drop:
  assumes "glob (CHR ''*'' # ps) (drop k v)"
  shows "glob (CHR ''*'' # ps) v"
proof -
  from assms obtain n where n: "n \<le> length v - k" "glob ps (drop (n + k) v)" by (auto simp: glob_star)
  have "drop (n + k) v = drop (min (n + k) (length v)) v" by (simp add: min_def)
  with n(2) show ?thesis unfolding glob_star by (metis min.cobounded2)
qed

lemma glob_prefix:
  "CHR ''*'' \<notin> set seg \<Longrightarrow> glob (seg @ rest) v \<longleftrightarrow>
     length seg \<le> length v \<and> same_text seg (take (length seg) v) \<and> glob rest (drop (length seg) v)"
proof (induction seg arbitrary: v)
  case (Cons p seg)
  then have p: "p \<noteq> CHR ''*''" and IH: "\<And>v. glob (seg @ rest) v \<longleftrightarrow>
      length seg \<le> length v \<and> same_text seg (take (length seg) v) \<and> glob rest (drop (length seg) v)" by auto
  show ?case
  proof (cases v)
    case Nil
    with p show ?thesis by (simp add: glob_lit)
  next
    case (Cons x xs)
    have "same_text (p # seg) (x # take (length seg) xs) \<longleftrightarrow> to_lower p = to_lower x \<and> same_text seg (take (length seg) xs)"
      by (auto simp: same_text_def)
    with p Cons show ?thesis by (simp add: glob_lit IH) blast
  qed
qed (simp add: same_text_def)

text \<open>A segment without stars that matches here need not be tried further to the right.\<close>

lemma glob_commit:
  assumes "CHR ''*'' \<notin> set seg" "length seg \<le> length v" "same_text seg (take (length seg) v)"
  shows "glob (CHR ''*'' # seg @ CHR ''*'' # rest) v \<longleftrightarrow> glob (CHR ''*'' # rest) (drop (length seg) v)"
proof
  assume "glob (CHR ''*'' # rest) (drop (length seg) v)"
  with assms have "glob (seg @ CHR ''*'' # rest) (drop 0 v)" by (simp add: glob_prefix)
  then show "glob (CHR ''*'' # seg @ CHR ''*'' # rest) v" unfolding glob_star by blast
next
  assume "glob (CHR ''*'' # seg @ CHR ''*'' # rest) v"
  then obtain n where "glob (seg @ CHR ''*'' # rest) (drop n v)" by (auto simp: glob_star)
  then have "glob (CHR ''*'' # rest) (drop n (drop (length seg) v))"
    using assms(1) by (simp add: glob_prefix add.commute)
  then show "glob (CHR ''*'' # rest) (drop (length seg) v)" by (rule glob_star_drop)
qed

lemma glob_stars: "glob ps [] \<longleftrightarrow> (\<forall>c \<in> set ps. c = CHR ''*'')"
proof (induction ps)
  case (Cons p ps)
  then show ?case by (cases "p = CHR ''*''") (simp_all add: glob_star glob_lit)
qed simp

lemma takeWhile_all_iff: "length (takeWhile P xs) = length xs \<longleftrightarrow> (\<forall>x \<in> set xs. P x)"
  by (induction xs) auto

text \<open>
  The state of the loop: without a star, what is left to match decides; with one, the segment since
  the star matches the value from where the star is being tried, and the star with what follows it
  decides.
\<close>

definition glob_inv :: "string \<Rightarrow> string \<Rightarrow> nat \<Rightarrow> nat \<Rightarrow> (nat \<times> nat) option \<Rightarrow> bool" where
  "glob_inv pat val pi vi star \<longleftrightarrow> pi \<le> length pat \<and> vi \<le> length val \<and>
     (case star of
        None \<Rightarrow> glob pat val \<longleftrightarrow> glob (drop pi pat) (drop vi val)
      | Some (sp, sv) \<Rightarrow>
          (\<exists>seg. drop (Suc sp) pat = seg @ drop pi pat \<and> CHR ''*'' \<notin> set seg \<and> vi = sv + length seg \<and>
             same_text seg (take (length seg) (drop sv val))) \<and>
          (glob pat val \<longleftrightarrow> glob (CHR ''*'' # drop (Suc sp) pat) (drop sv val)))"

lemma glob_inv_decides:
  assumes "glob_inv pat val pi vi star" "star = None \<or> pi < length pat \<and> pat ! pi = CHR ''*''"
  shows "glob pat val \<longleftrightarrow> glob (drop pi pat) (drop vi val)"
proof (cases star)
  case None
  with assms show ?thesis by (simp add: glob_inv_def)
next
  case (Some s)
  obtain sp sv where s: "star = Some (sp, sv)" using Some by (cases s) auto
  with assms obtain seg where seg: "drop (Suc sp) pat = seg @ drop pi pat" "CHR ''*'' \<notin> set seg" "vi = sv + length seg"
      "same_text seg (take (length seg) (drop sv val))" "glob pat val \<longleftrightarrow> glob (CHR ''*'' # drop (Suc sp) pat) (drop sv val)"
      "vi \<le> length val"
    by (auto simp: glob_inv_def)
  have "drop pi pat = CHR ''*'' # drop (Suc pi) pat" using assms(2) s by (simp add: Cons_nth_drop_Suc [symmetric])
  with seg glob_commit [OF seg(2) _ seg(4), of "drop (Suc pi) pat"] show ?thesis by (simp add: add.commute)
qed

lemma glob_inv_star:
  assumes "glob_inv pat val pi vi star" "pi < length pat" "pat ! pi = CHR ''*''"
  shows "glob_inv pat val (Suc pi) vi (Some (pi, vi))"
proof -
  have "drop pi pat = CHR ''*'' # drop (Suc pi) pat" using assms(2,3) by (simp add: Cons_nth_drop_Suc [symmetric])
  with glob_inv_decides [OF assms(1)] assms show ?thesis by (simp add: glob_inv_def same_text_def)
qed

lemma glob_inv_char:
  assumes inv: "glob_inv pat val pi vi star" and lt: "pi < length pat" "vi < length val"
    and c: "pat ! pi \<noteq> CHR ''*''" "to_lower (pat ! pi) = to_lower (val ! vi)"
  shows "glob_inv pat val (Suc pi) (Suc vi) star"
proof (cases star)
  case None
  have "drop pi pat = pat ! pi # drop (Suc pi) pat" "drop vi val = val ! vi # drop (Suc vi) val"
    using lt by (simp_all add: Cons_nth_drop_Suc)
  with None inv c lt show ?thesis by (simp add: glob_inv_def glob_lit)
next
  case (Some s)
  then obtain sp sv seg where s: "star = Some (sp, sv)" "drop (Suc sp) pat = seg @ drop pi pat" "CHR ''*'' \<notin> set seg"
      "vi = sv + length seg" "same_text seg (take (length seg) (drop sv val))"
      "glob pat val \<longleftrightarrow> glob (CHR ''*'' # drop (Suc sp) pat) (drop sv val)"
    using inv by (cases s) (auto simp: glob_inv_def)
  have "take (Suc (length seg)) (drop sv val) = take (length seg) (drop sv val) @ [val ! vi]"
    using s(4) lt(2) by (simp add: take_Suc_conv_app_nth)
  then have "same_text (seg @ [pat ! pi]) (take (length (seg @ [pat ! pi])) (drop sv val))"
    using s(5) c(2) lt(2) by (simp add: same_text_def)
  moreover have "drop (Suc sp) pat = (seg @ [pat ! pi]) @ drop (Suc pi) pat"
    using s(2) lt(1) by (simp add: Cons_nth_drop_Suc)
  moreover have "CHR ''*'' \<notin> set (seg @ [pat ! pi])" using s(3) c(1) by auto
  ultimately show ?thesis
    using s(1,4,6) lt unfolding glob_inv_def
    by (auto intro!: exI [of _ "seg @ [pat ! pi]"])
qed

lemma glob_inv_back:
  assumes inv: "glob_inv pat val pi vi (Some (sp, sv))" and vi: "vi < length val"
    and c: "\<not> (pi < length pat \<and> pat ! pi = CHR ''*'')" "\<not> (pi < length pat \<and> to_lower (pat ! pi) = to_lower (val ! vi))"
    and sp: "sp < length pat"
  shows "glob_inv pat val (Suc sp) (Suc sv) (Some (sp, Suc sv))"
proof -
  from inv obtain seg where s: "drop (Suc sp) pat = seg @ drop pi pat" "CHR ''*'' \<notin> set seg"
      "vi = sv + length seg" "same_text seg (take (length seg) (drop sv val))"
      "glob pat val \<longleftrightarrow> glob (CHR ''*'' # drop (Suc sp) pat) (drop sv val)"
    by (auto simp: glob_inv_def)
  have "\<not> glob (drop pi pat) (drop vi val)"
  proof (cases "pi < length pat")
    case True
    then have "drop pi pat = pat ! pi # drop (Suc pi) pat" "drop vi val = val ! vi # drop (Suc vi) val"
      using vi by (simp_all add: Cons_nth_drop_Suc)
    with True c show ?thesis by (simp add: glob_lit)
  qed (use vi in simp)
  then have "\<not> glob (drop (Suc sp) pat) (drop sv val)"
    using s(2,3) by (simp add: s(1) glob_prefix add.commute)
  then have "glob pat val \<longleftrightarrow> glob (CHR ''*'' # drop (Suc sp) pat) (drop (Suc sv) val)"
    using s(3,5) vi glob_star_Cons [of "drop (Suc sp) pat" "val ! sv" "drop (Suc sv) val"]
    by (simp add: Cons_nth_drop_Suc)
  then show ?thesis using sp s(3) vi by (simp add: glob_inv_def same_text_def)
qed

lemma glob_inv_end:
  assumes inv: "glob_inv pat val pi vi star" and vi: "vi = length val"
  shows "glob pat val \<longleftrightarrow> glob (drop pi pat) []"
proof (cases star)
  case None
  with glob_inv_decides [OF inv] vi show ?thesis by simp
next
  case (Some s)
  then obtain sp sv seg where s: "drop (Suc sp) pat = seg @ drop pi pat" "CHR ''*'' \<notin> set seg"
      "vi = sv + length seg" "same_text seg (take (length seg) (drop sv val))"
      "glob pat val \<longleftrightarrow> glob (CHR ''*'' # drop (Suc sp) pat) (drop sv val)"
    using inv by (cases s) (auto simp: glob_inv_def)
  have len: "length (drop sv val) = length seg" using s(3) vi by simp
  have "glob (seg @ drop pi pat) (drop n (drop sv val)) \<longleftrightarrow> n = 0 \<and> glob (drop pi pat) []" if "n \<le> length seg" for n
    using that s(2,4) len by (auto simp: glob_prefix)
  then show ?thesis unfolding s(5) glob_star s(1) len by (metis le0)
qed

lemma glob_loop_correct:
  "glob_inv pat val pi vi star \<Longrightarrow> (\<And>sp sv. star = Some (sp, sv) \<Longrightarrow> sp < length pat) \<Longrightarrow>
     (case glob_loop pat val pi vi star of
        None \<Rightarrow> False
      | Some i \<Rightarrow> i + length (takeWhile (\<lambda>c. c = CHR ''*'') (drop i pat)) = length pat) \<longleftrightarrow> glob pat val"
proof (induction pat val pi vi star rule: glob_loop.induct)
  case (1 pat val pi vi star)
  note inv = "1.prems"(1)
  have le: "pi \<le> length pat" "vi \<le> length val" using inv by (simp_all add: glob_inv_def)
  show ?case
  proof (cases "vi < length val")
    case False
    with le have vi: "vi = length val" by simp
    have "pi + length (takeWhile (\<lambda>c. c = CHR ''*'') (drop pi pat)) = length pat \<longleftrightarrow> glob (drop pi pat) []"
    proof -
      let ?n = "length (takeWhile (\<lambda>c. c = CHR ''*'') (drop pi pat))"
      have "pi + ?n = length pat \<longleftrightarrow> ?n = length (drop pi pat)" using le by (simp only: length_drop) arith
      then show ?thesis by (simp only: takeWhile_all_iff glob_stars)
    qed
    moreover have "glob pat val \<longleftrightarrow> glob (drop pi pat) []" by (rule glob_inv_end [OF inv vi])
    ultimately show ?thesis using False by (simp add: glob_loop.simps [of pat val pi vi])
  next
    case vi: True
    note IH = "1.IH" [OF vi]
    consider (star) "pi < length pat \<and> pat ! pi = CHR ''*''"
      | (char) "\<not> (pi < length pat \<and> pat ! pi = CHR ''*'')" "pi < length pat \<and> to_lower (pat ! pi) = to_lower (val ! vi)"
      | (retry) sp sv where "\<not> (pi < length pat \<and> pat ! pi = CHR ''*'')"
          "\<not> (pi < length pat \<and> to_lower (pat ! pi) = to_lower (val ! vi))" "star = Some (sp, sv)"
      | (fail) "\<not> (pi < length pat \<and> pat ! pi = CHR ''*'')"
          "\<not> (pi < length pat \<and> to_lower (pat ! pi) = to_lower (val ! vi))" "star = None"
      by (cases star) auto
    then show ?thesis
    proof cases
      case star
      with IH(1) [OF star glob_inv_star [OF inv]] vi show ?thesis by (simp add: glob_loop.simps [of pat val pi vi])
    next
      case char
      with IH(2) [OF char glob_inv_char [OF inv _ vi]] "1.prems"(2) vi show ?thesis
        by (simp add: glob_loop.simps [of pat val pi vi])
    next
      case retry
      have "sp < length pat" using "1.prems"(2) retry(3) by blast
      with IH(3) [OF retry(1,2,3) refl glob_inv_back [OF inv [unfolded retry(3)] vi retry(1,2)]] vi retry show ?thesis
        by (subst glob_loop.simps) auto
    next
      case fail
      have "\<not> glob (drop pi pat) (drop vi val)"
      proof (cases "pi < length pat")
        case True
        then have "drop pi pat = pat ! pi # drop (Suc pi) pat" "drop vi val = val ! vi # drop (Suc vi) val"
          using vi by (simp_all add: Cons_nth_drop_Suc)
        with True fail show ?thesis by (simp add: glob_lit)
      qed (use vi in simp)
      with glob_inv_decides [OF inv] fail vi show ?thesis by (subst glob_loop.simps) auto
    qed
  qed
qed

lemma GlobMatch_glob: "GlobMatch pat val \<longleftrightarrow> glob pat val"
  unfolding GlobMatch_def by (rule glob_loop_correct) (simp_all add: glob_inv_def)

section \<open>Properties\<close>

text \<open>
  C25: glob matching is correct. The two-pointer loop, which keeps a single backtracking point,
  terminates and accepts exactly the values that match the pattern: every star stands for some run of
  characters and every other character for itself, upper and lower case alike.
\<close>

theorem GlobMatch_correct: "GlobMatch pat val \<longleftrightarrow> glob pat val"
  by (rule GlobMatch_glob)

text \<open>\<open>ActionFromString\<close> inverts \<open>ActionName\<close>.\<close>

lemma ActionFromString_iff: "ActionFromString s = Some a \<longleftrightarrow> s = ActionName a"
  by (cases a) (auto simp: ActionFromString_def ActionName_def split: if_splits)

text \<open>The decision of a cell: the first matching rule, or the default.\<close>

definition cell_allowed :: "PolicyDocument \<Rightarrow> Principal \<Rightarrow> Action \<Rightarrow> string \<Rightarrow> string \<Rightarrow> bool" where
  "cell_allowed doc p action obj col =
     (case find (rule_matches p action obj col) (pd_rules doc) of
        Some rule \<Rightarrow> pr_allow rule
      | None \<Rightarrow> pd_default_allow doc)"

lemma EvaluateCell_allow: "po_decision (EvaluateCell doc p action obj col) = Allow \<longleftrightarrow> cell_allowed doc p action obj col"
proof -
  have "po_decision (eval_rules rules d p action obj col) = Allow \<longleftrightarrow>
      (case find (rule_matches p action obj col) rules of Some rule \<Rightarrow> pr_allow rule | None \<Rightarrow> d)" for rules d
    by (induction rules) simp_all
  then show ?thesis by (simp add: EvaluateCell_def cell_allowed_def)
qed

lemma first_deny_None: "first_deny os = None \<longleftrightarrow> (\<forall>x \<in> set os. po_decision x = Allow)"
proof (induction os)
  case (Cons x os)
  then show ?case by (cases "po_decision x") auto
qed simp

lemma first_deny_Some: "first_deny os = Some x \<Longrightarrow> x \<in> set os \<and> po_decision x = Deny"
  by (induction os) (auto split: if_splits)

text \<open>The cells a request touches.\<close>

definition request_cells :: "AuthzRequest \<Rightarrow> (string \<times> string) set" where
  "request_cells req =
     (if ar_objects req = [] then {([], [])}
      else set (ar_objects req) \<times> (if ar_columns req = [] then {[]} else set (ar_columns req)))"

lemma EvaluatePolicy_first_deny:
  assumes "ar_objects req \<noteq> []"
  obtains os where "EvaluatePolicy doc p req = (case first_deny os of Some outcome \<Rightarrow> outcome | None \<Rightarrow> \<lparr>po_decision = Allow, po_reason = ''ok''\<rparr>)"
    "set os = (\<lambda>(obj, col). EvaluateCell doc p (ar_action req) obj col) ` request_cells req"
proof
  let ?cells = "concat (map (\<lambda>obj. if ar_columns req = [] then [(obj, [])] else map (\<lambda>col. (obj, col)) (ar_columns req)) (ar_objects req))"
  let ?os = "map (\<lambda>(obj, col). EvaluateCell doc p (ar_action req) obj col) ?cells"
  show "EvaluatePolicy doc p req = (case first_deny ?os of Some outcome \<Rightarrow> outcome | None \<Rightarrow> \<lparr>po_decision = Allow, po_reason = ''ok''\<rparr>)"
    using assms by (simp add: EvaluatePolicy_def Let_def)
  have "set ?cells = request_cells req" using assms by (auto simp: request_cells_def)
  then show "set ?os = (\<lambda>(obj, col). EvaluateCell doc p (ar_action req) obj col) ` request_cells req" unfolding set_map by (rule arg_cong)
qed

lemma EvaluatePolicy_cells:
  "po_decision (EvaluatePolicy doc p req) = Allow \<longleftrightarrow> (\<forall>(obj, col) \<in> request_cells req. cell_allowed doc p (ar_action req) obj col)"
proof (cases "ar_objects req = []")
  case True
  then show ?thesis by (simp add: EvaluatePolicy_def request_cells_def EvaluateCell_allow)
next
  case False
  then obtain os where os: "EvaluatePolicy doc p req = (case first_deny os of Some outcome \<Rightarrow> outcome | None \<Rightarrow> \<lparr>po_decision = Allow, po_reason = ''ok''\<rparr>)"
      "set os = (\<lambda>(obj, col). EvaluateCell doc p (ar_action req) obj col) ` request_cells req" by (rule EvaluatePolicy_first_deny)
  have "po_decision (EvaluatePolicy doc p req) = Allow \<longleftrightarrow> (\<forall>x \<in> set os. po_decision x = Allow)"
    using first_deny_None [of os] first_deny_Some [of os] by (auto simp: os(1) split: option.split)
  then show ?thesis by (auto simp: os(2) EvaluateCell_allow)
qed

text \<open>
  C24: a policy allows a request if and only if it allows every object and column cell the
  request touches, where a cell is decided by the first rule that matches it and by the default when
  none does. A denial names the verdict of a cell that is really denied.
\<close>

theorem EvaluatePolicy_allows_iff:
  "(po_decision (EvaluatePolicy doc p req) = Allow \<longleftrightarrow>
     (\<forall>(obj, col) \<in> request_cells req. cell_allowed doc p (ar_action req) obj col)) \<and>
   (po_decision (EvaluatePolicy doc p req) = Deny \<longrightarrow>
     (\<exists>(obj, col) \<in> request_cells req. \<not> cell_allowed doc p (ar_action req) obj col \<and>
        EvaluatePolicy doc p req = EvaluateCell doc p (ar_action req) obj col))"
proof (intro conjI impI)
  show "po_decision (EvaluatePolicy doc p req) = Allow \<longleftrightarrow> (\<forall>(obj, col) \<in> request_cells req. cell_allowed doc p (ar_action req) obj col)"
    by (rule EvaluatePolicy_cells)
  assume deny: "po_decision (EvaluatePolicy doc p req) = Deny"
  show "\<exists>(obj, col) \<in> request_cells req. \<not> cell_allowed doc p (ar_action req) obj col \<and>
      EvaluatePolicy doc p req = EvaluateCell doc p (ar_action req) obj col"
  proof (cases "ar_objects req = []")
    case True
    then show ?thesis using deny EvaluateCell_allow [of doc p "ar_action req" "[]" "[]"] by (auto simp: EvaluatePolicy_def request_cells_def)
  next
    case False
    then obtain os where os: "EvaluatePolicy doc p req = (case first_deny os of Some outcome \<Rightarrow> outcome | None \<Rightarrow> \<lparr>po_decision = Allow, po_reason = ''ok''\<rparr>)"
        "set os = (\<lambda>(obj, col). EvaluateCell doc p (ar_action req) obj col) ` request_cells req" by (rule EvaluatePolicy_first_deny)
    then have "EvaluatePolicy doc p req \<in> set os"
      using deny first_deny_Some [of os] by (cases "first_deny os") auto
    then obtain obj col where c: "(obj, col) \<in> request_cells req" "EvaluatePolicy doc p req = EvaluateCell doc p (ar_action req) obj col"
      unfolding os(2) by auto
    then have "\<not> cell_allowed doc p (ar_action req) obj col"
      using deny EvaluateCell_allow [of doc p "ar_action req" obj col] by simp
    with c show ?thesis by blast
  qed
qed

text \<open>
  The default policy grants reading to holders of \<open>quack:read\<close> or \<open>quack:write\<close>, writing to
  holders of \<open>quack:write\<close> only, and administrative actions to nobody; more scopes never take a grant away.
\<close>

lemma default_policy_grants:
  "(po_decision (EvaluateDefaultPolicy p action) = Allow \<longleftrightarrow>
      action \<in> {Attach, Scan} \<and> (''quack:read'' \<in> set (scopes p) \<or> ''quack:write'' \<in> set (scopes p)) \<or>
      action \<in> {CopyTo, CopyFrom, Insert, Update, Delete} \<and> ''quack:write'' \<in> set (scopes p)) \<and>
   (po_decision (EvaluateDefaultPolicy p action) = Allow \<longrightarrow> set (scopes p) \<subseteq> set (scopes q) \<longrightarrow>
      po_decision (EvaluateDefaultPolicy q action) = Allow)"
  by (cases action) (auto simp: EvaluateDefaultPolicy_def HasScope_def Let_def)

definition sample_doc :: PolicyDocument where
  "sample_doc = \<lparr>pd_rules =
     [\<lparr>pr_subject = None, pr_any_scope = [], pr_actions = [], pr_object_pattern = Some ''main.*'', pr_column_pattern = Some ''ssn'',
       pr_allow = False\<rparr>,
      \<lparr>pr_subject = None, pr_any_scope = [''read''], pr_actions = [Scan], pr_object_pattern = Some ''main.*'', pr_column_pattern = None,
       pr_allow = True\<rparr>],
     pd_default_allow = False\<rparr>"

definition sample_request :: "string list \<Rightarrow> AuthzRequest" where
  "sample_request cols = \<lparr>ar_action = Scan, ar_objects = [''main.users''], ar_columns = cols, ar_unsafe = False, ar_error = []\<rparr>"

lemma EvaluatePolicy_allows_iff_witness:
  "po_decision (EvaluatePolicy sample_doc sample_principal (sample_request [''id'', ''name''])) = Allow \<and>
   po_decision (EvaluatePolicy sample_doc sample_principal (sample_request [''id'', ''ssn''])) \<noteq> Allow"
proof -
  have "cell_allowed sample_doc sample_principal Scan ''main.users'' ''id''"
    "cell_allowed sample_doc sample_principal Scan ''main.users'' ''name''"
    "\<not> cell_allowed sample_doc sample_principal Scan ''main.users'' ''ssn''" by code_simp+
  then show ?thesis
    using EvaluatePolicy_allows_iff [of sample_doc sample_principal "sample_request [''id'', ''name'']"]
      EvaluatePolicy_allows_iff [of sample_doc sample_principal "sample_request [''id'', ''ssn'']"]
    by (simp add: request_cells_def sample_request_def)
qed

lemma default_policy_grants_witness:
  "po_decision (EvaluateDefaultPolicy (sample_principal\<lparr>scopes := [''quack:write'']\<rparr>) Scan) = Allow \<and>
   po_decision (EvaluateDefaultPolicy (sample_principal\<lparr>scopes := [''x'', ''quack:write'']\<rparr>) Scan) = Allow"
  using default_policy_grants [of "sample_principal\<lparr>scopes := [''quack:write'']\<rparr>" Scan
    "sample_principal\<lparr>scopes := [''x'', ''quack:write'']\<rparr>"] by simp

end
