(* ===== verification/Policy_Table.thy ===== *)
theory Policy_Table
  imports Policy Host
begin

text \<open>
  The policy table (policy_table.cpp): an operator's SQL table of rules, read into a \<open>PolicyDocument\<close>.
  The columns of the table are discovered first; a missing column, an unknown action or a null in
  \<open>allow\<close> makes the whole load fail, and a failed load denies every request (see the theory
  \<open>Authorization\<close>). What a row of the table means as a rule is stated by \<open>row_means\<close>, without
  reference to the loading code.
\<close>

section \<open>Columns\<close>

record ColumnLayout =
  cl_priority_idx :: int
  cl_subject_idx :: int
  cl_any_scope_idx :: int
  cl_actions_idx :: int
  cl_object_pattern_idx :: int
  cl_column_pattern_idx :: int
  cl_allow_idx :: int

definition empty_ColumnLayout :: ColumnLayout where
  "empty_ColumnLayout = \<lparr>cl_priority_idx = -1, cl_subject_idx = -1, cl_any_scope_idx = -1, cl_actions_idx = -1,
     cl_object_pattern_idx = -1, cl_column_pattern_idx = -1, cl_allow_idx = -1\<rparr>"

definition note_column :: "string \<Rightarrow> int \<Rightarrow> ColumnLayout \<Rightarrow> ColumnLayout" where
  "note_column name i layout =
     (if name = ''priority'' then layout\<lparr>cl_priority_idx := i\<rparr>
      else if name = ''subject'' then layout\<lparr>cl_subject_idx := i\<rparr>
      else if name = ''any_scope'' then layout\<lparr>cl_any_scope_idx := i\<rparr>
      else if name = ''actions'' then layout\<lparr>cl_actions_idx := i\<rparr>
      else if name = ''object_pattern'' then layout\<lparr>cl_object_pattern_idx := i\<rparr>
      else if name = ''column_pattern'' then layout\<lparr>cl_column_pattern_idx := i\<rparr>
      else if name = ''allow'' then layout\<lparr>cl_allow_idx := i\<rparr>
      else layout)"

fun discover_loop :: "'v Host \<Rightarrow> 'v list list \<Rightarrow> int \<Rightarrow> ColumnLayout \<Rightarrow> ColumnLayout" where
  "discover_loop H [] i layout = layout"
| "discover_loop H (row # rows) i layout =
     (let v = row ! 0
      in if h_IsNull H v then discover_loop H rows (i + 1) layout
         else discover_loop H rows (i + 1) (note_column (h_String H v) i layout))"

definition columns_sql :: "string \<Rightarrow> string" where
  "columns_sql table =
     ''SELECT lower(name) AS n FROM pragma_table_info('' @ [CHR 0x27] @ EscapeSingleQuotes table @ [CHR 0x27] @ '') ORDER BY cid''"

definition DiscoverColumns :: "'v Host \<Rightarrow> string \<Rightarrow> ColumnLayout option" where
  "DiscoverColumns H table =
     (case h_query H (columns_sql table) of
        None \<Rightarrow> None
      | Some rows \<Rightarrow>
          let layout = discover_loop H rows 0 empty_ColumnLayout
          in if cl_priority_idx layout < 0 \<or> cl_allow_idx layout < 0 then None else Some layout)"

section \<open>Rules\<close>

definition NormalisePattern :: "'v Host \<Rightarrow> 'v \<Rightarrow> string option" where
  "NormalisePattern H v =
     (if h_IsNull H v then None
      else let s = h_String H v in if s = [] then None else Some (lower_ascii s))"

definition list_strings :: "'v Host \<Rightarrow> 'v \<Rightarrow> string list" where
  "list_strings H v =
     (if h_IsNull H v then [] else map (h_String H) (filter (\<lambda>c. \<not> h_IsNull H c) (h_Children H v)))"

fun parse_actions :: "string list \<Rightarrow> Action list option" where
  "parse_actions [] = Some []"
| "parse_actions (s # ss) =
     (case ActionFromString s of
        None \<Rightarrow> None
      | Some a \<Rightarrow> map_option ((#) a) (parse_actions ss))"

definition load_rule :: "'v Host \<Rightarrow> int \<Rightarrow> int \<Rightarrow> 'v list \<Rightarrow> PolicyRule option" where
  "load_rule H obj_pos col_pos row =
     (let subject_v = row ! 1; any_scope_v = row ! 2; actions_v = row ! 3; allow_v = row ! 4
      in if h_IsNull H allow_v then None
         else case parse_actions (list_strings H actions_v) of
           None \<Rightarrow> None
         | Some actions \<Rightarrow>
             Some \<lparr>pr_subject = (if h_IsNull H subject_v then None else Some (h_String H subject_v)),
                   pr_any_scope = list_strings H any_scope_v,
                   pr_actions = actions,
                   pr_object_pattern = (if 0 \<le> obj_pos then NormalisePattern H (row ! nat obj_pos) else None),
                   pr_column_pattern = (if 0 \<le> col_pos then NormalisePattern H (row ! nat col_pos) else None),
                   pr_allow = h_Bool H allow_v\<rparr>)"

fun load_rules :: "'v Host \<Rightarrow> int \<Rightarrow> int \<Rightarrow> 'v list list \<Rightarrow> PolicyRule list option" where
  "load_rules H obj_pos col_pos [] = Some []"
| "load_rules H obj_pos col_pos (row # rows) =
     (case load_rule H obj_pos col_pos row of
        None \<Rightarrow> None
      | Some rule \<Rightarrow> map_option ((#) rule) (load_rules H obj_pos col_pos rows))"

definition rules_sql :: "bool \<Rightarrow> bool \<Rightarrow> string \<Rightarrow> string" where
  "rules_sql has_obj has_col table =
     ''SELECT priority, subject, any_scope, actions, allow'' @
     (if has_obj then '', object_pattern'' else []) @
     (if has_col then '', column_pattern'' else []) @
     '' FROM '' @ QuoteQualifiedIdentifier table @ '' ORDER BY priority''"

definition LoadPolicyFromTable :: "'v Host \<Rightarrow> string \<Rightarrow> PolicyDocument option" where
  "LoadPolicyFromTable H table =
     (if table = [] then None
      else case DiscoverColumns H table of
        None \<Rightarrow> None
      | Some layout \<Rightarrow>
          (case h_query H (rules_sql (0 \<le> cl_object_pattern_idx layout) (0 \<le> cl_column_pattern_idx layout) table) of
             None \<Rightarrow> None
           | Some rows \<Rightarrow>
               let obj_pos = (if 0 \<le> cl_object_pattern_idx layout then 5 else -1);
                   col_pos = (if 0 \<le> cl_column_pattern_idx layout then (if 0 \<le> obj_pos then 6 else 5) else -1)
               in case load_rules H obj_pos col_pos rows of
                    None \<Rightarrow> None
                  | Some rules \<Rightarrow> Some \<lparr>pd_rules = rules, pd_default_allow = False\<rparr>))"

section \<open>What the columns and rows mean\<close>

text \<open>The column names of a table, in order; a null name is no name.\<close>

definition column_names :: "'v Host \<Rightarrow> 'v list list \<Rightarrow> string set" where
  "column_names H rows = {h_String H (row ! 0) | row. row \<in> set rows \<and> \<not> h_IsNull H (row ! 0)}"

text \<open>A row of the selected columns as a rule.\<close>

definition row_means :: "'v Host \<Rightarrow> bool \<Rightarrow> bool \<Rightarrow> 'v list \<Rightarrow> PolicyRule \<Rightarrow> bool" where
  "row_means H has_obj has_col row rule \<longleftrightarrow>
     \<not> h_IsNull H (row ! 4) \<and> pr_allow rule = h_Bool H (row ! 4) \<and>
     pr_subject rule = (if h_IsNull H (row ! 1) then None else Some (h_String H (row ! 1))) \<and>
     pr_any_scope rule = list_strings H (row ! 2) \<and>
     map ActionName (pr_actions rule) = list_strings H (row ! 3) \<and>
     pr_object_pattern rule = (if has_obj then NormalisePattern H (row ! 5) else None) \<and>
     pr_column_pattern rule = (if has_col then NormalisePattern H (row ! (if has_obj then 6 else 5)) else None)"

lemma note_column_idx:
  assumes "0 \<le> i"
  shows "0 \<le> cl_priority_idx (note_column s i l) \<longleftrightarrow> s = ''priority'' \<or> 0 \<le> cl_priority_idx l"
    and "0 \<le> cl_allow_idx (note_column s i l) \<longleftrightarrow> s = ''allow'' \<or> 0 \<le> cl_allow_idx l"
    and "0 \<le> cl_object_pattern_idx (note_column s i l) \<longleftrightarrow> s = ''object_pattern'' \<or> 0 \<le> cl_object_pattern_idx l"
    and "0 \<le> cl_column_pattern_idx (note_column s i l) \<longleftrightarrow> s = ''column_pattern'' \<or> 0 \<le> cl_column_pattern_idx l"
  using assms by (simp_all add: note_column_def)

lemma column_names_Cons:
  "column_names H (row # rows) = (if h_IsNull H (row ! 0) then {} else {h_String H (row ! 0)}) \<union> column_names H rows"
  by (auto simp: column_names_def)

lemma discover_loop_idx:
  assumes "0 \<le> i"
  shows "0 \<le> cl_priority_idx (discover_loop H rows i l) \<longleftrightarrow> ''priority'' \<in> column_names H rows \<or> 0 \<le> cl_priority_idx l"
    and "0 \<le> cl_allow_idx (discover_loop H rows i l) \<longleftrightarrow> ''allow'' \<in> column_names H rows \<or> 0 \<le> cl_allow_idx l"
    and "0 \<le> cl_object_pattern_idx (discover_loop H rows i l) \<longleftrightarrow>
         ''object_pattern'' \<in> column_names H rows \<or> 0 \<le> cl_object_pattern_idx l"
    and "0 \<le> cl_column_pattern_idx (discover_loop H rows i l) \<longleftrightarrow>
         ''column_pattern'' \<in> column_names H rows \<or> 0 \<le> cl_column_pattern_idx l"
  using assms
  by (induction rows arbitrary: i l) (auto simp: Let_def note_column_idx column_names_Cons, auto simp: column_names_def)

lemma DiscoverColumns_Some:
  "DiscoverColumns H table = Some layout \<longleftrightarrow>
   (\<exists>rows. h_query H (columns_sql table) = Some rows \<and> {''priority'', ''allow''} \<subseteq> column_names H rows \<and>
      layout = discover_loop H rows 0 empty_ColumnLayout)"
proof -
  have "cl_priority_idx (discover_loop H rows 0 empty_ColumnLayout) < 0 \<longleftrightarrow> ''priority'' \<notin> column_names H rows"
    "cl_allow_idx (discover_loop H rows 0 empty_ColumnLayout) < 0 \<longleftrightarrow> ''allow'' \<notin> column_names H rows" for rows
    using discover_loop_idx(1,2) [of 0 H rows empty_ColumnLayout] by (simp_all add: empty_ColumnLayout_def not_le [symmetric])
  then show ?thesis by (auto simp: DiscoverColumns_def Let_def split: option.split)
qed

lemma parse_actions_iff: "parse_actions ss = Some as \<longleftrightarrow> map ActionName as = ss"
proof (induction ss arbitrary: as)
  case (Cons s ss)
  show ?case
  proof (cases as)
    case (Cons a as')
    have "ActionFromString s = Some a \<longleftrightarrow> s = ActionName a" by (rule ActionFromString_iff)
    then show ?thesis using Cons Cons.IH [of as'] by (cases "ActionFromString s") auto
  qed (auto split: option.split)
qed auto

lemma case_option_Some_iff: "(case x of None \<Rightarrow> None | Some a \<Rightarrow> Some (f a)) = Some y \<longleftrightarrow> (\<exists>a. x = Some a \<and> y = f a)"
  by (cases x) auto

lemma load_rule_iff:
  "load_rule H (if ob then 5 else -1) (if co then (if ob then 6 else 5) else -1) row = Some rule \<longleftrightarrow> row_means H ob co row rule"
proof (cases "h_IsNull H (row ! 4)")
  case False
  then show ?thesis
    by (cases rule; cases ob; cases co)
      (simp_all add: load_rule_def row_means_def Let_def case_option_Some_iff parse_actions_iff, blast+)
qed (simp add: load_rule_def row_means_def)

lemma load_rules_iff:
  "load_rules H op cp rows = Some rules \<longleftrightarrow> list_all2 (\<lambda>row rule. load_rule H op cp row = Some rule) rows rules"
proof (induction rows arbitrary: rules)
  case (Cons row rows)
  then show ?case by (cases rules) (auto split: option.splits)
qed auto

section \<open>Properties\<close>

text \<open>
  C16: A policy table loads exactly when its name is not empty, both queries succeed, the columns
  \<open>priority\<close> and \<open>allow\<close> exist and every row has a meaning; the document then holds the rules the rows
  mean, one per row and in the order of the query, and denies by default. In particular one row with
  a null \<open>allow\<close> or an unknown action makes the load fail.
\<close>

theorem LoadPolicyFromTable_correct:
  "LoadPolicyFromTable H table = Some doc \<longleftrightarrow>
     table \<noteq> [] \<and>
     (\<exists>names rows. h_query H (columns_sql table) = Some names \<and>
        ''priority'' \<in> column_names H names \<and> ''allow'' \<in> column_names H names \<and>
        h_query H (rules_sql (''object_pattern'' \<in> column_names H names) (''column_pattern'' \<in> column_names H names) table)
          = Some rows \<and>
        list_all2 (row_means H (''object_pattern'' \<in> column_names H names) (''column_pattern'' \<in> column_names H names))
          rows (pd_rules doc) \<and>
        \<not> pd_default_allow doc)"
proof -
  have idx: "0 \<le> cl_object_pattern_idx (discover_loop H names 0 empty_ColumnLayout) \<longleftrightarrow> ''object_pattern'' \<in> column_names H names"
    "0 \<le> cl_column_pattern_idx (discover_loop H names 0 empty_ColumnLayout) \<longleftrightarrow> ''column_pattern'' \<in> column_names H names" for names
    by (simp_all add: discover_loop_idx(3,4) empty_ColumnLayout_def)
  have pos: "(0 \<le> (if b then 5 else - 1 :: int)) = b" for b by simp
  have doc: "Some \<lparr>pd_rules = rules, pd_default_allow = False\<rparr> = Some doc \<longleftrightarrow> pd_rules doc = rules \<and> \<not> pd_default_allow doc" for rules
    by (cases doc) auto
  show ?thesis
  proof (cases "table = [] \<or> DiscoverColumns H table = None")
    case True
    then have "LoadPolicyFromTable H table = None" by (auto simp: LoadPolicyFromTable_def)
    moreover have "\<not> (''priority'' \<in> column_names H names \<and> ''allow'' \<in> column_names H names)"
      if "table \<noteq> []" "h_query H (columns_sql table) = Some names" for names
      using True that DiscoverColumns_Some [of H table "discover_loop H names 0 empty_ColumnLayout"] by simp
    ultimately show ?thesis by (simp only: option.distinct) blast
  next
    case False
    then obtain names where n: "h_query H (columns_sql table) = Some names" "''priority'' \<in> column_names H names"
        "''allow'' \<in> column_names H names"
      and D: "DiscoverColumns H table = Some (discover_loop H names 0 empty_ColumnLayout)"
      using DiscoverColumns_Some [of H table] by auto
    define ob co where oc: "ob = (''object_pattern'' \<in> column_names H names)" "co = (''column_pattern'' \<in> column_names H names)"
    have L: "LoadPolicyFromTable H table =
        (case h_query H (rules_sql ob co table) of
           None \<Rightarrow> None
         | Some rows \<Rightarrow>
             (case load_rules H (if ob then 5 else -1) (if co then (if ob then 6 else 5) else -1) rows of
                None \<Rightarrow> None
              | Some rules \<Rightarrow> Some \<lparr>pd_rules = rules, pd_default_allow = False\<rparr>))"
    proof -
      have "(table = []) = False" using False by simp
      then show ?thesis by (simp only: LoadPolicyFromTable_def D Let_def idx pos oc option.case if_False)
    qed
    have R: "doc = \<lparr>pd_rules = rules, pd_default_allow = False\<rparr> \<longleftrightarrow> pd_rules doc = rules \<and> \<not> pd_default_allow doc" for rules
      using doc [of rules] by auto
    show ?thesis
      using False n unfolding L oc [symmetric]
      by (cases "h_query H (rules_sql ob co table)")
        (simp_all add: case_option_Some_iff load_rules_iff load_rule_iff R oc [symmetric])
  qed
qed

end
