(* ===== verification/Jwks_Cache.thy ===== *)
theory Jwks_Cache
  imports QO_Prelude
begin

text \<open>
  \<open>JwksCache\<close> (jwks_cache.hpp, jwks_cache.cpp): the verification keys of each identity provider, per
  key id, with negative entries, a per-key refresh limit, reservations that order concurrent
  refreshes, a global fetch budget and least-recently-used eviction.

  Each operation is a function from the cache to the new cache (paired with the result, when there
  is one). The entry's iterator into the LRU list is the key itself: \<open>erase(lru_it)\<close> is \<open>remove1\<close>,
  which the invariant \<open>jwks_ok\<close> (lists without duplicates, in step with the tables) makes the same
  thing. The mutex is dropped while a thread waits for the network; \<open>jwks_op\<close> lists what the other
  threads can do meanwhile, and the trace lemmas quantify over sequences of such operations.
\<close>

section \<open>Model\<close>

record Jwk =
  jwk_kid :: string
  jwk_kty :: string
  jwk_alg :: string
  jwk_use :: string
  jwk_n :: string
  jwk_e :: string
  jwk_crv :: string
  jwk_x :: string
  jwk_y :: string

definition SameKeyMaterial :: "Jwk \<Rightarrow> Jwk \<Rightarrow> bool" where
  "SameKeyMaterial a b \<longleftrightarrow>
     (if jwk_kty a \<noteq> jwk_kty b \<or> jwk_alg a \<noteq> jwk_alg b \<or> jwk_use a \<noteq> jwk_use b then False
      else if jwk_kty a = ''RSA'' then jwk_n a = jwk_n b \<and> jwk_e a = jwk_e b
      else if jwk_kty a = ''EC'' \<or> jwk_kty a = ''OKP''
      then jwk_crv a = jwk_crv b \<and> jwk_x a = jwk_x b \<and> jwk_y a = jwk_y b
      else False)"

text \<open>
  The list version removes from \<open>rem\<close>, for each key of the first list, the first key with the same
  material.
\<close>

fun same_keys_loop :: "Jwk list \<Rightarrow> Jwk list \<Rightarrow> bool" where
  "same_keys_loop [] rem = True"
| "same_keys_loop (ka # as) rem =
     (case find (SameKeyMaterial ka) rem of
        None \<Rightarrow> False
      | Some kb \<Rightarrow> same_keys_loop as (remove1 kb rem))"

definition SameKeyMaterials :: "Jwk list \<Rightarrow> Jwk list \<Rightarrow> bool" where
  "SameKeyMaterials as bs \<longleftrightarrow> length as = length bs \<and> same_keys_loop as bs"

datatype JwksLookupStatus = Hit | Miss | RateLimited

definition kGlobalFetchBudgetWindowSeconds :: seconds where
  "kGlobalFetchBudgetWindowSeconds = 2"

definition kClockResetThresholdSeconds :: seconds where
  "kClockResetThresholdSeconds = 60"

definition kMaxKeysPerKid :: nat where
  "kMaxKeysPerKid = 4"

datatype ClockRel = Forward | MinorRewind | Reset

definition RelateClock :: "seconds \<Rightarrow> seconds \<Rightarrow> ClockRel" where
  "RelateClock now_s stamp_s =
     (if stamp_s \<le> now_s then Forward
      else if stamp_s - now_s \<le> kClockResetThresholdSeconds then MinorRewind
      else Reset)"

record JwksLookup =
  jl_status :: JwksLookupStatus
  jl_keys :: "Jwk list"
  jl_retry_after_s :: seconds

record JwksEntry =
  je_keys :: "Jwk list"
  je_fetched_at_s :: seconds
  je_last_refresh_attempt_s :: seconds
  je_current_reservation_id :: u64
  je_consecutive_absent_count :: int

record JwksCache =
  jc_min_refresh_s :: seconds
  jc_max_entries :: nat
  jc_last_global_fetch_s :: seconds
  jc_last_successful_fetch_s :: seconds
  jc_last_successful_fetch_by_uri :: "(string \<times> seconds) list"
  jc_throttled_refreshes :: u64
  jc_throttled_budget_refreshes :: u64
  jc_throttled_per_kid_refreshes :: u64
  jc_last_throttled_at_s :: seconds
  jc_last_refresh_reason :: string
  jc_next_reservation_id :: u64
  jc_hit_lru :: "string list"
  jc_miss_lru :: "string list"
  jc_hits :: "(string \<times> JwksEntry) list"
  jc_misses :: "(string \<times> seconds) list"

definition new_JwksCache :: "seconds \<Rightarrow> nat \<Rightarrow> JwksCache" where
  "new_JwksCache min_refresh_s cap =
     \<lparr>jc_min_refresh_s = clamp min_refresh_s 1 3600, jc_max_entries = (if cap = 0 then 1 else cap),
      jc_last_global_fetch_s = 0, jc_last_successful_fetch_s = 0, jc_last_successful_fetch_by_uri = [],
      jc_throttled_refreshes = 0, jc_throttled_budget_refreshes = 0, jc_throttled_per_kid_refreshes = 0,
      jc_last_throttled_at_s = 0, jc_last_refresh_reason = [], jc_next_reservation_id = 1,
      jc_hit_lru = [], jc_miss_lru = [], jc_hits = [], jc_misses = []\<rparr>"

definition SetMinRefreshSeconds :: "JwksCache \<Rightarrow> seconds \<Rightarrow> JwksCache" where
  "SetMinRefreshSeconds c min_refresh_s = c\<lparr>jc_min_refresh_s := clamp min_refresh_s 1 3600\<rparr>"

definition CacheKey :: "string \<Rightarrow> string \<Rightarrow> string" where
  "CacheKey jwks_uri kid = (if jwks_uri = [] then kid else jwks_uri @ [CHR 0x0A] @ kid)"

definition FindHit :: "JwksCache \<Rightarrow> string \<Rightarrow> string \<Rightarrow> JwksEntry option" where
  "FindHit c jwks_uri kid = map_of (jc_hits c) (CacheKey jwks_uri kid)"

definition FindMiss :: "JwksCache \<Rightarrow> string \<Rightarrow> string \<Rightarrow> seconds option" where
  "FindMiss c jwks_uri kid = map_of (jc_misses c) (CacheKey jwks_uri kid)"

definition TrimToCap :: "JwksEntry \<Rightarrow> JwksEntry" where
  "TrimToCap entry =
     (if kMaxKeysPerKid < length (je_keys entry)
      then entry\<lparr>je_keys := take kMaxKeysPerKid (je_keys entry)\<rparr> else entry)"

definition JwksCache_Lookup :: "JwksCache \<Rightarrow> string \<Rightarrow> seconds \<Rightarrow> string \<Rightarrow> JwksLookup" where
  "JwksCache_Lookup c kid now_s jwks_uri =
     (case FindHit c jwks_uri kid of
        Some e \<Rightarrow> \<lparr>jl_status = Hit, jl_keys = je_keys e, jl_retry_after_s = 0\<rparr>
      | None \<Rightarrow>
          let miss_result = \<lparr>jl_status = Miss, jl_keys = [], jl_retry_after_s = 0\<rparr> in
          (case FindMiss c jwks_uri kid of
             None \<Rightarrow> miss_result
           | Some recorded_at_s \<Rightarrow>
               (case RelateClock now_s recorded_at_s of
                  Forward \<Rightarrow>
                    let elapsed = now_s - recorded_at_s
                    in if elapsed < jc_min_refresh_s c
                       then \<lparr>jl_status = RateLimited, jl_keys = [], jl_retry_after_s = jc_min_refresh_s c - elapsed\<rparr>
                       else miss_result
                | MinorRewind \<Rightarrow> \<lparr>jl_status = RateLimited, jl_keys = [], jl_retry_after_s = jc_min_refresh_s c\<rparr>
                | Reset \<Rightarrow> miss_result)))"

definition RecordJwksFetchSuccess :: "JwksCache \<Rightarrow> seconds \<Rightarrow> string \<Rightarrow> JwksCache" where
  "RecordJwksFetchSuccess c now_s jwks_uri =
     (if jwks_uri \<noteq> []
      then c\<lparr>jc_last_successful_fetch_by_uri := AList.update jwks_uri now_s (jc_last_successful_fetch_by_uri c)\<rparr>
      else c\<lparr>jc_last_successful_fetch_s := now_s\<rparr>)"

text \<open>
  The loops that evict the least recently used key while a table is over its capacity, one for hits
  and one for misses. \<open>back()\<close> of an empty list is undefined in C++; the loop stops there instead,
  and \<open>tbl_ok\<close> below excludes the case.
\<close>

function evict_lru :: "nat \<Rightarrow> string list \<Rightarrow> (string \<times> 'a) list \<Rightarrow> string list \<times> (string \<times> 'a) list" where
  "evict_lru cap lru tbl =
     (if cap < length tbl \<and> lru \<noteq> [] then evict_lru cap (butlast lru) (AList.delete (last lru) tbl)
      else (lru, tbl))"
  by pat_completeness auto
termination
  by (relation "measure (\<lambda>(cap, lru, tbl). length lru)") auto

declare evict_lru.simps [simp del]

definition erase_miss :: "JwksCache \<Rightarrow> string \<Rightarrow> JwksCache" where
  "erase_miss c cache_key =
     (case map_of (jc_misses c) cache_key of
        None \<Rightarrow> c
      | Some _ \<Rightarrow> c\<lparr>jc_miss_lru := remove1 cache_key (jc_miss_lru c), jc_misses := AList.delete cache_key (jc_misses c)\<rparr>)"

definition erase_hit :: "string \<Rightarrow> JwksCache \<Rightarrow> JwksCache" where
  "erase_hit cache_key c =
     (case map_of (jc_hits c) cache_key of
        None \<Rightarrow> c
      | Some _ \<Rightarrow> c\<lparr>jc_hit_lru := remove1 cache_key (jc_hit_lru c), jc_hits := AList.delete cache_key (jc_hits c)\<rparr>)"

definition insert_hit :: "JwksCache \<Rightarrow> string \<Rightarrow> JwksEntry \<Rightarrow> JwksCache" where
  "insert_hit c cache_key entry =
     (let (lru, tbl) = evict_lru (jc_max_entries c) (cache_key # jc_hit_lru c)
            (AList.update cache_key entry (jc_hits c))
      in c\<lparr>jc_hit_lru := lru, jc_hits := tbl\<rparr>)"

definition touch_hit :: "JwksCache \<Rightarrow> string \<Rightarrow> JwksEntry \<Rightarrow> JwksCache" where
  "touch_hit c cache_key entry =
     c\<lparr>jc_hits := AList.update cache_key entry (jc_hits c),
       jc_hit_lru := cache_key # remove1 cache_key (jc_hit_lru c)\<rparr>"

definition OnFetchSuccess :: "JwksCache \<Rightarrow> string \<Rightarrow> Jwk list \<Rightarrow> seconds \<Rightarrow> string \<Rightarrow> JwksCache" where
  "OnFetchSuccess c kid keys now_s jwks_uri =
     (if keys = [] then c
      else
        let cache_key = CacheKey jwks_uri kid;
            c1 = erase_miss (RecordJwksFetchSuccess c now_s jwks_uri) cache_key
        in case FindHit c1 jwks_uri kid of
             Some e \<Rightarrow>
               let e1 = (if \<not> SameKeyMaterials (je_keys e) keys then e\<lparr>je_current_reservation_id := 0\<rparr> else e);
                   e2 = TrimToCap (e1\<lparr>je_keys := keys\<rparr>)
               in touch_hit c1 cache_key
                    (e2\<lparr>je_fetched_at_s := max (je_fetched_at_s e) now_s, je_consecutive_absent_count := 0\<rparr>)
           | None \<Rightarrow>
               insert_hit c1 cache_key
                 (TrimToCap \<lparr>je_keys = keys, je_fetched_at_s = now_s, je_last_refresh_attempt_s = now_s,
                    je_current_reservation_id = 0, je_consecutive_absent_count = 0\<rparr>))"

fun union_keys :: "Jwk list \<Rightarrow> Jwk list \<Rightarrow> Jwk list" where
  "union_keys existing [] = existing"
| "union_keys existing (k # ks) =
     union_keys (if \<exists>x \<in> set existing. SameKeyMaterial x k then existing else existing @ [k]) ks"

text \<open>\<open>while (keys.size() > kMaxKeysPerKid) keys.erase(keys.begin())\<close>.\<close>

fun drop_oldest :: "Jwk list \<Rightarrow> Jwk list" where
  "drop_oldest [] = []"
| "drop_oldest (k # ks) = (if kMaxKeysPerKid < length (k # ks) then drop_oldest ks else k # ks)"

definition OnPassiveFetchSuccess :: "JwksCache \<Rightarrow> string \<Rightarrow> Jwk list \<Rightarrow> seconds \<Rightarrow> string \<Rightarrow> JwksCache" where
  "OnPassiveFetchSuccess c kid keys now_s jwks_uri =
     (if keys = [] then c
      else case FindHit c jwks_uri kid of
        Some e \<Rightarrow>
          c\<lparr>jc_hits := AList.update (CacheKey jwks_uri kid)
              (e\<lparr>je_keys := drop_oldest (union_keys (je_keys e) keys), je_consecutive_absent_count := 0\<rparr>) (jc_hits c)\<rparr>
      | None \<Rightarrow> OnFetchSuccess c kid keys now_s jwks_uri)"

definition reconcile_kid :: "string \<Rightarrow> string \<Rightarrow> string option" where
  "reconcile_kid jwks_uri cache_key =
     (let pre = (if jwks_uri = [] then [] else jwks_uri @ [CHR 0x0A]) in
      if jwks_uri = [] then (if CHR 0x0A \<in> set cache_key then None else Some cache_key)
      else if \<not> starts_with cache_key pre then None else Some (drop (length pre) cache_key))"

text \<open>One round of the loop over \<open>hits_\<close>: the entry as it leaves it and whether it joins \<open>to_evict\<close>.\<close>

definition reconcile_entry :: "string list \<Rightarrow> string \<Rightarrow> string \<Rightarrow> string \<Rightarrow> JwksEntry \<Rightarrow> JwksEntry \<times> bool" where
  "reconcile_entry present_kids jwks_uri exclude_kid cache_key entry =
     (case reconcile_kid jwks_uri cache_key of
        None \<Rightarrow> (entry, False)
      | Some kid \<Rightarrow>
          if exclude_kid \<noteq> [] \<and> kid = exclude_kid then (entry, False)
          else if kid \<in> set present_kids then (entry\<lparr>je_consecutive_absent_count := 0\<rparr>, False)
          else (entry\<lparr>je_consecutive_absent_count := je_consecutive_absent_count entry + 1\<rparr>,
                2 \<le> je_consecutive_absent_count entry + 1))"

definition ReconcileAbsentKids ::
    "JwksCache \<Rightarrow> string list \<Rightarrow> seconds \<Rightarrow> string \<Rightarrow> string \<Rightarrow> JwksCache" where
  "ReconcileAbsentKids c present_kids now_s jwks_uri exclude_kid =
     (let round = reconcile_entry present_kids jwks_uri exclude_kid;
          to_evict = map fst (filter (\<lambda>(k, e). snd (round k e)) (jc_hits c))
      in fold erase_hit to_evict (c\<lparr>jc_hits := map (\<lambda>(k, e). (k, fst (round k e))) (jc_hits c)\<rparr>))"

definition RecordKidAbsent :: "JwksCache \<Rightarrow> string \<Rightarrow> u64 \<Rightarrow> seconds \<Rightarrow> string \<Rightarrow> bool \<times> JwksCache" where
  "RecordKidAbsent c kid reservation_id now_s jwks_uri =
     (case FindHit c jwks_uri kid of
        None \<Rightarrow> (False, c)
      | Some e \<Rightarrow>
          if reservation_id \<noteq> 0 \<and> je_current_reservation_id e \<noteq> reservation_id then (False, c)
          else
            let e' = e\<lparr>je_current_reservation_id := 0, je_last_refresh_attempt_s := now_s,
                       je_consecutive_absent_count := je_consecutive_absent_count e + 1\<rparr>;
                c' = c\<lparr>jc_hits := AList.update (CacheKey jwks_uri kid) e' (jc_hits c)\<rparr>
            in if 2 \<le> je_consecutive_absent_count e' then (True, erase_hit (CacheKey jwks_uri kid) c')
               else (False, c'))"

definition CanFetchJwks :: "JwksCache \<Rightarrow> seconds \<Rightarrow> bool" where
  "CanFetchJwks c now_s \<longleftrightarrow>
     (if jc_last_global_fetch_s c \<le> 0 then True
      else let rel = RelateClock now_s (jc_last_global_fetch_s c) in
        if rel = Reset then True
        else if rel = MinorRewind \<or> now_s - jc_last_global_fetch_s c < kGlobalFetchBudgetWindowSeconds then False
        else True)"

definition HasFreshJwksDocument :: "JwksCache \<Rightarrow> seconds \<Rightarrow> seconds \<Rightarrow> string \<Rightarrow> bool" where
  "HasFreshJwksDocument c now_s window_s jwks_uri \<longleftrightarrow>
     (let last_s = (if jwks_uri \<noteq> []
                    then (case map_of (jc_last_successful_fetch_by_uri c) jwks_uri of None \<Rightarrow> 0 | Some t \<Rightarrow> t)
                    else jc_last_successful_fetch_s c) in
      if last_s \<le> 0 then False
      else if RelateClock now_s last_s \<noteq> Forward then False
      else now_s - last_s < window_s)"

definition RecordJwksFetch :: "JwksCache \<Rightarrow> seconds \<Rightarrow> JwksCache" where
  "RecordJwksFetch c now_s =
     (if 0 < jc_last_global_fetch_s c \<and> RelateClock now_s (jc_last_global_fetch_s c) = Reset
      then c\<lparr>jc_last_global_fetch_s := now_s\<rparr>
      else c\<lparr>jc_last_global_fetch_s := max (jc_last_global_fetch_s c) now_s\<rparr>)"

definition grant_reservation :: "JwksCache \<Rightarrow> string \<Rightarrow> JwksEntry \<Rightarrow> seconds \<Rightarrow> u64 \<times> JwksCache" where
  "grant_reservation c cache_key e now_s =
     (let res_id = jc_next_reservation_id c
      in (res_id, c\<lparr>jc_next_reservation_id := res_id + 1,
                    jc_hits := AList.update cache_key
                      (e\<lparr>je_last_refresh_attempt_s := now_s, je_current_reservation_id := res_id\<rparr>) (jc_hits c)\<rparr>))"

definition TryReserveRefresh :: "JwksCache \<Rightarrow> string \<Rightarrow> seconds \<Rightarrow> string \<Rightarrow> u64 \<times> JwksCache" where
  "TryReserveRefresh c kid now_s jwks_uri =
     (case FindHit c jwks_uri kid of
        None \<Rightarrow> (0, c)
      | Some e \<Rightarrow>
          (case RelateClock now_s (je_last_refresh_attempt_s e) of
             Reset \<Rightarrow> grant_reservation c (CacheKey jwks_uri kid) e now_s
           | MinorRewind \<Rightarrow> (0, c)
           | Forward \<Rightarrow>
               if now_s - je_last_refresh_attempt_s e < jc_min_refresh_s c then (0, c)
               else grant_reservation c (CacheKey jwks_uri kid) e now_s))"

definition CommitRefresh ::
    "JwksCache \<Rightarrow> string \<Rightarrow> u64 \<Rightarrow> Jwk list \<Rightarrow> seconds \<Rightarrow> string \<Rightarrow> bool \<times> JwksCache" where
  "CommitRefresh c kid reservation_id keys now_s jwks_uri =
     (if reservation_id = 0 \<or> keys = [] then (False, c)
      else case FindHit c jwks_uri kid of
        None \<Rightarrow> (False, c)
      | Some e \<Rightarrow>
          if je_current_reservation_id e \<noteq> reservation_id then (False, c)
          else if RelateClock now_s (je_fetched_at_s e) = MinorRewind then (False, c)
          else (True, touch_hit c (CacheKey jwks_uri kid)
                 ((TrimToCap (e\<lparr>je_current_reservation_id := 0, je_consecutive_absent_count := 0, je_keys := keys\<rparr>))
                   \<lparr>je_fetched_at_s := now_s\<rparr>)))"

definition OnFetchMiss :: "JwksCache \<Rightarrow> string \<Rightarrow> seconds \<Rightarrow> string \<Rightarrow> JwksCache" where
  "OnFetchMiss c kid now_s jwks_uri =
     (let cache_key = CacheKey jwks_uri kid;
          c1 = erase_miss c cache_key;
          (lru, tbl) = evict_lru (jc_max_entries c1) (cache_key # jc_miss_lru c1)
            (AList.update cache_key now_s (jc_misses c1))
      in c1\<lparr>jc_miss_lru := lru, jc_misses := tbl\<rparr>)"

definition IncrementThrottledRefreshes :: "JwksCache \<Rightarrow> bool \<Rightarrow> seconds \<Rightarrow> JwksCache" where
  "IncrementThrottledRefreshes c is_budget now_s =
     (let c1 = c\<lparr>jc_throttled_refreshes := jc_throttled_refreshes c + 1\<rparr>;
          c2 = (if is_budget then c1\<lparr>jc_throttled_budget_refreshes := jc_throttled_budget_refreshes c1 + 1\<rparr>
                else c1\<lparr>jc_throttled_per_kid_refreshes := jc_throttled_per_kid_refreshes c1 + 1\<rparr>)
      in if 0 < now_s then c2\<lparr>jc_last_throttled_at_s := now_s\<rparr> else c2)"

definition SetLastRefreshReason :: "JwksCache \<Rightarrow> string \<Rightarrow> JwksCache" where
  "SetLastRefreshReason c r = c\<lparr>jc_last_refresh_reason := r\<rparr>"

definition JwksCache_Size :: "JwksCache \<Rightarrow> nat" where
  "JwksCache_Size c = length (jc_hits c)"

definition MissSize :: "JwksCache \<Rightarrow> nat" where
  "MissSize c = length (jc_misses c)"

section \<open>Histories of operations\<close>

text \<open>Every mutating call another thread can make on the shared cache, in any order.\<close>

datatype jwks_op =
    OpFetchSuccess string "Jwk list" seconds string
  | OpPassive string "Jwk list" seconds string
  | OpReconcile "string list" seconds string string
  | OpAbsent string u64 seconds string
  | OpMiss string seconds string
  | OpFetch seconds
  | OpFetched seconds string
  | OpReserve string seconds string
  | OpCommit string u64 "Jwk list" seconds string
  | OpThrottled bool seconds
  | OpReason string
  | OpMinRefresh seconds

fun jwks_step :: "jwks_op \<Rightarrow> JwksCache \<Rightarrow> JwksCache" where
  "jwks_step (OpFetchSuccess kid keys now uri) c = OnFetchSuccess c kid keys now uri"
| "jwks_step (OpPassive kid keys now uri) c = OnPassiveFetchSuccess c kid keys now uri"
| "jwks_step (OpReconcile present now uri excl) c = ReconcileAbsentKids c present now uri excl"
| "jwks_step (OpAbsent kid rid now uri) c = snd (RecordKidAbsent c kid rid now uri)"
| "jwks_step (OpMiss kid now uri) c = OnFetchMiss c kid now uri"
| "jwks_step (OpFetch now) c = RecordJwksFetch c now"
| "jwks_step (OpFetched now uri) c = RecordJwksFetchSuccess c now uri"
| "jwks_step (OpReserve kid now uri) c = snd (TryReserveRefresh c kid now uri)"
| "jwks_step (OpCommit kid rid keys now uri) c = snd (CommitRefresh c kid rid keys now uri)"
| "jwks_step (OpThrottled b now) c = IncrementThrottledRefreshes c b now"
| "jwks_step (OpReason r) c = SetLastRefreshReason c r"
| "jwks_step (OpMinRefresh m) c = SetMinRefreshSeconds c m"

definition jwks_run :: "jwks_op list \<Rightarrow> JwksCache \<Rightarrow> JwksCache" where
  "jwks_run ops c = fold jwks_step ops c"

section \<open>Invariant\<close>

text \<open>A capped table and its LRU list: no duplicates, the same keys, within the capacity.\<close>

definition in_step :: "string list \<Rightarrow> (string \<times> 'a) list \<Rightarrow> bool" where
  "in_step lru tbl \<longleftrightarrow> distinct (map fst tbl) \<and> distinct lru \<and> set lru = fst ` set tbl"

definition tbl_ok :: "nat \<Rightarrow> string list \<Rightarrow> (string \<times> 'a) list \<Rightarrow> bool" where
  "tbl_ok cap lru tbl \<longleftrightarrow> in_step lru tbl \<and> length tbl \<le> cap"

definition entry_ok :: "JwksEntry \<Rightarrow> bool" where
  "entry_ok e \<longleftrightarrow> je_keys e \<noteq> [] \<and> length (je_keys e) \<le> kMaxKeysPerKid \<and>
     (je_consecutive_absent_count e = 0 \<or> je_consecutive_absent_count e = 1)"

definition jwks_ok :: "JwksCache \<Rightarrow> bool" where
  "jwks_ok c \<longleftrightarrow>
     tbl_ok (jc_max_entries c) (jc_hit_lru c) (jc_hits c) \<and>
     tbl_ok (jc_max_entries c) (jc_miss_lru c) (jc_misses c) \<and>
     (\<forall>k e. map_of (jc_hits c) k = Some e \<longrightarrow> entry_ok e) \<and>
     1 \<le> jc_max_entries c \<and> 1 \<le> jc_min_refresh_s c \<and> jc_min_refresh_s c \<le> 3600"

subsection \<open>Capped tables\<close>

lemma in_step_length: "in_step lru tbl \<Longrightarrow> length lru = length tbl"
  unfolding in_step_def by (metis distinct_card length_map set_map)

lemma in_step_delete: "in_step lru tbl \<Longrightarrow> in_step (remove1 k lru) (AList.delete k tbl)"
  unfolding in_step_def set_map [symmetric] delete_keys by (auto simp: distinct_removeAll)

lemma in_step_touch:
  "in_step lru tbl \<Longrightarrow> k \<in> fst ` set tbl \<Longrightarrow> in_step (k # remove1 k lru) (AList.update k v tbl)"
  by (auto simp: in_step_def distinct_update dom_update)

lemma in_step_update: "in_step lru tbl \<Longrightarrow> k \<in> fst ` set tbl \<Longrightarrow> in_step lru (AList.update k v tbl)"
  by (auto simp: in_step_def distinct_update dom_update)

lemma in_step_push: "in_step lru tbl \<Longrightarrow> k \<notin> fst ` set tbl \<Longrightarrow> in_step (k # lru) (AList.update k v tbl)"
  by (auto simp: in_step_def distinct_update dom_update)

lemma tbl_ok_delete: "tbl_ok cap lru tbl \<Longrightarrow> tbl_ok cap (remove1 k lru) (AList.delete k tbl)"
  using length_delete_le [of k tbl] by (simp add: tbl_ok_def in_step_delete)

lemma tbl_ok_touch:
  "tbl_ok cap lru tbl \<Longrightarrow> k \<in> fst ` set tbl \<Longrightarrow> tbl_ok cap (k # remove1 k lru) (AList.update k v tbl)"
  by (simp add: tbl_ok_def in_step_touch length_update)

lemma tbl_ok_update: "tbl_ok cap lru tbl \<Longrightarrow> k \<in> fst ` set tbl \<Longrightarrow> tbl_ok cap lru (AList.update k v tbl)"
  by (simp add: tbl_ok_def in_step_update length_update)

lemma evict_lru_spec:
  "in_step lru tbl \<Longrightarrow>
     tbl_ok cap (fst (evict_lru cap lru tbl)) (snd (evict_lru cap lru tbl)) \<and>
     map_of (snd (evict_lru cap lru tbl)) k = (if k \<in> set (take cap lru) then map_of tbl k else None)"
proof (induction cap lru tbl rule: evict_lru.induct)
  case (1 cap lru tbl)
  have len: "length lru = length tbl" using "1.prems" by (rule in_step_length)
  show ?case
  proof (cases "cap < length tbl")
    case True
    with len have ne: "lru \<noteq> []" by auto
    then obtain xs x where lru: "lru = xs @ [x]" by (metis append_butlast_last_id)
    with "1.prems" have x: "x \<notin> set xs" by (simp add: in_step_def)
    then have step: "in_step (butlast lru) (AList.delete (last lru) tbl)"
      using in_step_delete [OF "1.prems", of x] by (simp add: lru remove1_append)
    have tk: "take cap (butlast lru) = take cap lru" and "last lru \<notin> set (take cap (butlast lru))"
      using True len x by (auto simp: lru dest: in_set_takeD)
    moreover have "evict_lru cap lru tbl = evict_lru cap (butlast lru) (AList.delete (last lru) tbl)"
      using True ne by (simp add: evict_lru.simps [of cap lru])
    ultimately show ?thesis using "1.IH" step True ne by simp
  next
    case False
    then have "evict_lru cap lru tbl = (lru, tbl)" by (simp add: evict_lru.simps [of cap lru])
    with "1.prems" len False show ?thesis by (auto simp: tbl_ok_def in_step_def map_of_eq_None_iff)
  qed
qed

lemma push_spec:
  fixes v :: 'a
  assumes "tbl_ok cap lru tbl" "k \<notin> fst ` set tbl" "1 \<le> cap"
  defines "r \<equiv> evict_lru cap (k # lru) (AList.update k v tbl)"
  shows "tbl_ok cap (fst r) (snd r)" "map_of (snd r) k = Some v"
    "map_of (snd r) k' = Some w \<Longrightarrow> k' \<noteq> k \<Longrightarrow> map_of tbl k' = Some w"
    "length tbl < cap \<Longrightarrow> map_of (snd r) k' = ((map_of tbl)(k \<mapsto> v)) k'"
proof -
  have s: "in_step (k # lru) (AList.update k v tbl)" using assms(1,2) by (simp add: tbl_ok_def in_step_push)
  note spec = evict_lru_spec [OF s, of cap, folded r_def]
  show "tbl_ok cap (fst r) (snd r)" using spec by blast
  show "map_of (snd r) k = Some v" using spec [of k] assms(3) by (simp add: take_Cons')
  show "map_of tbl k' = Some w" if "map_of (snd r) k' = Some w" "k' \<noteq> k"
    using spec [of k'] that by (simp split: if_splits)
  show "map_of (snd r) k' = ((map_of tbl)(k \<mapsto> v)) k'" if "length tbl < cap"
  proof -
    have "take cap (k # lru) = k # lru" using assms(1) that by (simp add: tbl_ok_def in_step_length)
    moreover have "map_of tbl k' = None" if "k' \<notin> set lru"
      using that assms(1) by (simp add: tbl_ok_def in_step_def map_of_eq_None_iff)
    ultimately show ?thesis using spec [of k'] by auto
  qed
qed

subsection \<open>Entries\<close>

lemma TrimToCap_simps [simp]:
  "je_keys (TrimToCap e) = take kMaxKeysPerKid (je_keys e)"
  "je_fetched_at_s (TrimToCap e) = je_fetched_at_s e"
  "je_last_refresh_attempt_s (TrimToCap e) = je_last_refresh_attempt_s e"
  "je_current_reservation_id (TrimToCap e) = je_current_reservation_id e"
  "je_consecutive_absent_count (TrimToCap e) = je_consecutive_absent_count e"
  by (simp_all add: TrimToCap_def)

lemma drop_oldest_eq: "drop_oldest ks = drop (length ks - kMaxKeysPerKid) ks"
proof (induction ks)
  case (Cons k ks)
  then show ?case by (simp add: Suc_diff_le)
qed simp

lemma union_keys_spec:
  "set existing \<subseteq> set (union_keys existing ks)" "set (union_keys existing ks) \<subseteq> set existing \<union> set ks"
  "length existing \<le> length (union_keys existing ks)"
  "\<exists>new. union_keys existing ks = existing @ new"
  by (induction existing ks rule: union_keys.induct) (auto split: if_splits)

lemma kMaxKeysPerKid_pos [simp]: "0 < kMaxKeysPerKid" "kMaxKeysPerKid \<noteq> 0"
  by (simp_all add: kMaxKeysPerKid_def)

lemma entry_ok_stored:
  "keys \<noteq> [] \<Longrightarrow> je_keys e = take kMaxKeysPerKid keys \<Longrightarrow> je_consecutive_absent_count e = 0 \<Longrightarrow> entry_ok e"
  by (simp add: entry_ok_def)

lemma entry_ok_passive:
  "entry_ok e \<Longrightarrow> entry_ok (e\<lparr>je_keys := drop_oldest (union_keys (je_keys e) ks), je_consecutive_absent_count := 0\<rparr>)"
  using union_keys_spec(3) [of "je_keys e" ks]
  by (cases "je_keys e") (auto simp: entry_ok_def drop_oldest_eq kMaxKeysPerKid_def)

subsection \<open>What each operation does to the tables\<close>

lemma RecordJwksFetchSuccess_frame [qo_frame, simp]:
  "jc_hits (RecordJwksFetchSuccess c now uri) = jc_hits c"
  "jc_hit_lru (RecordJwksFetchSuccess c now uri) = jc_hit_lru c"
  "jc_misses (RecordJwksFetchSuccess c now uri) = jc_misses c"
  "jc_miss_lru (RecordJwksFetchSuccess c now uri) = jc_miss_lru c"
  "jc_max_entries (RecordJwksFetchSuccess c now uri) = jc_max_entries c"
  "jc_min_refresh_s (RecordJwksFetchSuccess c now uri) = jc_min_refresh_s c"
  "jc_next_reservation_id (RecordJwksFetchSuccess c now uri) = jc_next_reservation_id c"
  "jc_last_global_fetch_s (RecordJwksFetchSuccess c now uri) = jc_last_global_fetch_s c"
  by (simp_all add: RecordJwksFetchSuccess_def)

lemma erase_miss_frame [qo_frame, simp]:
  "jc_hits (erase_miss c k) = jc_hits c" "jc_hit_lru (erase_miss c k) = jc_hit_lru c"
  "jc_max_entries (erase_miss c k) = jc_max_entries c" "jc_min_refresh_s (erase_miss c k) = jc_min_refresh_s c"
  "jc_next_reservation_id (erase_miss c k) = jc_next_reservation_id c"
  "jc_last_global_fetch_s (erase_miss c k) = jc_last_global_fetch_s c"
  by (simp_all add: erase_miss_def split: option.split)

lemma erase_miss_tables:
  "map_of (jc_misses (erase_miss c k)) = (map_of (jc_misses c))(k := None)"
  "tbl_ok cap (jc_miss_lru c) (jc_misses c) \<Longrightarrow> tbl_ok cap (jc_miss_lru (erase_miss c k)) (jc_misses (erase_miss c k))"
  by (auto simp: erase_miss_def tbl_ok_delete split: option.split)

lemma erase_hit_frame [qo_frame, simp]:
  "jc_misses (erase_hit k c) = jc_misses c" "jc_miss_lru (erase_hit k c) = jc_miss_lru c"
  "jc_max_entries (erase_hit k c) = jc_max_entries c" "jc_min_refresh_s (erase_hit k c) = jc_min_refresh_s c"
  "jc_next_reservation_id (erase_hit k c) = jc_next_reservation_id c"
  "jc_last_global_fetch_s (erase_hit k c) = jc_last_global_fetch_s c"
  by (simp_all add: erase_hit_def split: option.split)

lemma erase_hit_tables:
  "map_of (jc_hits (erase_hit k c)) = (map_of (jc_hits c))(k := None)"
  "tbl_ok cap (jc_hit_lru c) (jc_hits c) \<Longrightarrow> tbl_ok cap (jc_hit_lru (erase_hit k c)) (jc_hits (erase_hit k c))"
  by (auto simp: erase_hit_def tbl_ok_delete split: option.split)

lemma fold_erase_hit:
  "map_of (jc_hits (fold erase_hit ks c)) k = (if k \<in> set ks then None else map_of (jc_hits c) k) \<and>
   (tbl_ok cap (jc_hit_lru c) (jc_hits c) \<longrightarrow>
      tbl_ok cap (jc_hit_lru (fold erase_hit ks c)) (jc_hits (fold erase_hit ks c))) \<and>
   jc_misses (fold erase_hit ks c) = jc_misses c \<and> jc_miss_lru (fold erase_hit ks c) = jc_miss_lru c \<and>
   jc_max_entries (fold erase_hit ks c) = jc_max_entries c \<and> jc_min_refresh_s (fold erase_hit ks c) = jc_min_refresh_s c \<and>
   jc_next_reservation_id (fold erase_hit ks c) = jc_next_reservation_id c \<and>
   jc_last_global_fetch_s (fold erase_hit ks c) = jc_last_global_fetch_s c"
  by (induction ks arbitrary: c) (auto simp: erase_hit_tables)

lemma jwks_okD:
  assumes "jwks_ok c"
  shows "tbl_ok (jc_max_entries c) (jc_hit_lru c) (jc_hits c)" "tbl_ok (jc_max_entries c) (jc_miss_lru c) (jc_misses c)"
    "map_of (jc_hits c) k = Some e \<Longrightarrow> entry_ok e" "1 \<le> jc_max_entries c"
    "1 \<le> jc_min_refresh_s c" "jc_min_refresh_s c \<le> 3600"
  using assms by (auto simp: jwks_ok_def)

lemma map_of_Some_in: "map_of al k = Some v \<Longrightarrow> k \<in> fst ` set al"
  by (metis domI dom_map_of_fst)

lemma insert_hit_spec:
  assumes "jwks_ok c" "map_of (jc_hits c) k = None" "entry_ok e"
  shows "jwks_ok (insert_hit c k e)" "map_of (jc_hits (insert_hit c k e)) k = Some e"
    "map_of (jc_hits (insert_hit c k e)) k' = Some e' \<Longrightarrow> k' \<noteq> k \<Longrightarrow> map_of (jc_hits c) k' = Some e'"
    "jc_misses (insert_hit c k e) = jc_misses c" "jc_next_reservation_id (insert_hit c k e) = jc_next_reservation_id c"
    "jc_last_global_fetch_s (insert_hit c k e) = jc_last_global_fetch_s c"
    "length (jc_hits c) < jc_max_entries c \<Longrightarrow> map_of (jc_hits (insert_hit c k e)) = (map_of (jc_hits c))(k \<mapsto> e)"
proof -
  have k: "k \<notin> fst ` set (jc_hits c)" using assms(2) by (simp add: map_of_eq_None_iff)
  note p = push_spec [OF jwks_okD(1) [OF assms(1)] k jwks_okD(4) [OF assms(1)], of e]
  show "map_of (jc_hits (insert_hit c k e)) k = Some e"
    "map_of (jc_hits (insert_hit c k e)) k' = Some e' \<Longrightarrow> k' \<noteq> k \<Longrightarrow> map_of (jc_hits c) k' = Some e'"
    using p(2,3) by (auto simp: insert_hit_def Let_def split_beta)
  moreover from this have "entry_ok x" if "map_of (jc_hits (insert_hit c k e)) y = Some x" for x y
    using p(3) [of y x] that assms(3) jwks_okD(3) [OF assms(1), of y x]
    by (cases "y = k") (auto simp: insert_hit_def Let_def split_beta)
  ultimately show "jwks_ok (insert_hit c k e)"
    using p(1) assms(1) by (auto simp: jwks_ok_def insert_hit_def Let_def split_beta)
  show "length (jc_hits c) < jc_max_entries c \<Longrightarrow> map_of (jc_hits (insert_hit c k e)) = (map_of (jc_hits c))(k \<mapsto> e)"
    using p(4) by (auto simp: insert_hit_def Let_def split_beta)
qed (simp_all add: insert_hit_def Let_def split_beta)

lemma touch_hit_ok:
  assumes "jwks_ok c" "map_of (jc_hits c) k = Some e0" "entry_ok e"
  shows "jwks_ok (touch_hit c k e)"
  using assms jwks_okD(3) [OF assms(1)] tbl_ok_touch [OF jwks_okD(1) [OF assms(1)] map_of_Some_in [OF assms(2)], of e]
  by (auto simp: jwks_ok_def touch_hit_def)

lemma update_hit_ok:
  assumes "jwks_ok c" "map_of (jc_hits c) k = Some e0" "entry_ok e"
  shows "jwks_ok (c\<lparr>jc_hits := AList.update k e (jc_hits c)\<rparr>)"
  using assms jwks_okD(3) [OF assms(1)] tbl_ok_update [OF jwks_okD(1) [OF assms(1)] map_of_Some_in [OF assms(2)], of e]
  by (auto simp: jwks_ok_def)

subsection \<open>Every operation keeps the invariant\<close>

lemma erase_miss_ok: "jwks_ok c \<Longrightarrow> jwks_ok (erase_miss (RecordJwksFetchSuccess c now uri) k)"
  using erase_miss_tables(2) [of "jc_max_entries c" "RecordJwksFetchSuccess c now uri" k]
  by (simp add: jwks_ok_def)

lemma OnFetchSuccess_hit:
  assumes "jwks_ok c" "keys \<noteq> []"
  shows "\<exists>e. FindHit (OnFetchSuccess c kid keys now uri) uri kid = Some e \<and>
      je_keys e = take kMaxKeysPerKid keys \<and> je_consecutive_absent_count e = 0 \<and>
      (je_current_reservation_id e = 0 \<or>
       (\<exists>e0. FindHit c uri kid = Some e0 \<and> je_current_reservation_id e = je_current_reservation_id e0))"
    and "jwks_ok (OnFetchSuccess c kid keys now uri)"
    and "map_of (jc_hits (OnFetchSuccess c kid keys now uri)) k' = Some e' \<Longrightarrow> k' \<noteq> CacheKey uri kid \<Longrightarrow>
      map_of (jc_hits c) k' = Some e'"
    and "jc_next_reservation_id (OnFetchSuccess c kid keys now uri) = jc_next_reservation_id c"
    and "jc_last_global_fetch_s (OnFetchSuccess c kid keys now uri) = jc_last_global_fetch_s c"
    and "FindMiss (OnFetchSuccess c kid keys now uri) uri kid = None"
proof -
  let ?k = "CacheKey uri kid"
  let ?c1 = "erase_miss (RecordJwksFetchSuccess c now uri) ?k"
  let ?goal = "\<lambda>c'. (\<exists>e. map_of (jc_hits c') ?k = Some e \<and>
      je_keys e = take kMaxKeysPerKid keys \<and> je_consecutive_absent_count e = 0 \<and>
      (je_current_reservation_id e = 0 \<or>
       (\<exists>e0. FindHit c uri kid = Some e0 \<and> je_current_reservation_id e = je_current_reservation_id e0))) \<and>
    jwks_ok c' \<and> (\<forall>k' e'. map_of (jc_hits c') k' = Some e' \<longrightarrow> k' \<noteq> ?k \<longrightarrow> map_of (jc_hits c) k' = Some e') \<and>
    jc_next_reservation_id c' = jc_next_reservation_id c \<and> jc_last_global_fetch_s c' = jc_last_global_fetch_s c \<and>
    map_of (jc_misses c') ?k = None"
  have ok1: "jwks_ok ?c1" using assms(1) by (rule erase_miss_ok)
  have "?goal (OnFetchSuccess c kid keys now uri)"
  proof (cases "FindHit c uri kid")
    case None
    let ?e = "TrimToCap \<lparr>je_keys = keys, je_fetched_at_s = now, je_last_refresh_attempt_s = now,
      je_current_reservation_id = 0, je_consecutive_absent_count = 0\<rparr>"
    have "map_of (jc_hits ?c1) ?k = None" using None by (simp add: FindHit_def)
    note ins = insert_hit_spec [OF ok1 this entry_ok_stored [OF assms(2), of ?e]]
    have "OnFetchSuccess c kid keys now uri = insert_hit ?c1 ?k ?e"
      using assms(2) None by (simp add: OnFetchSuccess_def Let_def FindHit_def)
    then show ?thesis using ins by (auto simp: erase_miss_tables)
  next
    case (Some e0)
    let ?e = "(TrimToCap ((if \<not> SameKeyMaterials (je_keys e0) keys then e0\<lparr>je_current_reservation_id := 0\<rparr> else e0)
      \<lparr>je_keys := keys\<rparr>))\<lparr>je_fetched_at_s := max (je_fetched_at_s e0) now, je_consecutive_absent_count := 0\<rparr>"
    have h: "map_of (jc_hits ?c1) ?k = Some e0" using Some by (simp add: FindHit_def)
    have "OnFetchSuccess c kid keys now uri = touch_hit ?c1 ?k ?e"
      using assms(2) Some by (simp add: OnFetchSuccess_def Let_def FindHit_def)
    moreover have "jwks_ok (touch_hit ?c1 ?k ?e)"
      by (rule touch_hit_ok [OF ok1 h entry_ok_stored [OF assms(2)]]) simp_all
    ultimately show ?thesis using Some by (auto simp: touch_hit_def erase_miss_tables split: if_splits)
  qed
  then show "\<exists>e. FindHit (OnFetchSuccess c kid keys now uri) uri kid = Some e \<and>
      je_keys e = take kMaxKeysPerKid keys \<and> je_consecutive_absent_count e = 0 \<and>
      (je_current_reservation_id e = 0 \<or>
       (\<exists>e0. FindHit c uri kid = Some e0 \<and> je_current_reservation_id e = je_current_reservation_id e0))"
    "jwks_ok (OnFetchSuccess c kid keys now uri)"
    "map_of (jc_hits (OnFetchSuccess c kid keys now uri)) k' = Some e' \<Longrightarrow> k' \<noteq> ?k \<Longrightarrow> map_of (jc_hits c) k' = Some e'"
    "jc_next_reservation_id (OnFetchSuccess c kid keys now uri) = jc_next_reservation_id c"
    "jc_last_global_fetch_s (OnFetchSuccess c kid keys now uri) = jc_last_global_fetch_s c"
    "FindMiss (OnFetchSuccess c kid keys now uri) uri kid = None"
    unfolding FindHit_def FindMiss_def by blast+
qed

lemma OnFetchSuccess_Nil [simp]: "OnFetchSuccess c kid [] now uri = c"
  by (simp add: OnFetchSuccess_def)

lemma OnPassive_cases:
  obtains (none) "OnPassiveFetchSuccess c kid keys now uri = OnFetchSuccess c kid keys now uri"
    "FindHit c uri kid = None \<or> keys = []"
  | (some) e where "FindHit c uri kid = Some e" "keys \<noteq> []"
      "OnPassiveFetchSuccess c kid keys now uri = c\<lparr>jc_hits := AList.update (CacheKey uri kid)
        (e\<lparr>je_keys := drop_oldest (union_keys (je_keys e) keys), je_consecutive_absent_count := 0\<rparr>) (jc_hits c)\<rparr>"
proof (cases "keys = [] \<or> FindHit c uri kid = None")
  case True
  then show ?thesis by (intro none) (auto simp: OnPassiveFetchSuccess_def)
next
  case False
  then obtain e where "FindHit c uri kid = Some e" "keys \<noteq> []" by blast
  then show ?thesis by (intro some [of e]) (simp_all add: OnPassiveFetchSuccess_def)
qed

lemma OnFetchSuccess_ok [qo_inv]: "jwks_ok c \<Longrightarrow> jwks_ok (OnFetchSuccess c kid keys now uri)"
  using OnFetchSuccess_hit(2) by (cases "keys = []") simp_all

lemma OnPassiveFetchSuccess_ok [qo_inv]:
  assumes "jwks_ok c"
  shows "jwks_ok (OnPassiveFetchSuccess c kid keys now uri)"
proof (cases rule: OnPassive_cases [of c kid keys now uri])
  case none
  with assms show ?thesis by (simp add: OnFetchSuccess_ok)
next
  case (some e)
  then have "map_of (jc_hits c) (CacheKey uri kid) = Some e" by (simp add: FindHit_def)
  with some update_hit_ok [OF assms this entry_ok_passive [OF jwks_okD(3) [OF assms this]]]
  show ?thesis by simp
qed

lemma map_of_map_entry: "map_of (map (\<lambda>(k, e). (k, f k e)) al) k = map_option (f k) (map_of al k)"
  by (induction al) auto

lemma Reconcile_hits:
  assumes "jwks_ok c"
  shows "map_of (jc_hits (ReconcileAbsentKids c present now uri excl)) k =
    (case map_of (jc_hits c) k of
       None \<Rightarrow> None
     | Some e \<Rightarrow> if snd (reconcile_entry present uri excl k e) then None
                else Some (fst (reconcile_entry present uri excl k e)))"
proof -
  let ?r = "reconcile_entry present uri excl"
  let ?ev = "map fst (filter (\<lambda>(k, e). snd (?r k e)) (jc_hits c))"
  have d: "distinct (map fst (jc_hits c))" using jwks_okD(1) [OF assms] by (simp add: tbl_ok_def in_step_def)
  have "k \<in> set ?ev \<longleftrightarrow> snd (?r k e)" if "map_of (jc_hits c) k = Some e" for e
    using that d by (force simp: map_of_eq_Some_iff [OF d] dest: eq_key_imp_eq_value)
  moreover have "k \<notin> set ?ev" if "map_of (jc_hits c) k = None"
    using that by (force simp: map_of_eq_None_iff)
  ultimately show ?thesis
    using fold_erase_hit [of ?ev "c\<lparr>jc_hits := map (\<lambda>(k, e). (k, fst (?r k e))) (jc_hits c)\<rparr>" k]
    by (auto simp: ReconcileAbsentKids_def Let_def map_of_map_entry [of "\<lambda>k e. fst (?r k e)"] split: option.split)
qed

lemma ReconcileAbsentKids_frame [qo_frame, simp]:
  "jc_misses (ReconcileAbsentKids c present now uri excl) = jc_misses c"
  "jc_miss_lru (ReconcileAbsentKids c present now uri excl) = jc_miss_lru c"
  "jc_max_entries (ReconcileAbsentKids c present now uri excl) = jc_max_entries c"
  "jc_min_refresh_s (ReconcileAbsentKids c present now uri excl) = jc_min_refresh_s c"
  "jc_next_reservation_id (ReconcileAbsentKids c present now uri excl) = jc_next_reservation_id c"
  "jc_last_global_fetch_s (ReconcileAbsentKids c present now uri excl) = jc_last_global_fetch_s c"
  by (simp_all add: ReconcileAbsentKids_def Let_def fold_erase_hit)

lemma reconcile_entry_cases:
  obtains "reconcile_entry present uri excl k e = (e, False)"
  | "reconcile_entry present uri excl k e = (e\<lparr>je_consecutive_absent_count := 0\<rparr>, False)"
  | "reconcile_entry present uri excl k e = (e\<lparr>je_consecutive_absent_count := je_consecutive_absent_count e + 1\<rparr>,
       2 \<le> je_consecutive_absent_count e + 1)"
proof -
  have "reconcile_entry present uri excl k e = (e, False) \<or>
    reconcile_entry present uri excl k e = (e\<lparr>je_consecutive_absent_count := 0\<rparr>, False) \<or>
    reconcile_entry present uri excl k e = (e\<lparr>je_consecutive_absent_count := je_consecutive_absent_count e + 1\<rparr>,
       2 \<le> je_consecutive_absent_count e + 1)"
    by (simp add: reconcile_entry_def split: option.split)
  with that show ?thesis by blast
qed

lemma reconcile_entry_keeps:
  "je_keys (fst (reconcile_entry present uri excl k e)) = je_keys e"
  "je_current_reservation_id (fst (reconcile_entry present uri excl k e)) = je_current_reservation_id e"
  "entry_ok e \<Longrightarrow> \<not> snd (reconcile_entry present uri excl k e) \<Longrightarrow> entry_ok (fst (reconcile_entry present uri excl k e))"
  by (cases rule: reconcile_entry_cases [of present uri excl k e]; simp add: entry_ok_def; fail)+

lemma ReconcileAbsentKids_ok [qo_inv]:
  assumes "jwks_ok c"
  shows "jwks_ok (ReconcileAbsentKids c present now uri excl)"
proof -
  let ?c = "ReconcileAbsentKids c present now uri excl"
  let ?r = "reconcile_entry present uri excl"
  let ?h = "map (\<lambda>(k, e). (k, fst (?r k e))) (jc_hits c)"
  have f: "map fst ?h = map fst (jc_hits c)" by (simp add: split_beta)
  then have "fst ` set ?h = fst ` set (jc_hits c)" by (metis list.set_map)
  moreover have "length ?h = length (jc_hits c)" by simp
  ultimately have "tbl_ok (jc_max_entries c) (jc_hit_lru c) ?h"
    using jwks_okD(1) [OF assms] unfolding tbl_ok_def in_step_def f by metis
  then have "tbl_ok (jc_max_entries c) (jc_hit_lru ?c) (jc_hits ?c)"
    by (simp add: ReconcileAbsentKids_def Let_def fold_erase_hit)
  moreover have "entry_ok e" if "map_of (jc_hits ?c) k = Some e" for k e
    using that reconcile_entry_keeps(3) jwks_okD(3) [OF assms]
    by (auto simp: Reconcile_hits [OF assms] split: option.splits if_splits)
  ultimately show ?thesis using assms by (simp add: jwks_ok_def)
qed

text \<open>The ways \<open>RecordKidAbsent\<close>, \<open>TryReserveRefresh\<close> and \<open>CommitRefresh\<close> can end.\<close>

lemma RecordKidAbsent_cases:
  obtains (unchanged) "RecordKidAbsent c kid rid now uri = (False, c)"
    "FindHit c uri kid = None \<or> (\<exists>e. FindHit c uri kid = Some e \<and> rid \<noteq> 0 \<and> je_current_reservation_id e \<noteq> rid)"
  | (counted) e where "FindHit c uri kid = Some e" "je_consecutive_absent_count e < 1"
      "RecordKidAbsent c kid rid now uri = (False, c\<lparr>jc_hits := AList.update (CacheKey uri kid)
        (e\<lparr>je_current_reservation_id := 0, je_last_refresh_attempt_s := now,
           je_consecutive_absent_count := je_consecutive_absent_count e + 1\<rparr>) (jc_hits c)\<rparr>)"
  | (evicted) e c' where "FindHit c uri kid = Some e" "1 \<le> je_consecutive_absent_count e"
      "RecordKidAbsent c kid rid now uri = (True, erase_hit (CacheKey uri kid) c')"
      "c' = c\<lparr>jc_hits := AList.update (CacheKey uri kid)
        (e\<lparr>je_current_reservation_id := 0, je_last_refresh_attempt_s := now,
           je_consecutive_absent_count := je_consecutive_absent_count e + 1\<rparr>) (jc_hits c)\<rparr>"
proof (cases "FindHit c uri kid")
  case None
  then show ?thesis by (intro unchanged) (simp_all add: RecordKidAbsent_def)
next
  case (Some e)
  consider "rid \<noteq> 0 \<and> je_current_reservation_id e \<noteq> rid"
    | "\<not> (rid \<noteq> 0 \<and> je_current_reservation_id e \<noteq> rid)" "je_consecutive_absent_count e < 1"
    | "\<not> (rid \<noteq> 0 \<and> je_current_reservation_id e \<noteq> rid)" "1 \<le> je_consecutive_absent_count e" by linarith
  then show ?thesis
  proof cases
    case 1
    then show ?thesis using Some by (intro unchanged) (simp_all add: RecordKidAbsent_def)
  next
    case 2
    then show ?thesis using Some by (intro counted [of e]) (auto simp: RecordKidAbsent_def Let_def)
  next
    case 3
    then show ?thesis using Some by (intro evicted [OF Some _ _ refl]) (auto simp: RecordKidAbsent_def Let_def)
  qed
qed

lemma RecordKidAbsent_ok [qo_inv]:
  assumes "jwks_ok c"
  shows "jwks_ok (snd (RecordKidAbsent c kid rid now uri))"
proof (cases rule: RecordKidAbsent_cases [of c kid rid now uri])
  case unchanged
  with assms show ?thesis by simp
next
  case (counted e)
  then have h: "map_of (jc_hits c) (CacheKey uri kid) = Some e" by (simp add: FindHit_def)
  from jwks_okD(3) [OF assms h] counted(2)
  have "entry_ok (e\<lparr>je_current_reservation_id := 0, je_last_refresh_attempt_s := now,
      je_consecutive_absent_count := je_consecutive_absent_count e + 1\<rparr>)" by (auto simp: entry_ok_def)
  from update_hit_ok [OF assms h this] counted(3) show ?thesis by simp
next
  case (evicted e c')
  then have h: "map_of (jc_hits c) (CacheKey uri kid) = Some e" by (simp add: FindHit_def)
  have t: "tbl_ok (jc_max_entries c) (jc_hit_lru c') (jc_hits c')"
    using tbl_ok_update [OF jwks_okD(1) [OF assms] map_of_Some_in [OF h]] by (simp add: evicted(4))
  have "map_of (jc_hits (erase_hit (CacheKey uri kid) c')) k = Some x \<Longrightarrow> entry_ok x" for k x
    using jwks_okD(3) [OF assms] by (auto simp: erase_hit_tables evicted(4) split: if_splits)
  with assms erase_hit_tables(2) [OF t] evicted(3,4) show ?thesis by (simp add: jwks_ok_def)
qed

lemma TryReserveRefresh_cases:
  obtains (refused) "TryReserveRefresh c kid now uri = (0, c)"
  | (granted) e where "FindHit c uri kid = Some e"
      "TryReserveRefresh c kid now uri = grant_reservation c (CacheKey uri kid) e now"
      "jc_min_refresh_s c \<le> now - je_last_refresh_attempt_s e \<or>
       kClockResetThresholdSeconds < je_last_refresh_attempt_s e - now"
proof (cases "FindHit c uri kid")
  case None
  then show ?thesis by (intro refused) (simp add: TryReserveRefresh_def)
next
  case (Some e)
  show ?thesis
  proof (cases "RelateClock now (je_last_refresh_attempt_s e) = Reset \<or>
      RelateClock now (je_last_refresh_attempt_s e) = Forward \<and> jc_min_refresh_s c \<le> now - je_last_refresh_attempt_s e")
    case True
    then show ?thesis
      using Some by (intro granted [of e]) (auto simp: TryReserveRefresh_def RelateClock_def split: if_splits)
  next
    case False
    then show ?thesis
      using Some by (intro refused) (auto simp: TryReserveRefresh_def split: ClockRel.split)
  qed
qed

lemma TryReserveRefresh_ok [qo_inv]:
  assumes "jwks_ok c"
  shows "jwks_ok (snd (TryReserveRefresh c kid now uri))"
proof (cases rule: TryReserveRefresh_cases [of c kid now uri])
  case refused
  with assms show ?thesis by simp
next
  case (granted e)
  then have h: "map_of (jc_hits c) (CacheKey uri kid) = Some e" by (simp add: FindHit_def)
  let ?e = "e\<lparr>je_last_refresh_attempt_s := now, je_current_reservation_id := jc_next_reservation_id c\<rparr>"
  have "entry_ok ?e" using jwks_okD(3) [OF assms h] by (simp add: entry_ok_def)
  from update_hit_ok [OF assms h this] granted(2) show ?thesis
    by (simp add: grant_reservation_def Let_def jwks_ok_def)
qed

lemma CommitRefresh_cases:
  obtains (refused) "CommitRefresh c kid rid keys now uri = (False, c)"
  | (committed) e e' where "FindHit c uri kid = Some e" "keys \<noteq> []" "rid \<noteq> 0" "je_current_reservation_id e = rid"
      "CommitRefresh c kid rid keys now uri = (True, touch_hit c (CacheKey uri kid) e')"
      "je_keys e' = take kMaxKeysPerKid keys" "je_current_reservation_id e' = 0" "je_consecutive_absent_count e' = 0"
proof (cases "FindHit c uri kid")
  case None
  then show ?thesis by (intro refused) (simp add: CommitRefresh_def)
next
  case (Some e)
  show ?thesis
  proof (cases "rid = 0 \<or> keys = [] \<or> je_current_reservation_id e \<noteq> rid \<or> RelateClock now (je_fetched_at_s e) = MinorRewind")
    case True
    then show ?thesis using Some by (intro refused) (auto simp: CommitRefresh_def)
  next
    case False
    let ?e = "(TrimToCap (e\<lparr>je_current_reservation_id := 0, je_consecutive_absent_count := 0, je_keys := keys\<rparr>))
      \<lparr>je_fetched_at_s := now\<rparr>"
    show ?thesis using Some False by (intro committed [of e ?e]) (simp_all add: CommitRefresh_def)
  qed
qed

lemma CommitRefresh_ok [qo_inv]:
  assumes "jwks_ok c"
  shows "jwks_ok (snd (CommitRefresh c kid rid keys now uri))"
proof (cases rule: CommitRefresh_cases [of c kid rid keys now uri])
  case refused
  with assms show ?thesis by simp
next
  case (committed e e')
  then have "map_of (jc_hits c) (CacheKey uri kid) = Some e" by (simp add: FindHit_def)
  from touch_hit_ok [OF assms this entry_ok_stored [OF committed(2,6,8)]] committed(5) show ?thesis by simp
qed

lemma OnFetchMiss_ok [qo_inv]:
  assumes "jwks_ok c"
  shows "jwks_ok (OnFetchMiss c kid now uri)"
    and "jc_hits (OnFetchMiss c kid now uri) = jc_hits c"
    and "jc_next_reservation_id (OnFetchMiss c kid now uri) = jc_next_reservation_id c"
    and "jc_last_global_fetch_s (OnFetchMiss c kid now uri) = jc_last_global_fetch_s c"
    and "FindMiss (OnFetchMiss c kid now uri) uri kid = Some now"
proof -
  let ?k = "CacheKey uri kid"
  let ?c1 = "erase_miss c ?k"
  have t: "tbl_ok (jc_max_entries c) (jc_miss_lru ?c1) (jc_misses ?c1)"
    using erase_miss_tables(2) [OF jwks_okD(2) [OF assms]] .
  have "map_of (jc_misses ?c1) ?k = None" by (simp add: erase_miss_tables)
  then have "?k \<notin> fst ` set (jc_misses ?c1)" by (simp add: map_of_eq_None_iff)
  note p = push_spec [OF t this jwks_okD(4) [OF assms], of now]
  show "jwks_ok (OnFetchMiss c kid now uri)"
    using p(1) assms by (simp add: OnFetchMiss_def Let_def split_beta jwks_ok_def)
  show "FindMiss (OnFetchMiss c kid now uri) uri kid = Some now"
    using p(2) by (simp add: OnFetchMiss_def Let_def split_beta FindMiss_def)
qed (simp_all add: OnFetchMiss_def Let_def split_beta)

lemma simple_ops_ok [qo_inv]:
  "jwks_ok c \<Longrightarrow> jwks_ok (RecordJwksFetch c now)"
  "jwks_ok c \<Longrightarrow> jwks_ok (RecordJwksFetchSuccess c now uri)"
  "jwks_ok c \<Longrightarrow> jwks_ok (IncrementThrottledRefreshes c b now)"
  "jwks_ok c \<Longrightarrow> jwks_ok (SetLastRefreshReason c r)"
  "jwks_ok c \<Longrightarrow> jwks_ok (SetMinRefreshSeconds c m)"
  using clamp_bounds [of 1 3600 m]
  by (simp_all add: jwks_ok_def RecordJwksFetch_def IncrementThrottledRefreshes_def Let_def
    SetLastRefreshReason_def SetMinRefreshSeconds_def)

lemma simple_ops_frame [qo_frame, simp]:
  "jc_hits (RecordJwksFetch c now) = jc_hits c" "jc_misses (RecordJwksFetch c now) = jc_misses c"
  "jc_next_reservation_id (RecordJwksFetch c now) = jc_next_reservation_id c"
  "jc_hits (IncrementThrottledRefreshes c b now) = jc_hits c"
  "jc_misses (IncrementThrottledRefreshes c b now) = jc_misses c"
  "jc_next_reservation_id (IncrementThrottledRefreshes c b now) = jc_next_reservation_id c"
  "jc_last_global_fetch_s (IncrementThrottledRefreshes c b now) = jc_last_global_fetch_s c"
  "jc_hits (SetLastRefreshReason c r) = jc_hits c" "jc_misses (SetLastRefreshReason c r) = jc_misses c"
  "jc_next_reservation_id (SetLastRefreshReason c r) = jc_next_reservation_id c"
  "jc_last_global_fetch_s (SetLastRefreshReason c r) = jc_last_global_fetch_s c"
  "jc_hits (SetMinRefreshSeconds c m) = jc_hits c" "jc_misses (SetMinRefreshSeconds c m) = jc_misses c"
  "jc_next_reservation_id (SetMinRefreshSeconds c m) = jc_next_reservation_id c"
  "jc_last_global_fetch_s (SetMinRefreshSeconds c m) = jc_last_global_fetch_s c"
  by (simp_all add: RecordJwksFetch_def IncrementThrottledRefreshes_def Let_def
    SetLastRefreshReason_def SetMinRefreshSeconds_def)

lemma jwks_step_ok [qo_inv]: "jwks_ok c \<Longrightarrow> jwks_ok (jwks_step op c)"
  by (cases op) (simp_all add: qo_inv)

lemma jwks_run_ok [qo_inv]: "jwks_ok c \<Longrightarrow> jwks_ok (jwks_run ops c)"
  by (induction ops arbitrary: c) (simp_all add: jwks_run_def jwks_step_ok)

lemma new_JwksCache_ok: "jwks_ok (new_JwksCache m cap)"
  using clamp_bounds [of 1 3600 m] by (simp add: new_JwksCache_def jwks_ok_def tbl_ok_def in_step_def)

section \<open>Where cached keys and reservations come from\<close>

text \<open>The keys an operation offers under a cache key.\<close>

fun op_keys :: "jwks_op \<Rightarrow> string \<Rightarrow> Jwk set" where
  "op_keys (OpFetchSuccess kid keys now uri) k = (if k = CacheKey uri kid then set keys else {})"
| "op_keys (OpPassive kid keys now uri) k = (if k = CacheKey uri kid then set keys else {})"
| "op_keys (OpCommit kid rid keys now uri) k = (if k = CacheKey uri kid then set keys else {})"
| "op_keys _ k = {}"

definition cached_keys :: "JwksCache \<Rightarrow> string \<Rightarrow> Jwk list" where
  "cached_keys c k = (case map_of (jc_hits c) k of None \<Rightarrow> [] | Some e \<Rightarrow> je_keys e)"

text \<open>How an entry after a step relates to the state before it.\<close>

definition from_before :: "jwks_op \<Rightarrow> JwksCache \<Rightarrow> string \<Rightarrow> JwksEntry \<Rightarrow> bool" where
  "from_before op c k e' \<longleftrightarrow>
     set (je_keys e') \<subseteq> op_keys op k \<union> set (cached_keys c k) \<and>
     (je_current_reservation_id e' = 0 \<or>
      (\<exists>e. map_of (jc_hits c) k = Some e \<and> je_current_reservation_id e' = je_current_reservation_id e) \<or>
      (\<exists>kid now uri. op = OpReserve kid now uri \<and> je_current_reservation_id e' = jc_next_reservation_id c))"

lemma from_before_same [simp]: "map_of (jc_hits c) k = Some e \<Longrightarrow> from_before op c k e"
  by (simp add: from_before_def cached_keys_def)

lemma from_before_FetchSuccess:
  assumes ok: "jwks_ok c" and h: "map_of (jc_hits (OnFetchSuccess c kid keys now uri)) k = Some e"
    and op: "op_keys op (CacheKey uri kid) = set keys"
  shows "from_before op c k e"
proof (cases "keys = [] \<or> k \<noteq> CacheKey uri kid")
  case True
  then have "map_of (jc_hits c) k = Some e" using h OnFetchSuccess_hit(3) [OF ok, of keys kid now uri k e] by (cases "keys = []") auto
  then show ?thesis by simp
next
  case False
  then show ?thesis
    using OnFetchSuccess_hit(1) [OF ok, of keys kid now uri] h op
    by (auto simp: from_before_def FindHit_def dest: in_set_takeD)
qed

lemma from_before_update:
  assumes "map_of (AList.update k' x (jc_hits c)) k = Some e" "map_of (jc_hits c) k' = Some e0" "from_before op c k' x"
  shows "from_before op c k e"
  using assms by (auto split: if_splits)

lemma jwks_step_hit:
  assumes ok: "jwks_ok c" and h: "map_of (jc_hits (jwks_step op c)) k = Some e"
  shows "from_before op c k e"
proof (cases op)
  case (OpFetchSuccess kid keys now uri)
  with ok h show ?thesis by (auto intro: from_before_FetchSuccess)
next
  case (OpPassive kid keys now uri)
  show ?thesis
  proof (cases rule: OnPassive_cases [of c kid keys now uri])
    case none
    with OpPassive ok h show ?thesis by (auto intro: from_before_FetchSuccess)
  next
    case (some e0)
    then have e0: "map_of (jc_hits c) (CacheKey uri kid) = Some e0" by (simp add: FindHit_def)
    have "from_before op c (CacheKey uri kid)
        (e0\<lparr>je_keys := drop_oldest (union_keys (je_keys e0) keys), je_consecutive_absent_count := 0\<rparr>)"
      using e0 OpPassive union_keys_spec(2) [of "je_keys e0" keys]
      by (auto simp: from_before_def cached_keys_def drop_oldest_eq dest!: in_set_dropD)
    with e0 some h OpPassive show ?thesis by (intro from_before_update [of "CacheKey uri kid" _ c k e e0 op]) auto
  qed
next
  case (OpReconcile present now uri excl)
  with h show ?thesis
    by (auto simp: Reconcile_hits [OF ok] from_before_def cached_keys_def reconcile_entry_keeps
      split: option.splits if_splits)
next
  case (OpAbsent kid rid now uri)
  show ?thesis
    using h OpAbsent
    by (cases rule: RecordKidAbsent_cases [of c kid rid now uri])
      (auto simp: erase_hit_tables FindHit_def from_before_def cached_keys_def split: if_splits)
next
  case (OpReserve kid now uri)
  show ?thesis
    using h OpReserve
    by (cases rule: TryReserveRefresh_cases [of c kid now uri])
      (auto simp: FindHit_def from_before_def cached_keys_def grant_reservation_def Let_def split: if_splits)
next
  case (OpCommit kid rid keys now uri)
  show ?thesis
    using h OpCommit
    by (cases rule: CommitRefresh_cases [of c kid rid keys now uri])
      (auto simp: FindHit_def from_before_def cached_keys_def touch_hit_def split: if_splits dest: in_set_takeD)
qed (use ok h in \<open>simp_all add: OnFetchMiss_ok\<close>)

lemma jwks_run_keys:
  "jwks_ok c \<Longrightarrow> map_of (jc_hits (jwks_run ops c)) k = Some e \<Longrightarrow>
     set (je_keys e) \<subseteq> (\<Union>op \<in> set ops. op_keys op k) \<union> set (cached_keys c k)"
proof (induction ops arbitrary: c)
  case Nil
  then show ?case by (simp add: jwks_run_def cached_keys_def)
next
  case (Cons op ops)
  let ?c = "jwks_step op c"
  have "set (je_keys e) \<subseteq> (\<Union>op \<in> set ops. op_keys op k) \<union> set (cached_keys ?c k)"
    using Cons.IH [of ?c] Cons.prems jwks_step_ok [of c op] by (simp add: jwks_run_def)
  moreover have "set (cached_keys ?c k) \<subseteq> op_keys op k \<union> set (cached_keys c k)"
    using jwks_step_hit [OF Cons.prems(1), of op k]
    by (cases "map_of (jc_hits ?c) k") (simp_all add: cached_keys_def [of ?c] from_before_def)
  ultimately show ?case by auto
qed

lemma cached_keys_run:
  "jwks_ok c \<Longrightarrow> set (cached_keys (jwks_run ops c) k) \<subseteq> (\<Union>op \<in> set ops. op_keys op k) \<union> set (cached_keys c k)"
  using jwks_run_keys [of c ops k]
  by (cases "map_of (jc_hits (jwks_run ops c)) k") (simp_all add: cached_keys_def [of "jwks_run ops c"])

subsection \<open>Reservations order concurrent refreshes\<close>

text \<open>Reservation \<open>rid\<close> was given out before but is no longer the one pending under \<open>k\<close>.\<close>

definition superseded :: "JwksCache \<Rightarrow> string \<Rightarrow> u64 \<Rightarrow> bool" where
  "superseded c k rid \<longleftrightarrow> rid \<noteq> 0 \<and> unat rid < unat (jc_next_reservation_id c) \<and>
     (\<forall>e. map_of (jc_hits c) k = Some e \<longrightarrow> je_current_reservation_id e \<noteq> rid)"

lemma next_id_step:
  assumes ok: "jwks_ok c" and wrap: "unat (jc_next_reservation_id c) + 1 < 2 ^ 64"
  shows "unat (jc_next_reservation_id c) \<le> unat (jc_next_reservation_id (jwks_step op c)) \<and>
    unat (jc_next_reservation_id (jwks_step op c)) \<le> unat (jc_next_reservation_id c) + 1"
proof -
  have "jc_next_reservation_id (jwks_step op c) = jc_next_reservation_id c \<or>
      jc_next_reservation_id (jwks_step op c) = jc_next_reservation_id c + 1"
  proof (cases op)
    case (OpFetchSuccess kid keys now uri)
    with ok show ?thesis by (cases "keys = []") (simp_all add: OnFetchSuccess_hit)
  next
    case (OpPassive kid keys now uri)
    with ok show ?thesis
      by (cases rule: OnPassive_cases [of c kid keys now uri]; cases "keys = []") (simp_all add: OnFetchSuccess_hit)
  next
    case (OpAbsent kid rid now uri)
    then show ?thesis by (cases rule: RecordKidAbsent_cases [of c kid rid now uri]) simp_all
  next
    case (OpReserve kid now uri)
    then show ?thesis
      by (cases rule: TryReserveRefresh_cases [of c kid now uri]) (simp_all add: grant_reservation_def Let_def)
  next
    case (OpCommit kid rid keys now uri)
    then show ?thesis by (cases rule: CommitRefresh_cases [of c kid rid keys now uri]) (simp_all add: touch_hit_def)
  qed (use ok in \<open>simp_all add: OnFetchMiss_ok\<close>)
  with wrap show ?thesis by (auto simp: unat_word_ariths)
qed

lemma superseded_step:
  assumes "jwks_ok c" "unat (jc_next_reservation_id c) + 1 < 2 ^ 64" "superseded c k rid"
  shows "superseded (jwks_step op c) k rid"
proof -
  have "unat rid < unat (jc_next_reservation_id (jwks_step op c))"
    using next_id_step [OF assms(1,2), of op] assms(3) by (simp add: superseded_def)
  moreover have "je_current_reservation_id e \<noteq> rid" if "map_of (jc_hits (jwks_step op c)) k = Some e" for e
    using jwks_step_hit [OF assms(1) that] assms(3) by (auto simp: from_before_def superseded_def)
  ultimately show ?thesis using assms(3) by (simp add: superseded_def)
qed

lemma superseded_run:
  "jwks_ok c \<Longrightarrow> unat (jc_next_reservation_id c) + length ops < 2 ^ 64 \<Longrightarrow> superseded c k rid \<Longrightarrow>
     superseded (jwks_run ops c) k rid"
proof (induction ops arbitrary: c)
  case (Cons op ops)
  then have "unat (jc_next_reservation_id c) + 1 < 2 ^ 64" by simp
  from Cons.IH [of "jwks_step op c"] Cons.prems next_id_step [OF Cons.prems(1) this, of op]
    superseded_step [OF Cons.prems(1) this Cons.prems(3), of op]
  show ?case by (simp add: jwks_run_def jwks_step_ok)
qed (simp add: jwks_run_def)

lemma next_id_run:
  "jwks_ok c \<Longrightarrow> unat (jc_next_reservation_id c) + length ops < 2 ^ 64 \<Longrightarrow>
     unat (jc_next_reservation_id c) \<le> unat (jc_next_reservation_id (jwks_run ops c)) \<and>
     unat (jc_next_reservation_id (jwks_run ops c)) \<le> unat (jc_next_reservation_id c) + length ops"
proof (induction ops arbitrary: c)
  case (Cons op ops)
  then have "unat (jc_next_reservation_id c) + 1 < 2 ^ 64" by simp
  from Cons.IH [of "jwks_step op c"] Cons.prems next_id_step [OF Cons.prems(1) this, of op]
  show ?case by (simp add: jwks_run_def jwks_step_ok)
qed (simp add: jwks_run_def)

lemma superseded_commit: "superseded c (CacheKey uri kid) rid \<Longrightarrow> CommitRefresh c kid rid keys now uri = (False, c)"
  by (auto simp: CommitRefresh_def superseded_def FindHit_def split: option.split)

subsection \<open>Refresh attempts of one key\<close>

fun op_time :: "jwks_op \<Rightarrow> seconds option" where
  "op_time (OpFetchSuccess kid keys now uri) = Some now"
| "op_time (OpPassive kid keys now uri) = Some now"
| "op_time (OpReconcile present now uri excl) = Some now"
| "op_time (OpAbsent kid rid now uri) = Some now"
| "op_time (OpMiss kid now uri) = Some now"
| "op_time (OpFetch now) = Some now"
| "op_time (OpFetched now uri) = Some now"
| "op_time (OpReserve kid now uri) = Some now"
| "op_time (OpCommit kid rid keys now uri) = Some now"
| "op_time (OpThrottled b now) = Some now"
| "op_time (OpReason r) = None"
| "op_time (OpMinRefresh m) = None"

definition within :: "seconds \<Rightarrow> seconds \<Rightarrow> jwks_op \<Rightarrow> bool" where
  "within lo hi op \<longleftrightarrow> (case op_time op of None \<Rightarrow> True | Some now \<Rightarrow> lo \<le> now \<and> now \<le> hi)"

text \<open>The last refresh attempt of the entry under \<open>k\<close>, if there is one, falls between \<open>lo\<close> and \<open>hi\<close>.\<close>

definition attempted_in :: "seconds \<Rightarrow> seconds \<Rightarrow> string \<Rightarrow> JwksCache \<Rightarrow> bool" where
  "attempted_in lo hi k c \<longleftrightarrow>
     (\<forall>e. map_of (jc_hits c) k = Some e \<longrightarrow> lo \<le> je_last_refresh_attempt_s e \<and> je_last_refresh_attempt_s e \<le> hi)"

lemma attempted_in_FetchSuccess:
  assumes ok: "jwks_ok c" and t: "lo \<le> now" "now \<le> hi" and a: "attempted_in lo hi k c"
  shows "attempted_in lo hi k (OnFetchSuccess c kid keys now uri)"
proof (cases "keys = [] \<or> k \<noteq> CacheKey uri kid")
  case True
  then show ?thesis
    using OnFetchSuccess_hit(3) [OF ok, of keys kid now uri k] a by (cases "keys = []") (auto simp: attempted_in_def)
next
  case False
  let ?c1 = "erase_miss (RecordJwksFetchSuccess c now uri) k"
  have ok1: "jwks_ok ?c1" using ok by (rule erase_miss_ok)
  show ?thesis
  proof (cases "map_of (jc_hits c) k")
    case None
    let ?e = "TrimToCap \<lparr>je_keys = keys, je_fetched_at_s = now, je_last_refresh_attempt_s = now,
      je_current_reservation_id = 0, je_consecutive_absent_count = 0\<rparr>"
    have "map_of (jc_hits (insert_hit ?c1 k ?e)) k = Some ?e"
      using False None by (intro insert_hit_spec(2) [OF ok1] entry_ok_stored [of keys]) simp_all
    then show ?thesis
      using False None t by (simp add: OnFetchSuccess_def Let_def FindHit_def attempted_in_def)
  next
    case (Some e)
    with False a show ?thesis
      by (auto simp: OnFetchSuccess_def Let_def FindHit_def attempted_in_def touch_hit_def)
  qed
qed

lemma attempted_in_step:
  assumes ok: "jwks_ok c" and t: "within lo hi op" and a: "attempted_in lo hi k c"
  shows "attempted_in lo hi k (jwks_step op c)"
proof (cases op)
  case (OpFetchSuccess kid keys now uri)
  with assms show ?thesis by (simp add: attempted_in_FetchSuccess within_def)
next
  case (OpPassive kid keys now uri)
  show ?thesis
  proof (cases rule: OnPassive_cases [of c kid keys now uri])
    case none
    with OpPassive assms show ?thesis by (simp add: attempted_in_FetchSuccess within_def)
  next
    case (some e)
    with OpPassive a show ?thesis by (auto simp: FindHit_def attempted_in_def)
  qed
next
  case (OpReconcile present now uri excl)
  have "je_last_refresh_attempt_s (fst (reconcile_entry present uri excl k e)) = je_last_refresh_attempt_s e" for e
    by (cases rule: reconcile_entry_cases [of present uri excl k e]) simp_all
  with OpReconcile a show ?thesis
    by (auto simp: attempted_in_def Reconcile_hits [OF ok] split: option.splits if_splits)
next
  case (OpAbsent kid rid now uri)
  show ?thesis
    using OpAbsent assms
    by (cases rule: RecordKidAbsent_cases [of c kid rid now uri])
      (auto simp: attempted_in_def erase_hit_tables within_def split: if_splits)
next
  case (OpReserve kid now uri)
  show ?thesis
    using OpReserve assms
    by (cases rule: TryReserveRefresh_cases [of c kid now uri])
      (auto simp: attempted_in_def grant_reservation_def Let_def within_def)
next
  case (OpCommit kid rid keys now uri)
  then show ?thesis
    using a by (auto simp: CommitRefresh_def touch_hit_def attempted_in_def FindHit_def split: option.splits if_splits)
qed (use a in \<open>simp_all add: OnFetchMiss_ok [OF ok] attempted_in_def\<close>)

lemma attempted_in_run:
  "jwks_ok c \<Longrightarrow> (\<forall>op \<in> set ops. within lo hi op) \<Longrightarrow> attempted_in lo hi k c \<Longrightarrow> attempted_in lo hi k (jwks_run ops c)"
  by (induction ops arbitrary: c) (simp_all add: jwks_run_def jwks_step_ok attempted_in_step)

section \<open>The global fetch budget\<close>

text \<open>
  A client of the budget asks before each fetch and records the fetch before it is sent. \<open>env\<close> is
  what happens to the cache between two requests.
\<close>

fun fetch_times ::
    "('c \<Rightarrow> seconds \<Rightarrow> bool) \<Rightarrow> ('c \<Rightarrow> seconds \<Rightarrow> 'c) \<Rightarrow> (('c \<Rightarrow> 'c) \<times> seconds) list \<Rightarrow> 'c \<Rightarrow> seconds list" where
  "fetch_times can_fetch record_fetch [] c = []"
| "fetch_times can_fetch record_fetch ((env, t) # requests) c =
     (if can_fetch (env c) t
      then t # fetch_times can_fetch record_fetch requests (record_fetch (env c) t)
      else fetch_times can_fetch record_fetch requests (env c))"

locale fetch_budget =
  fixes can_fetch :: "'c \<Rightarrow> seconds \<Rightarrow> bool"
    and record_fetch :: "'c \<Rightarrow> seconds \<Rightarrow> 'c"
    and last_fetch :: "'c \<Rightarrow> seconds"
    and window :: seconds
  assumes can_fetch_gap: "0 < last_fetch c \<Longrightarrow> last_fetch c \<le> t \<Longrightarrow> can_fetch c t \<longleftrightarrow> last_fetch c + window \<le> t"
    and record_last: "0 < t \<Longrightarrow> last_fetch c \<le> t \<Longrightarrow> last_fetch (record_fetch c t) = t"
begin

lemma fetches_spaced:
  "sorted (map snd requests) \<Longrightarrow> (\<forall>(env, t) \<in> set requests. 0 < t \<and> (\<forall>c. last_fetch (env c) = last_fetch c)) \<Longrightarrow>
   (\<forall>t \<in> snd ` set requests. last_fetch c \<le> t) \<Longrightarrow>
     sorted_wrt (\<lambda>a b. a + window \<le> b) (fetch_times can_fetch record_fetch requests c) \<and>
     (0 < last_fetch c \<longrightarrow> (\<forall>t \<in> set (fetch_times can_fetch record_fetch requests c). last_fetch c + window \<le> t))"
proof (induction requests arbitrary: c)
  case (Cons r requests)
  obtain env t where r: "r = (env, t)" by (cases r)
  let ?c = "env c" and ?times = "fetch_times can_fetch record_fetch requests"
  have l: "last_fetch ?c = last_fetch c" "0 < t" "last_fetch c \<le> t" using Cons.prems(2,3) r by auto
  have later: "\<forall>u \<in> snd ` set requests. t \<le> u" using Cons.prems(1) r by auto
  have rl: "last_fetch (record_fetch ?c t) = t" using l record_last [of t ?c] by simp
  have skip: "sorted_wrt (\<lambda>a b. a + window \<le> b) (?times ?c)"
      "0 < last_fetch c \<Longrightarrow> \<forall>u \<in> set (?times ?c). last_fetch c + window \<le> u"
    using Cons.IH [of ?c] Cons.prems l r by auto
  have take: "sorted_wrt (\<lambda>a b. a + window \<le> b) (?times (record_fetch ?c t))"
      "\<forall>u \<in> set (?times (record_fetch ?c t)). t + window \<le> u"
    using Cons.IH [of "record_fetch ?c t"] Cons.prems l r rl later by auto
  show ?case
  proof (cases "can_fetch ?c t")
    case True
    have "last_fetch c + window \<le> u" if "0 < last_fetch c" "u \<in> set (t # ?times (record_fetch ?c t))" for u
      using that True can_fetch_gap [of ?c t] l take(2) by force
    with True take show ?thesis by (simp add: r)
  next
    case False
    with skip show ?thesis by (simp add: r)
  qed
qed simp

end

interpretation jwks_budget:
  fetch_budget CanFetchJwks RecordJwksFetch jc_last_global_fetch_s kGlobalFetchBudgetWindowSeconds
  by unfold_locales (auto simp: CanFetchJwks_def RecordJwksFetch_def RelateClock_def Let_def)

section \<open>Properties\<close>

lemma jwks_step_max [simp]: "jc_max_entries (jwks_step op c) = jc_max_entries c"
proof (cases op)
  case (OpPassive kid keys now uri)
  then show ?thesis
    by (cases rule: OnPassive_cases [of c kid keys now uri])
      (simp_all add: OnFetchSuccess_def insert_hit_def touch_hit_def Let_def split_beta split: option.split)
next
  case (OpAbsent kid rid now uri)
  then show ?thesis by (cases rule: RecordKidAbsent_cases [of c kid rid now uri]) simp_all
next
  case (OpReserve kid now uri)
  then show ?thesis
    by (cases rule: TryReserveRefresh_cases [of c kid now uri]) (simp_all add: grant_reservation_def Let_def)
next
  case (OpCommit kid rid keys now uri)
  then show ?thesis by (cases rule: CommitRefresh_cases [of c kid rid keys now uri]) (simp_all add: touch_hit_def)
qed (simp_all add: OnFetchSuccess_def insert_hit_def touch_hit_def OnFetchMiss_def RecordJwksFetch_def
  IncrementThrottledRefreshes_def SetLastRefreshReason_def SetMinRefreshSeconds_def Let_def split_beta split: option.split)

lemma jwks_run_max [simp]: "jc_max_entries (jwks_run ops c) = jc_max_entries c"
  by (induction ops arbitrary: c) (simp_all add: jwks_run_def)

lemma Lookup_keys: "jl_keys (JwksCache_Lookup c kid now uri) = cached_keys c (CacheKey uri kid)"
  by (simp add: JwksCache_Lookup_def FindHit_def cached_keys_def Let_def split: option.split ClockRel.split)

lemma Lookup_Hit: "jl_status (JwksCache_Lookup c kid now uri) = Hit \<longleftrightarrow> FindHit c uri kid \<noteq> None"
  by (simp add: JwksCache_Lookup_def Let_def split: option.split ClockRel.split)

text \<open>
  C28: whatever operations were performed on a fresh JWKS cache, in any order and with any
  clock values, it holds at most \<open>max_entries\<close> (at least one) cached kids and as many negative
  entries, a lookup is a hit exactly when it returns keys, and it returns at most four of them.
\<close>

theorem jwks_cache_bounded:
  "let c = jwks_run ops (new_JwksCache min_refresh_s cap); l = JwksCache_Lookup c kid now_s jwks_uri in
     JwksCache_Size c \<le> max 1 cap \<and> MissSize c \<le> max 1 cap \<and>
     (jl_status l = Hit \<longleftrightarrow> jl_keys l \<noteq> []) \<and> length (jl_keys l) \<le> kMaxKeysPerKid"
proof -
  let ?c = "jwks_run ops (new_JwksCache min_refresh_s cap)"
  have ok: "jwks_ok ?c" by (simp add: jwks_run_ok new_JwksCache_ok)
  have m: "jc_max_entries ?c = max 1 cap" by (simp add: new_JwksCache_def)
  have "je_keys e \<noteq> [] \<and> length (je_keys e) \<le> kMaxKeysPerKid" if "map_of (jc_hits ?c) (CacheKey jwks_uri kid) = Some e" for e
    using jwks_okD(3) [OF ok that] by (simp add: entry_ok_def)
  then show ?thesis
    using jwks_okD(1,2) [OF ok] m
    by (auto simp: Let_def JwksCache_Size_def MissSize_def tbl_ok_def Lookup_keys Lookup_Hit FindHit_def cached_keys_def
      split: option.splits)
qed

lemma reserve_granted:
  assumes r: "TryReserveRefresh c kid t uri = (r, c')" "r \<noteq> 0"
  shows "r = jc_next_reservation_id c" "jc_next_reservation_id c' = r + 1"
    "\<exists>e. map_of (jc_hits c') (CacheKey uri kid) = Some e \<and> je_current_reservation_id e = r \<and>
         je_last_refresh_attempt_s e = t"
proof -
  obtain e where "grant_reservation c (CacheKey uri kid) e t = (r, c')"
    using r by (cases rule: TryReserveRefresh_cases [of c kid t uri]) auto
  then show "r = jc_next_reservation_id c" "jc_next_reservation_id c' = r + 1"
    "\<exists>e. map_of (jc_hits c') (CacheKey uri kid) = Some e \<and> je_current_reservation_id e = r \<and>
         je_last_refresh_attempt_s e = t"
    by (auto simp: grant_reservation_def Let_def)
qed

text \<open>
  C23: a refresh that was overtaken cannot overwrite newer keys. When a reservation for a kid is
  granted and later another one for the same kid, committing under the first one fails and leaves
  the cache unchanged, whatever other threads did before, between and after. The 64-bit reservation
  counter must not wrap in the meantime.
\<close>

theorem overtaken_commit_fails:
  assumes ok: "jwks_ok c"
    and first: "TryReserveRefresh c kid t1 jwks_uri = (r1, c1)" "r1 \<noteq> 0"
    and second: "TryReserveRefresh (jwks_run ops1 c1) kid t2 jwks_uri = (r2, c2)" "r2 \<noteq> 0"
    and no_wrap: "unat (jc_next_reservation_id c) + length ops1 + length ops2 + 2 < 2 ^ 64"
  shows "CommitRefresh (jwks_run ops2 c2) kid r1 keys t3 jwks_uri = (False, jwks_run ops2 c2)"
proof -
  let ?k = "CacheKey jwks_uri kid"
  note r1 = reserve_granted [OF first]
  have ok1: "jwks_ok c1" using TryReserveRefresh_ok [OF ok, of kid t1 jwks_uri] first by simp
  let ?c = "jwks_run ops1 c1"
  have u1: "unat (jc_next_reservation_id c1) = unat r1 + 1"
    using no_wrap r1 by (simp add: unat_word_ariths)
  have n: "unat r1 < unat (jc_next_reservation_id ?c)" "unat (jc_next_reservation_id ?c) \<le> unat r1 + 1 + length ops1"
    using next_id_run [OF ok1, of ops1] no_wrap u1 r1(1) by simp_all
  have ok2: "jwks_ok c2" using TryReserveRefresh_ok [OF jwks_run_ok [OF ok1], of ops1 kid t2 jwks_uri] second by simp
  note u2 = reserve_granted [OF second]
  have next2: "unat (jc_next_reservation_id c2) = unat r2 + 1"
    using no_wrap n u2(1,2) r1(1) by (simp add: unat_word_ariths)
  have "superseded c2 ?k r1"
    using first(2) n(1) u2 next2 by (auto simp: superseded_def)
  moreover have "unat (jc_next_reservation_id c2) + length ops2 < 2 ^ 64"
    using next2 u2(1) n(2) no_wrap r1(1) by simp
  ultimately show ?thesis by (intro superseded_commit superseded_run ok2)
qed

text \<open>A small cache the witnesses below evaluate: one key of one provider, fetched at time 100.\<close>

definition sample_jwk :: Jwk where
  "sample_jwk = \<lparr>jwk_kid = ''k1'', jwk_kty = ''RSA'', jwk_alg = ''RS256'', jwk_use = ''sig'',
     jwk_n = ''n'', jwk_e = ''AQAB'', jwk_crv = [], jwk_x = [], jwk_y = []\<rparr>"

definition sample_jwks :: JwksCache where
  "sample_jwks = jwks_run [OpFetchSuccess ''k1'' [sample_jwk] 100 ''https://idp''] (new_JwksCache 10 100)"

lemma sample_jwks_ok: "jwks_ok sample_jwks"
  by (simp add: sample_jwks_def jwks_run_ok new_JwksCache_ok)

lemma overtaken_commit_fails_witness:
  "\<exists>c1 r1 c2 r2. TryReserveRefresh sample_jwks ''k1'' 200 ''https://idp'' = (r1, c1) \<and> r1 \<noteq> 0 \<and>
     TryReserveRefresh (jwks_run [OpFetch 250] c1) ''k1'' 300 ''https://idp'' = (r2, c2) \<and> r2 \<noteq> 0 \<and>
     CommitRefresh (jwks_run [] c2) ''k1'' r1 [sample_jwk] 310 ''https://idp'' = (False, jwks_run [] c2)"
proof -
  let ?r1 = "TryReserveRefresh sample_jwks ''k1'' 200 ''https://idp''"
  let ?r2 = "TryReserveRefresh (jwks_run [OpFetch 250] (snd ?r1)) ''k1'' 300 ''https://idp''"
  have "fst ?r1 \<noteq> 0" by code_simp
  moreover have "fst ?r2 \<noteq> 0" by code_simp
  moreover have "jc_next_reservation_id sample_jwks = 1" by code_simp
  then have "unat (jc_next_reservation_id sample_jwks) + length [OpFetch 250] + length ([] :: jwks_op list) + 2 < 2 ^ 64"
    by simp
  ultimately have "CommitRefresh (jwks_run [] (snd ?r2)) ''k1'' (fst ?r1) [sample_jwk] 310 ''https://idp'' =
      (False, jwks_run [] (snd ?r2))"
    by (intro overtaken_commit_fails [OF sample_jwks_ok, of "''k1''" 200 "''https://idp''" "fst ?r1" "snd ?r1"
      "[OpFetch 250]" 300 "fst ?r2" "snd ?r2" "[]"]) simp_all
  then show ?thesis using \<open>fst ?r1 \<noteq> 0\<close> \<open>fst ?r2 \<noteq> 0\<close> by (metis prod.collapse)
qed

text \<open>
  cache keys of different providers never collide: two providers whose URLs are not
  empty and contain no newline share a cache key only when URL and kid are both equal, whatever
  bytes the kid (which an attacker chooses) contains.
\<close>

lemma CacheKey_injective:
  assumes "jwks_uri \<noteq> []" "jwks_uri' \<noteq> []" "CHR 0x0A \<notin> set jwks_uri" "CHR 0x0A \<notin> set jwks_uri'"
    "CacheKey jwks_uri kid = CacheKey jwks_uri' kid'"
  shows "jwks_uri = jwks_uri' \<and> kid = kid'"
proof -
  have t: "takeWhile (\<lambda>c. c \<noteq> CHR 0x0A) (u @ [CHR 0x0A] @ k) = u" if "CHR 0x0A \<notin> set u" for u k :: string
    using that by (subst takeWhile_append2) auto
  from assms have "jwks_uri @ [CHR 0x0A] @ kid = jwks_uri' @ [CHR 0x0A] @ kid'" by (simp add: CacheKey_def)
  with t [OF assms(3), of kid] t [OF assms(4), of kid'] show ?thesis by (metis append_same_eq same_append_eq)
qed

lemma CacheKey_injective_witness:
  "CacheKey ''https://a'' ''k'' = CacheKey ''https://a'' ''k'' \<and> ''https://a'' = ''https://a'' \<and> ''k'' = (''k'' :: string)"
  using CacheKey_injective [of "''https://a''" "''https://a''" "''k''" "''k''"] by simp

text \<open>What an operation supplies for a provider and a kid, and which URLs of providers an operation stores keys of.\<close>

fun supplied :: "jwks_op \<Rightarrow> string \<Rightarrow> string \<Rightarrow> Jwk set" where
  "supplied (OpFetchSuccess kid keys now uri) jwks_uri k = (if uri = jwks_uri \<and> kid = k then set keys else {})"
| "supplied (OpPassive kid keys now uri) jwks_uri k = (if uri = jwks_uri \<and> kid = k then set keys else {})"
| "supplied (OpCommit kid rid keys now uri) jwks_uri k = (if uri = jwks_uri \<and> kid = k then set keys else {})"
| "supplied _ jwks_uri k = {}"

definition provider_uri :: "string \<Rightarrow> bool" where
  "provider_uri uri \<longleftrightarrow> uri \<noteq> [] \<and> CHR 0x0A \<notin> set uri"

fun stores_of_providers :: "jwks_op \<Rightarrow> bool" where
  "stores_of_providers (OpFetchSuccess kid keys now uri) = provider_uri uri"
| "stores_of_providers (OpPassive kid keys now uri) = provider_uri uri"
| "stores_of_providers (OpCommit kid rid keys now uri) = provider_uri uri"
| "stores_of_providers _ = True"

lemma op_keys_supplied:
  assumes "stores_of_providers op" "provider_uri jwks_uri" "k \<in> op_keys op (CacheKey jwks_uri kid)"
  shows "k \<in> supplied op jwks_uri kid"
  using assms CacheKey_injective [of jwks_uri _ kid] by (cases op) (auto simp: provider_uri_def split: if_splits)

text \<open>
  C29: a key returned by a lookup was supplied, for exactly the provider and the kid that were looked up,
  by some fetch. As long as the provider URLs in use are not empty and have no newline (every such URL that
  passes the URL screen is such), no history of operations can make the cache serve a key under
  another kid or another provider, whatever bytes the kids have, or keys nobody supplied.
\<close>

theorem cached_key_provenance:
  assumes "provider_uri jwks_uri" "\<forall>op \<in> set ops. stores_of_providers op"
    and "k \<in> set (jl_keys (JwksCache_Lookup (jwks_run ops (new_JwksCache min_refresh_s cap)) kid now_s jwks_uri))"
  shows "\<exists>op \<in> set ops. k \<in> supplied op jwks_uri kid"
proof -
  have "cached_keys (new_JwksCache min_refresh_s cap) (CacheKey jwks_uri kid) = []"
    by (simp add: cached_keys_def new_JwksCache_def)
  with assms(3) cached_keys_run [OF new_JwksCache_ok, of ops min_refresh_s cap "CacheKey jwks_uri kid"]
  obtain op where "op \<in> set ops" "k \<in> op_keys op (CacheKey jwks_uri kid)" by (auto simp: Lookup_keys)
  with assms(1,2) op_keys_supplied show ?thesis by blast
qed

lemma cached_key_provenance_witness:
  "sample_jwk \<in> set (jl_keys (JwksCache_Lookup sample_jwks ''k1'' 101 ''https://idp'')) \<and>
   (\<exists>op \<in> set [OpFetchSuccess ''k1'' [sample_jwk] 100 ''https://idp'']. sample_jwk \<in> supplied op ''https://idp'' ''k1'')"
proof -
  have "sample_jwk \<in> set (jl_keys (JwksCache_Lookup sample_jwks ''k1'' 101 ''https://idp''))" by code_simp
  moreover have "provider_uri ''https://idp''" by code_simp
  ultimately show ?thesis
    using cached_key_provenance [of "''https://idp''" "[OpFetchSuccess ''k1'' [sample_jwk] 100 ''https://idp'']" sample_jwk 10 100
      "''k1''" 101] by (simp add: sample_jwks_def)
qed

text \<open>
  Reconciling the cache with a document evicts a kid only on the second consecutive document
  that lacks it. For a kid of that provider: listed in the document, its count of absences is reset;
  missing for the first time, it is kept with its keys; missing again, it is evicted. The kid being
  refreshed (\<open>exclude_kid\<close>) is left to the caller.
\<close>

lemma reconcile_evicts_on_second_absence:
  assumes ok: "jwks_ok c" and uri: "jwks_uri \<noteq> []"
  shows "FindHit (ReconcileAbsentKids c present_kids now_s jwks_uri exclude_kid) jwks_uri kid =
    (case FindHit c jwks_uri kid of
       None \<Rightarrow> None
     | Some e \<Rightarrow>
         if exclude_kid \<noteq> [] \<and> kid = exclude_kid then Some e
         else if kid \<in> set present_kids then Some (e\<lparr>je_consecutive_absent_count := 0\<rparr>)
         else if je_consecutive_absent_count e = 0 then Some (e\<lparr>je_consecutive_absent_count := 1\<rparr>)
         else None)"
proof -
  have "reconcile_kid jwks_uri (CacheKey jwks_uri kid) = Some kid"
    using uri by (simp add: reconcile_kid_def CacheKey_def starts_with_def)
  moreover have "je_consecutive_absent_count e = 0 \<or> je_consecutive_absent_count e = 1"
    if "map_of (jc_hits c) (CacheKey jwks_uri kid) = Some e" for e
    using jwks_okD(3) [OF ok that] by (simp add: entry_ok_def)
  ultimately show ?thesis
    by (auto simp: FindHit_def Reconcile_hits [OF ok] reconcile_entry_def split: option.split)
qed

lemma reconcile_evicts_on_second_absence_witness:
  "let r = (\<lambda>c. ReconcileAbsentKids c [''k2''] 200 ''https://idp'' []) in
   FindHit (r sample_jwks) ''https://idp'' ''k1'' \<noteq> None \<and> FindHit (r (r sample_jwks)) ''https://idp'' ''k1'' = None"
proof -
  let ?r = "\<lambda>c. ReconcileAbsentKids c [''k2''] 200 ''https://idp'' []"
  have e: "map_option je_consecutive_absent_count (FindHit sample_jwks ''https://idp'' ''k1'') = Some 0" by code_simp
  note t = reconcile_evicts_on_second_absence [where now_s = 200 and jwks_uri = "''https://idp''" and kid = "''k1''"
    and exclude_kid = "[]" and present_kids = "[''k2'']"]
  have "FindHit (?r sample_jwks) ''https://idp'' ''k1'' =
      map_option (\<lambda>e. e\<lparr>je_consecutive_absent_count := 1\<rparr>) (FindHit sample_jwks ''https://idp'' ''k1'')"
    using t [OF sample_jwks_ok] e by (auto split: option.splits)
  then show ?thesis
    using t [OF ReconcileAbsentKids_ok [OF sample_jwks_ok], of "[''k2'']" 200 "''https://idp''" "[]"] e
    by (auto simp: Let_def split: option.splits)
qed

text \<open>
  C30: refreshes of one cached kid are limited to one per \<open>min_refresh_s\<close>. After a
  reservation granted at \<open>t1\<close>, the next one for the same kid is granted at the earliest
  \<open>min_refresh_s\<close> later (the limit in force when it is requested), whatever happened in between,
  eviction and re-insertion of the kid included, provided that the clock never runs back: every clock
  reading in between lies between those of the two reservations. (When it runs back by more than a minute
  the code starts afresh and grants at once.)
\<close>

theorem refresh_rate_limited:
  assumes ok: "jwks_ok c"
    and first: "TryReserveRefresh c kid t1 jwks_uri = (r1, c1)" "r1 \<noteq> 0"
    and later: "\<forall>op \<in> set ops. within t1 t2 op" "t1 \<le> t2"
    and second: "fst (TryReserveRefresh (jwks_run ops c1) kid t2 jwks_uri) \<noteq> 0"
  shows "jc_min_refresh_s (jwks_run ops c1) \<le> t2 - t1"
proof -
  let ?k = "CacheKey jwks_uri kid" and ?c = "jwks_run ops c1"
  have ok1: "jwks_ok c1" using TryReserveRefresh_ok [OF ok, of kid t1 jwks_uri] first by simp
  have "attempted_in t1 t2 ?k c1" using reserve_granted(3) [OF first] later(2) by (auto simp: attempted_in_def)
  then have since: "attempted_in t1 t2 ?k ?c" using attempted_in_run ok1 later(1) by blast
  obtain e where e: "FindHit ?c jwks_uri kid = Some e"
    using second by (cases "FindHit ?c jwks_uri kid") (simp_all add: TryReserveRefresh_def)
  then have "t1 \<le> je_last_refresh_attempt_s e" "je_last_refresh_attempt_s e \<le> t2"
    using since by (simp_all add: attempted_in_def FindHit_def)
  with second e show ?thesis by (simp add: TryReserveRefresh_def RelateClock_def split: if_splits)
qed

lemma refresh_rate_limited_witness:
  "let c1 = snd (TryReserveRefresh sample_jwks ''k1'' 200 ''https://idp'') in
     fst (TryReserveRefresh (jwks_run [OpFetch 205] c1) ''k1'' 230 ''https://idp'') \<noteq> 0 \<and>
     jc_min_refresh_s (jwks_run [OpFetch 205] c1) \<le> 230 - 200"
proof -
  let ?r1 = "TryReserveRefresh sample_jwks ''k1'' 200 ''https://idp''"
  have "fst ?r1 \<noteq> 0" by code_simp
  moreover have "fst (TryReserveRefresh (jwks_run [OpFetch 205] (snd ?r1)) ''k1'' 230 ''https://idp'') \<noteq> 0" by code_simp
  ultimately show ?thesis
    using refresh_rate_limited [OF sample_jwks_ok, of "''k1''" 200 "''https://idp''" "fst ?r1" "snd ?r1" "[OpFetch 205]" 230]
    by (simp add: Let_def within_def)
qed

definition is_OpFetch :: "jwks_op \<Rightarrow> bool" where
  "is_OpFetch op = (case op of OpFetch _ \<Rightarrow> True | _ \<Rightarrow> False)"

lemma OnFetchSuccess_last [simp]: "jc_last_global_fetch_s (OnFetchSuccess c kid keys now uri) = jc_last_global_fetch_s c"
  by (simp add: OnFetchSuccess_def insert_hit_def touch_hit_def Let_def split_beta split: option.split)

lemma jwks_step_last: "\<not> is_OpFetch op \<Longrightarrow> jc_last_global_fetch_s (jwks_step op c) = jc_last_global_fetch_s c"
proof (cases op)
  case (OpPassive kid keys now uri)
  then show ?thesis by (cases rule: OnPassive_cases [of c kid keys now uri]) simp_all
next
  case (OpAbsent kid rid now uri)
  then show ?thesis by (cases rule: RecordKidAbsent_cases [of c kid rid now uri]) simp_all
next
  case (OpReserve kid now uri)
  then show ?thesis
    by (cases rule: TryReserveRefresh_cases [of c kid now uri]) (simp_all add: grant_reservation_def Let_def)
next
  case (OpCommit kid rid keys now uri)
  then show ?thesis by (cases rule: CommitRefresh_cases [of c kid rid keys now uri]) (simp_all add: touch_hit_def)
qed (simp_all add: OnFetchMiss_def Let_def split_beta is_OpFetch_def)

lemma jwks_run_last: "\<forall>op \<in> set ops. \<not> is_OpFetch op \<Longrightarrow> jc_last_global_fetch_s (jwks_run ops c) = jc_last_global_fetch_s c"
  by (induction ops arbitrary: c) (simp_all add: jwks_run_def jwks_step_last)

text \<open>
  Outbound JWKS fetches are at least two seconds apart, over all kids and providers. For
  any sequence of clients that ask \<open>CanFetchJwks\<close> and record their fetch with \<open>RecordJwksFetch\<close>, at
  times that do not decrease, with any other operations on the cache in between.
\<close>

lemma fetches_two_seconds_apart:
  assumes times: "sorted (map snd requests)" "\<forall>(ops, t) \<in> set requests. 0 < t \<and> jc_last_global_fetch_s c \<le> t"
    and others: "\<forall>(ops, t) \<in> set requests. \<forall>op \<in> set ops. \<not> is_OpFetch op"
  shows "sorted_wrt (\<lambda>a b. a + 2 \<le> b)
    (fetch_times CanFetchJwks RecordJwksFetch (map (\<lambda>(ops, t). (jwks_run ops, t)) requests) c)"
proof -
  let ?rs = "map (\<lambda>(ops, t). (jwks_run ops, t)) requests"
  have "map snd ?rs = map snd requests" by (simp add: split_beta)
  with times(1) have s: "sorted (map snd ?rs)" by metis
  have e: "\<forall>(env, t) \<in> set ?rs. 0 < t \<and> (\<forall>c. jc_last_global_fetch_s (env c) = jc_last_global_fetch_s c)"
    using times(2) others by (auto intro!: jwks_run_last)
  have l: "\<forall>t \<in> snd ` set ?rs. jc_last_global_fetch_s c \<le> t" using times(2) by auto
  from jwks_budget.fetches_spaced [OF s e l] show ?thesis by (simp add: kGlobalFetchBudgetWindowSeconds_def)
qed

lemma fetches_two_seconds_apart_witness:
  "let requests = [([], 100), ([OpMiss ''k9'' 101 ''u''], 101), ([], 103 :: seconds)];
       times = fetch_times CanFetchJwks RecordJwksFetch (map (\<lambda>(ops, t). (jwks_run ops, t)) requests) sample_jwks
   in times = [100, 103] \<and> sorted_wrt (\<lambda>a b. a + 2 \<le> b) times"
proof -
  let ?rs = "[([], 100), ([OpMiss ''k9'' 101 ''u''], 101), ([], 103 :: seconds)]"
  have "jc_last_global_fetch_s sample_jwks = 0" by code_simp
  then have "sorted_wrt (\<lambda>a b. a + 2 \<le> b)
      (fetch_times CanFetchJwks RecordJwksFetch (map (\<lambda>(ops, t). (jwks_run ops, t)) ?rs) sample_jwks)"
    by (intro fetches_two_seconds_apart) (simp_all add: is_OpFetch_def)
  moreover have "fetch_times CanFetchJwks RecordJwksFetch (map (\<lambda>(ops, t). (jwks_run ops, t)) ?rs) sample_jwks = [100, 103]"
    by code_simp
  ultimately show ?thesis by (simp only: Let_def)
qed

text \<open>
  a kid that a fetched document did not contain is throttled. From the moment
  \<open>OnFetchMiss\<close> records it, lookups at \<open>t\<close> up to (not including) \<open>now_s + min_refresh_s\<close> answer
  \<open>RateLimited\<close> with the remaining time (a slightly earlier clock reading: the full period), and
  from then on \<open>Miss\<close>.
\<close>

lemma miss_throttles_lookups:
  assumes ok: "jwks_ok c" and miss: "FindHit c jwks_uri kid = None" and t: "now_s - kClockResetThresholdSeconds \<le> t"
  shows "JwksCache_Lookup (OnFetchMiss c kid now_s jwks_uri) kid t jwks_uri =
    (if t < now_s then \<lparr>jl_status = RateLimited, jl_keys = [], jl_retry_after_s = jc_min_refresh_s c\<rparr>
     else if t < now_s + jc_min_refresh_s c
     then \<lparr>jl_status = RateLimited, jl_keys = [], jl_retry_after_s = now_s + jc_min_refresh_s c - t\<rparr>
     else \<lparr>jl_status = Miss, jl_keys = [], jl_retry_after_s = 0\<rparr>)"
proof -
  have "FindHit (OnFetchMiss c kid now_s jwks_uri) jwks_uri kid = None"
    using miss by (simp add: FindHit_def OnFetchMiss_ok [OF ok])
  moreover have "jc_min_refresh_s (OnFetchMiss c kid now_s jwks_uri) = jc_min_refresh_s c"
    by (simp add: OnFetchMiss_def Let_def split_beta)
  ultimately show ?thesis
    using t OnFetchMiss_ok(5) [OF ok, of kid now_s jwks_uri]
    by (simp add: JwksCache_Lookup_def RelateClock_def Let_def)
qed

lemma miss_throttles_lookups_witness:
  "JwksCache_Lookup (OnFetchMiss sample_jwks ''k9'' 200 ''https://idp'') ''k9'' 204 ''https://idp'' =
     \<lparr>jl_status = RateLimited, jl_keys = [], jl_retry_after_s = 6\<rparr>"
proof -
  have "FindHit sample_jwks ''https://idp'' ''k9'' = None" "jc_min_refresh_s sample_jwks = 10" by code_simp+
  then show ?thesis
    using miss_throttles_lookups [OF sample_jwks_ok, of "''https://idp''" "''k9''" 200 204]
    by (simp add: kClockResetThresholdSeconds_def)
qed

end
