(* ===== verification/Http_Json.thy ===== *)
theory Http_Json
  imports Text_Codec Jwks_Cache
begin

text \<open>
  The HTTP messages of http_client.hpp and the documents the extension reads from them
  to validate tokens (picojson_helpers.cpp, jwks_parse.cpp, introspect.cpp, tokeninfo.cpp): JSON Web
  Key Sets, introspection answers and Google tokeninfo answers.

  The JSON parser itself (picojson) is a parameter \<open>json_parse\<close>: \<open>None\<close> is a parse error. A
  picojson value is a \<open>json\<close>; a \<open>double\<close> is represented by its value truncated towards zero, the only
  thing the code reads of it.
\<close>

section \<open>Messages\<close>

record HttpResponse =
  status_code :: int
  resp_body :: string

record PostRequest =
  post_url :: string
  post_body :: string
  content_type :: string
  basic_user :: string
  basic_pass :: string

datatype json =
    JNull
  | JBool bool
  | JInt int
  | JDouble int
  | JStr string
  | JArr "json list"
  | JObj "(string \<times> json) list"

type_synonym json_object = "(string \<times> json) list"

section \<open>Reading fields (picojson_helpers.cpp)\<close>

definition AsString :: "json_object \<Rightarrow> string \<Rightarrow> string option" where
  "AsString obj field = (case map_of obj field of Some (JStr s) \<Rightarrow> Some s | _ \<Rightarrow> None)"

text \<open>
  \<open>std::stoll\<close>: leading white space, an optional sign, at least one digit, anything after the digits
  ignored; \<open>None\<close> when it throws, for want of digits or out of the range of 64 bits.
\<close>

definition is_space :: "char \<Rightarrow> bool" where
  "is_space c \<longleftrightarrow> uc c = 32 \<or> 9 \<le> uc c \<and> uc c \<le> 13"

definition is_digit :: "char \<Rightarrow> bool" where
  "is_digit c \<longleftrightarrow> 48 \<le> uc c \<and> uc c \<le> 57"

definition digits_value :: "string \<Rightarrow> int" where
  "digits_value ds = foldl (\<lambda>n c. n * 10 + (int (uc c) - 48)) 0 ds"

definition stoll :: "string \<Rightarrow> int option" where
  "stoll s =
     (let t = dropWhile is_space s;
          (neg, u) = (case t of
             c # cs \<Rightarrow> if c = CHR ''-'' then (True, cs) else if c = CHR ''+'' then (False, cs) else (False, t)
           | [] \<Rightarrow> (False, []));
          ds = takeWhile is_digit u;
          v = (if neg then - digits_value ds else digits_value ds)
      in if ds = [] then None else if v < - (2 ^ 63) \<or> 2 ^ 63 \<le> v then None else Some v)"

text \<open>\<open>std::stoi\<close>: \<open>None\<close> when it throws.\<close>

definition stoi :: "string \<Rightarrow> int option" where
  "stoi s = (case stoll s of None \<Rightarrow> None | Some v \<Rightarrow> if v < - (2 ^ 31) \<or> 2 ^ 31 \<le> v then None else Some v)"

definition AsIntFlexible :: "json_object \<Rightarrow> string \<Rightarrow> int" where
  "AsIntFlexible obj field =
     (case map_of obj field of
        None \<Rightarrow> 0
      | Some (JInt i) \<Rightarrow> i
      | Some (JDouble d) \<Rightarrow> d
      | Some (JStr s) \<Rightarrow> if s = [] then 0 else (case stoll s of None \<Rightarrow> 0 | Some v \<Rightarrow> v)
      | Some _ \<Rightarrow> 0)"

definition AsBoolFlexible :: "json_object \<Rightarrow> string \<Rightarrow> bool" where
  "AsBoolFlexible obj field =
     (case map_of obj field of
        None \<Rightarrow> False
      | Some (JBool b) \<Rightarrow> b
      | Some (JStr s) \<Rightarrow> s = ''true'' \<or> s = ''True'' \<or> s = ''TRUE''
      | Some _ \<Rightarrow> False)"

text \<open>The strings of an array, in order; other elements are skipped.\<close>

fun json_strings :: "json list \<Rightarrow> string list" where
  "json_strings [] = []"
| "json_strings (JStr s # vs) = s # json_strings vs"
| "json_strings (v # vs) = json_strings vs"

text \<open>
  The opening of every response parser: an empty body, a parse error and a value that is not an
  object all end it.
\<close>

definition parse_object :: "(string \<Rightarrow> json option) \<Rightarrow> string \<Rightarrow> json_object option" where
  "parse_object json_parse body =
     (if body = [] then None else case json_parse body of Some (JObj obj) \<Rightarrow> Some obj | _ \<Rightarrow> None)"

section \<open>JSON Web Key Sets (jwks_parse.cpp)\<close>

definition GetStringOrEmpty :: "json_object \<Rightarrow> string \<Rightarrow> string" where
  "GetStringOrEmpty obj field = (case AsString obj field of None \<Rightarrow> [] | Some s \<Rightarrow> s)"

definition kid_char_ok :: "char \<Rightarrow> bool" where
  "kid_char_ok c \<longleftrightarrow> \<not> (uc c < 32 \<or> uc c = 127)"

definition ParseSingleJwk :: "json \<Rightarrow> Jwk option" where
  "ParseSingleJwk v =
     (case v of
        JObj obj \<Rightarrow>
          (case (AsString obj ''kid'', AsString obj ''kty'') of
             (Some kid, Some kty) \<Rightarrow>
               if kty \<noteq> ''RSA'' \<and> kty \<noteq> ''EC'' \<and> kty \<noteq> ''OKP'' then None
               else if kid = [] \<or> 256 < length kid then None
               else if \<exists>c \<in> set kid. \<not> kid_char_ok c then None
               else Some \<lparr>jwk_kid = kid, jwk_kty = kty, jwk_alg = GetStringOrEmpty obj ''alg'',
                 jwk_use = GetStringOrEmpty obj ''use'', jwk_n = GetStringOrEmpty obj ''n'',
                 jwk_e = GetStringOrEmpty obj ''e'', jwk_crv = GetStringOrEmpty obj ''crv'',
                 jwk_x = GetStringOrEmpty obj ''x'', jwk_y = GetStringOrEmpty obj ''y''\<rparr>
           | _ \<Rightarrow> None)
      | _ \<Rightarrow> None)"

definition ParseJwksJson :: "(string \<Rightarrow> json option) \<Rightarrow> string \<Rightarrow> Jwk list" where
  "ParseJwksJson json_parse body =
     (case parse_object json_parse body of
        None \<Rightarrow> []
      | Some obj \<Rightarrow> (case map_of obj ''keys'' of Some (JArr vs) \<Rightarrow> List.map_filter ParseSingleJwk vs | _ \<Rightarrow> []))"

section \<open>Introspection answers (introspect.cpp)\<close>

record IntrospectionResponse =
  ir_active :: bool
  ir_subject :: string
  ir_issuer :: string
  ir_audience :: "string list"
  ir_scope :: string
  ir_scp :: "string list"
  ir_exp :: seconds
  ir_iat :: seconds
  ir_nbf :: seconds
  ir_client_id :: string
  ir_username :: string

definition ExtractAudience :: "json_object \<Rightarrow> string list" where
  "ExtractAudience obj =
     (case map_of obj ''aud'' of Some (JStr s) \<Rightarrow> [s] | Some (JArr vs) \<Rightarrow> json_strings vs | _ \<Rightarrow> [])"

definition ExtractScp :: "json_object \<Rightarrow> string list" where
  "ExtractScp obj = (case map_of obj ''scp'' of Some (JArr vs) \<Rightarrow> json_strings vs | _ \<Rightarrow> [])"

definition ParseIntrospectionResponse :: "(string \<Rightarrow> json option) \<Rightarrow> string \<Rightarrow> IntrospectionResponse option" where
  "ParseIntrospectionResponse json_parse body =
     (case parse_object json_parse body of
        None \<Rightarrow> None
      | Some obj \<Rightarrow>
          (case map_of obj ''active'' of
             Some (JBool b) \<Rightarrow>
               Some \<lparr>ir_active = b, ir_subject = GetStringOrEmpty obj ''sub'', ir_issuer = GetStringOrEmpty obj ''iss'',
                 ir_audience = ExtractAudience obj, ir_scope = GetStringOrEmpty obj ''scope'', ir_scp = ExtractScp obj,
                 ir_exp = AsIntFlexible obj ''exp'', ir_iat = AsIntFlexible obj ''iat'', ir_nbf = AsIntFlexible obj ''nbf'',
                 ir_client_id = GetStringOrEmpty obj ''client_id'', ir_username = GetStringOrEmpty obj ''username''\<rparr>
           | _ \<Rightarrow> None))"

definition form_urlencoded :: string where
  "form_urlencoded = ''application/x-www-form-urlencoded''"

text \<open>
  The client answers a POST in the state \<open>'s\<close> of the world, which the call may change: the response,
  or \<open>None\<close> when the request could not be sent.
\<close>

type_synonym 's http_post = "PostRequest \<Rightarrow> 's \<Rightarrow> HttpResponse option \<times> 's"

definition introspect_request :: "string \<Rightarrow> string \<Rightarrow> string \<Rightarrow> string \<Rightarrow> PostRequest" where
  "introspect_request endpoint client_id client_secret token =
     \<lparr>post_url = endpoint, post_body = ''token='' @ UrlEncode token @ ''&token_type_hint=access_token'',
      content_type = form_urlencoded, basic_user = client_id, basic_pass = client_secret\<rparr>"

definition IntrospectToken ::
    "(string \<Rightarrow> json option) \<Rightarrow> 's http_post \<Rightarrow> string \<Rightarrow> string \<Rightarrow> string \<Rightarrow> string \<Rightarrow> 's \<Rightarrow>
     IntrospectionResponse option \<times> 's" where
  "IntrospectToken json_parse post endpoint client_id client_secret token w =
     (if endpoint = [] \<or> token = [] then (None, w)
      else case post (introspect_request endpoint client_id client_secret token) w of
        (None, w') \<Rightarrow> (None, w')
      | (Some resp, w') \<Rightarrow>
          if status_code resp \<noteq> 200 then (None, w')
          else (ParseIntrospectionResponse json_parse (resp_body resp), w'))"

section \<open>Google tokeninfo (tokeninfo.cpp)\<close>

record TokeninfoResponse =
  ti_active :: bool
  ti_azp :: string
  ti_aud :: string
  ti_subject :: string
  ti_scope :: string
  ti_exp :: seconds
  ti_expires_in :: seconds
  ti_email :: string
  ti_email_verified :: bool

definition ParseTokeninfoResponse :: "(string \<Rightarrow> json option) \<Rightarrow> string \<Rightarrow> bool \<Rightarrow> TokeninfoResponse option" where
  "ParseTokeninfoResponse json_parse body active =
     (case parse_object json_parse body of
        None \<Rightarrow> None
      | Some obj \<Rightarrow>
          Some \<lparr>ti_active = active, ti_azp = GetStringOrEmpty obj ''azp'', ti_aud = GetStringOrEmpty obj ''aud'',
            ti_subject = GetStringOrEmpty obj ''sub'', ti_scope = GetStringOrEmpty obj ''scope'',
            ti_exp = AsIntFlexible obj ''exp'', ti_expires_in = AsIntFlexible obj ''expires_in'',
            ti_email = GetStringOrEmpty obj ''email'', ti_email_verified = AsBoolFlexible obj ''email_verified''\<rparr>)"

definition tokeninfo_request :: "string \<Rightarrow> string \<Rightarrow> PostRequest" where
  "tokeninfo_request endpoint token =
     \<lparr>post_url = endpoint, post_body = ''access_token='' @ UrlEncode token,
      content_type = form_urlencoded, basic_user = [], basic_pass = []\<rparr>"

definition QueryTokeninfo ::
    "(string \<Rightarrow> json option) \<Rightarrow> 's http_post \<Rightarrow> string \<Rightarrow> string \<Rightarrow> 's \<Rightarrow> TokeninfoResponse option \<times> 's" where
  "QueryTokeninfo json_parse post endpoint token w =
     (if endpoint = [] \<or> token = [] then (None, w)
      else case post (tokeninfo_request endpoint token) w of
        (None, w') \<Rightarrow> (None, w')
      | (Some resp, w') \<Rightarrow>
          if status_code resp = 200 then (ParseTokeninfoResponse json_parse (resp_body resp) True, w')
          else if status_code resp = 400
          then (Some \<lparr>ti_active = False, ti_azp = [], ti_aud = [], ti_subject = [], ti_scope = [], ti_exp = 0,
                  ti_expires_in = 0, ti_email = [], ti_email_verified = False\<rparr>, w')
          else (None, w'))"

section \<open>Lemmas\<close>

text \<open>What the parser guarantees of every key it returns.\<close>

definition jwk_id_ok :: "Jwk \<Rightarrow> bool" where
  "jwk_id_ok j \<longleftrightarrow> jwk_kid j \<noteq> [] \<and> length (jwk_kid j) \<le> 256 \<and> (\<forall>c \<in> set (jwk_kid j). kid_char_ok c) \<and>
    (jwk_kty j = ''RSA'' \<or> jwk_kty j = ''EC'' \<or> jwk_kty j = ''OKP'')"

lemma ParseSingleJwk_ok: "ParseSingleJwk v = Some j \<Longrightarrow> jwk_id_ok j"
  by (auto simp: ParseSingleJwk_def jwk_id_ok_def split: json.splits option.splits if_splits)

lemma ParseJwksJson_ok:
  assumes "j \<in> set (ParseJwksJson json_parse body)"
  shows "jwk_id_ok j"
proof -
  from assms obtain v where "ParseSingleJwk v = Some j"
    by (auto simp: ParseJwksJson_def List.map_filter_def split: option.splits json.splits)
  then show ?thesis by (rule ParseSingleJwk_ok)
qed

lemma json_strings_eq: "json_strings vs = List.map_filter (\<lambda>v. case v of JStr s \<Rightarrow> Some s | _ \<Rightarrow> None) vs"
  by (induction vs rule: json_strings.induct) (simp_all add: List.map_filter_simps)

lemma newline_not_kid_char [simp]: "\<not> kid_char_ok CHR 0x0A"
  by (simp add: kid_char_ok_def uc_def)

end
