(* ===== verification/Jwt.thy ===== *)
theory Jwt
  imports Http_Json
begin

text \<open>
  Decoding and verifying JSON Web Tokens against one key (jwt_parse.cpp, jwt_verify.cpp).

  jwt-cpp and OpenSSL are parameters, gathered in the record \<open>Externals\<close>. A claim of a decoded token
  is \<open>Absent\<close> (\<open>has_x\<close> is false), \<open>Val\<close>, or \<open>Bad\<close> when it is present with a type for which the getter
  throws. \<open>VerifyJwt\<close> returns \<open>None\<close> when such an exception escapes it.
\<close>

section \<open>The libraries\<close>

datatype 'a claim = Absent | Bad | Val 'a

record DecodedJwt =
  dj_algorithm :: "string claim"
  dj_key_id :: "string claim"
  dj_type :: "string claim"
  dj_subject :: "string claim"
  dj_issuer :: "string claim"
  dj_audience :: "string list claim"
  dj_expires_at :: "seconds claim"
  dj_not_before :: "seconds claim"
  dj_issued_at :: "seconds claim"
  dj_claims :: json_object

text \<open>
  The \<open>error_code\<close> of a verification: none, one of the signature category, or one whose value names a
  \<open>token_verification_error\<close>.
\<close>

datatype TokenError = token_expired | audience_missmatch | wrong_algorithm | claim_value_missmatch
  | claim_type_missmatch | missing_claim | other_error

datatype ErrorCode = NoError | SignatureError | TokenVerificationError TokenError

text \<open>
  \<open>x_alg_accepts alg pem\<close>: the constructor of the jwt-cpp algorithm does not throw on the key.
  \<open>x_jwt_verify\<close>: \<open>verifier.verify\<close> with the allowed algorithm and key, the expected issuer and audience
  (when configured), the leeway and the clock. \<open>x_rsa_key\<close>: the size in bits of the RSA key OpenSSL
  builds from modulus and exponent, with its PEM text; \<open>x_ec_pem\<close> and \<open>x_okp_pem\<close>: the PEM text of the
  key on a curve. \<open>None\<close> is a failing call.
\<close>

record Externals =
  x_json_parse :: "string \<Rightarrow> json option"
  x_sha256 :: "string \<Rightarrow> bytes option"
  x_jwt_decode :: "string \<Rightarrow> DecodedJwt option"
  x_alg_accepts :: "string \<Rightarrow> string \<Rightarrow> bool"
  x_jwt_verify :: "string \<Rightarrow> string \<Rightarrow> string option \<Rightarrow> string option \<Rightarrow> seconds \<Rightarrow> seconds \<Rightarrow> DecodedJwt \<Rightarrow> ErrorCode"
  x_rsa_key :: "bytes \<Rightarrow> bytes \<Rightarrow> (int \<times> string option) option"
  x_ec_pem :: "string \<Rightarrow> bytes \<Rightarrow> string option"
  x_okp_pem :: "string \<Rightarrow> bytes \<Rightarrow> string option"

section \<open>Parsing (jwt_parse.cpp)\<close>

record JwtParsed =
  jp_alg :: string
  jp_kid :: string
  jp_typ :: string
  jp_subject :: string
  jp_issuer :: string
  jp_audience :: "string list"
  jp_exp :: seconds
  jp_nbf :: seconds
  jp_iat :: seconds
  jp_scope :: string
  jp_scp :: "string list"
  jp_roles :: "string list"

text \<open>\<open>if (has_x()) out = get_x()\<close>: the default, the value, or the exception (\<open>None\<close>).\<close>

definition get_claim :: "'a \<Rightarrow> 'a claim \<Rightarrow> 'a option" where
  "get_claim dflt c = (case c of Absent \<Rightarrow> Some dflt | Bad \<Rightarrow> None | Val v \<Rightarrow> Some v)"

text \<open>
  \<open>ExtractHeader\<close>: \<open>None\<close> is its \<open>return false\<close> or an exception, which \<open>ParseJwt\<close> answers alike.
\<close>

definition kid_rejected :: "string \<Rightarrow> bool" where
  "kid_rejected kid \<longleftrightarrow> 256 < length kid \<or> (\<exists>c \<in> set kid. \<not> kid_char_ok c)"

definition ExtractHeader :: "DecodedJwt \<Rightarrow> JwtParsed \<Rightarrow> JwtParsed option" where
  "ExtractHeader decoded out =
     (case get_claim [] (dj_algorithm decoded) of
        None \<Rightarrow> None
      | Some alg \<Rightarrow>
          (case get_claim [] (dj_key_id decoded) of
             None \<Rightarrow> None
           | Some kid \<Rightarrow>
               if kid_rejected kid then None
               else (case get_claim [] (dj_type decoded) of
                       None \<Rightarrow> None
                     | Some typ \<Rightarrow> Some (out\<lparr>jp_alg := alg, jp_kid := kid, jp_typ := typ\<rparr>))))"

definition ExtractStandardPayload :: "DecodedJwt \<Rightarrow> JwtParsed \<Rightarrow> JwtParsed option" where
  "ExtractStandardPayload decoded out =
     (case (get_claim [] (dj_subject decoded), get_claim [] (dj_issuer decoded), get_claim [] (dj_audience decoded)) of
        (Some sub, Some iss, Some aud) \<Rightarrow>
          (case (get_claim 0 (dj_expires_at decoded), get_claim 0 (dj_not_before decoded), get_claim 0 (dj_issued_at decoded)) of
             (Some e, Some nb, Some ia) \<Rightarrow>
               Some (out\<lparr>jp_subject := sub, jp_issuer := iss, jp_audience := aud, jp_exp := e, jp_nbf := nb, jp_iat := ia\<rparr>)
           | _ \<Rightarrow> None)
      | _ \<Rightarrow> None)"

definition claim_strings :: "json_object \<Rightarrow> string \<Rightarrow> string list" where
  "claim_strings claims name = (case map_of claims name of Some (JArr vs) \<Rightarrow> json_strings vs | _ \<Rightarrow> [])"

definition ExtractScopes :: "DecodedJwt \<Rightarrow> JwtParsed \<Rightarrow> JwtParsed" where
  "ExtractScopes decoded out =
     out\<lparr>jp_scope := GetStringOrEmpty (dj_claims decoded) ''scope'',
         jp_scp := claim_strings (dj_claims decoded) ''scp'',
         jp_roles := claim_strings (dj_claims decoded) ''roles''\<rparr>"

definition empty_JwtParsed :: JwtParsed where
  "empty_JwtParsed = \<lparr>jp_alg = [], jp_kid = [], jp_typ = [], jp_subject = [], jp_issuer = [], jp_audience = [],
     jp_exp = 0, jp_nbf = 0, jp_iat = 0, jp_scope = [], jp_scp = [], jp_roles = []\<rparr>"

definition ParseJwt :: "Externals \<Rightarrow> string \<Rightarrow> JwtParsed option" where
  "ParseJwt X token =
     (if token = [] then None
      else case x_jwt_decode X token of
        None \<Rightarrow> None
      | Some decoded \<Rightarrow>
          (case ExtractHeader decoded empty_JwtParsed of
             None \<Rightarrow> None
           | Some out \<Rightarrow> map_option (ExtractScopes decoded) (ExtractStandardPayload decoded out)))"

definition IsAsciiSpace :: "char \<Rightarrow> bool" where
  "IsAsciiSpace c \<longleftrightarrow> c = CHR '' '' \<or> c = CHR 0x09 \<or> c = CHR 0x0D \<or> c = CHR 0x0A \<or> c = CHR 0x0B \<or> c = CHR 0x0C"

definition StripBearerPrefix :: "string \<Rightarrow> string" where
  "StripBearerPrefix auth0 =
     (let auth1 = dropWhile IsAsciiSpace auth0;
          auth2 =
            (if 6 \<le> length auth1 \<and> map to_lower (take 6 auth1) = ''bearer'' \<and>
                (length auth1 = 6 \<or> IsAsciiSpace (auth1 ! 6))
             then dropWhile IsAsciiSpace (drop 6 auth1) else auth1)
      in rev (dropWhile IsAsciiSpace (rev auth2)))"

section \<open>Keys (jwt_verify.cpp)\<close>

text \<open>The pair of the result and the flag \<open>out_sub_2048\<close>.\<close>

definition RsaPublicKeyToPem :: "Externals \<Rightarrow> bytes \<Rightarrow> bytes \<Rightarrow> string option \<times> bool" where
  "RsaPublicKeyToPem X n_bin e_bin =
     (case x_rsa_key X n_bin e_bin of
        None \<Rightarrow> (None, False)
      | Some (bits, pem) \<Rightarrow>
          if 512 \<le> bits \<and> bits < 2048 then (None, True)
          else if bits < 512 then (None, False)
          else (pem, False))"

definition EcPublicKeyToPem :: "Externals \<Rightarrow> string \<Rightarrow> bytes \<Rightarrow> bytes \<Rightarrow> string option" where
  "EcPublicKeyToPem X group_name x_bin y_bin =
     (if length y_bin \<noteq> length x_bin then None else x_ec_pem X group_name (0x04 # x_bin @ y_bin))"

definition JwkRsaToPem :: "Externals \<Rightarrow> Jwk \<Rightarrow> string option \<times> bool" where
  "JwkRsaToPem X jwk =
     (if jwk_n jwk = [] \<or> jwk_e jwk = [] then (None, False)
      else case (Base64UrlDecode (jwk_n jwk), Base64UrlDecode (jwk_e jwk)) of
        (Some n_bin, Some e_bin) \<Rightarrow> RsaPublicKeyToPem X n_bin e_bin
      | _ \<Rightarrow> (None, False))"

definition JwkEcToPem :: "Externals \<Rightarrow> Jwk \<Rightarrow> string option" where
  "JwkEcToPem X jwk =
     (if jwk_x jwk = [] \<or> jwk_y jwk = [] \<or> jwk_crv jwk = [] then None
      else if jwk_crv jwk \<noteq> ''P-256'' \<and> jwk_crv jwk \<noteq> ''P-384'' then None
      else case (Base64UrlDecode (jwk_x jwk), Base64UrlDecode (jwk_y jwk)) of
        (Some x_bin, Some y_bin) \<Rightarrow> EcPublicKeyToPem X (jwk_crv jwk) x_bin y_bin
      | _ \<Rightarrow> None)"

definition JwkOkpToPem :: "Externals \<Rightarrow> Jwk \<Rightarrow> string option" where
  "JwkOkpToPem X jwk =
     (if jwk_x jwk = [] \<or> jwk_crv jwk = [] then None
      else if jwk_crv jwk \<noteq> ''Ed25519'' then None
      else case Base64UrlDecode (jwk_x jwk) of
        None \<Rightarrow> None
      | Some x_bin \<Rightarrow> x_okp_pem X ''ED25519'' x_bin)"

definition IsUsableSigningKey :: "Externals \<Rightarrow> Jwk \<Rightarrow> bool" where
  "IsUsableSigningKey X jwk =
     (if jwk_kty jwk = ''RSA'' then (case JwkRsaToPem X jwk of (pem, sub_2048) \<Rightarrow> pem \<noteq> None \<and> \<not> sub_2048)
      else if jwk_kty jwk = ''EC'' then JwkEcToPem X jwk \<noteq> None
      else if jwk_kty jwk = ''OKP'' then JwkOkpToPem X jwk \<noteq> None
      else False)"

section \<open>Verification against one key (jwt_verify.cpp)\<close>

datatype VerifyResult = Ok | Malformed | DisallowedAlgorithm | InvalidSignature | Expired | NotYetValid
  | WrongIssuer | WrongAudience | UnsupportedKeyType | UnusableKey | NoMatchingKey | UnknownKid
  | JwksFetchFailed | JwksThrottled

record VerifyOptions =
  vo_expected_issuer :: string
  vo_expected_audience :: string
  vo_clock_skew_s :: seconds
  vo_now_s :: seconds
  vo_allowed_algorithms :: "string list"

definition IsForbiddenAlgorithm :: "string \<Rightarrow> bool" where
  "IsForbiddenAlgorithm alg \<longleftrightarrow> alg = [] \<or> alg = ''none'' \<or> starts_with alg ''HS''"

definition DefaultAllowedAlgorithms :: "string list" where
  "DefaultAllowedAlgorithms = [''RS256'', ''RS384'', ''RS512'', ''ES256'', ''ES384'', ''EdDSA'']"

definition IsAlgorithmAllowed :: "string \<Rightarrow> string list \<Rightarrow> bool" where
  "IsAlgorithmAllowed alg whitelist \<longleftrightarrow>
     alg \<in> set (if whitelist = [] then DefaultAllowedAlgorithms else whitelist)"

definition MapVerificationError :: "TokenError \<Rightarrow> VerifyResult" where
  "MapVerificationError ec =
     (case ec of
        token_expired \<Rightarrow> Expired
      | audience_missmatch \<Rightarrow> WrongAudience
      | wrong_algorithm \<Rightarrow> DisallowedAlgorithm
      | claim_value_missmatch \<Rightarrow> WrongIssuer
      | claim_type_missmatch \<Rightarrow> WrongIssuer
      | missing_claim \<Rightarrow> WrongIssuer
      | other_error \<Rightarrow> InvalidSignature)"

definition configured :: "string \<Rightarrow> string option" where
  "configured s = (if s = [] then None else Some s)"

text \<open>The algorithms \<open>VerifyWithVerifier\<close> has a branch for.\<close>

definition wired_algorithms :: "string list" where
  "wired_algorithms = [''RS256'', ''RS384'', ''RS512'', ''ES256'', ''ES384'', ''EdDSA'']"

definition VerifyWithVerifier ::
    "Externals \<Rightarrow> DecodedJwt \<Rightarrow> string \<Rightarrow> string \<Rightarrow> VerifyOptions \<Rightarrow> VerifyResult option" where
  "VerifyWithVerifier X decoded pem alg opts =
     (if alg \<notin> set wired_algorithms then Some DisallowedAlgorithm
      else if \<not> x_alg_accepts X alg pem then Some InvalidSignature
      else
        let clamped_skew = clamp (vo_clock_skew_s opts) 0 3600 in
        (case x_jwt_verify X alg pem (configured (vo_expected_issuer opts)) (configured (vo_expected_audience opts))
            clamped_skew (vo_now_s opts) decoded of
           NoError \<Rightarrow> Some Ok
         | SignatureError \<Rightarrow> Some InvalidSignature
         | TokenVerificationError ec \<Rightarrow>
             if ec = token_expired
             then (case dj_not_before decoded of
                     Absent \<Rightarrow> Some Expired
                   | Bad \<Rightarrow> None
                   | Val nbf \<Rightarrow> Some (if vo_now_s opts + clamped_skew < nbf then NotYetValid else Expired))
             else Some (MapVerificationError ec)))"

definition VerifyJwt :: "Externals \<Rightarrow> string \<Rightarrow> Jwk \<Rightarrow> VerifyOptions \<Rightarrow> VerifyResult option" where
  "VerifyJwt X token jwk opts =
     (if token = [] then Some Malformed
      else case x_jwt_decode X token of
        None \<Rightarrow> Some Malformed
      | Some decoded \<Rightarrow>
          (case get_claim [] (dj_algorithm decoded) of
             None \<Rightarrow> None
           | Some alg \<Rightarrow>
               if IsForbiddenAlgorithm alg \<or> \<not> IsAlgorithmAllowed alg (vo_allowed_algorithms opts)
               then Some DisallowedAlgorithm
               else
                 let with_pem = (\<lambda>pem. case pem of
                       None \<Rightarrow> Some UnusableKey
                     | Some p \<Rightarrow> VerifyWithVerifier X decoded p alg opts)
                 in if jwk_kty jwk = ''RSA''
                    then (case JwkRsaToPem X jwk of
                            (pem, sub_2048) \<Rightarrow> if sub_2048 then Some UnsupportedKeyType else with_pem pem)
                    else if jwk_kty jwk = ''EC'' then with_pem (JwkEcToPem X jwk)
                    else if jwk_kty jwk = ''OKP'' then with_pem (JwkOkpToPem X jwk)
                    else Some UnsupportedKeyType))"

section \<open>Lemmas\<close>

text \<open>The PEM text of a key that is strong enough to verify with.\<close>

definition key_pem :: "Externals \<Rightarrow> Jwk \<Rightarrow> string option" where
  "key_pem X jwk =
     (if jwk_kty jwk = ''RSA'' then fst (JwkRsaToPem X jwk)
      else if jwk_kty jwk = ''EC'' then JwkEcToPem X jwk
      else if jwk_kty jwk = ''OKP'' then JwkOkpToPem X jwk
      else None)"

lemma JwkRsaToPem_cases:
  obtains (no) b where "JwkRsaToPem X jwk = (None, b)"
  | (strong) n_bin e_bin bits pem where "JwkRsaToPem X jwk = (Some pem, False)"
      "Base64UrlDecode (jwk_n jwk) = Some n_bin" "Base64UrlDecode (jwk_e jwk) = Some e_bin"
      "x_rsa_key X n_bin e_bin = Some (bits, Some pem)" "2048 \<le> bits"
proof (cases "fst (JwkRsaToPem X jwk)")
  case None
  then show ?thesis by (intro no [of "snd (JwkRsaToPem X jwk)"]) (simp add: prod_eq_iff)
next
  case (Some pem)
  then obtain n_bin e_bin where b: "Base64UrlDecode (jwk_n jwk) = Some n_bin" "Base64UrlDecode (jwk_e jwk) = Some e_bin"
      "JwkRsaToPem X jwk = RsaPublicKeyToPem X n_bin e_bin"
    by (auto simp: JwkRsaToPem_def split: option.splits if_splits)
  with Some obtain bits where k: "x_rsa_key X n_bin e_bin = Some (bits, Some pem)" "2048 \<le> bits"
    by (auto simp: RsaPublicKeyToPem_def split: option.splits if_splits)
  then have "JwkRsaToPem X jwk = (Some pem, False)" by (simp add: b(3) RsaPublicKeyToPem_def)
  then show ?thesis using b(1,2) k by (rule strong)
qed

lemma IsUsableSigningKey_iff: "IsUsableSigningKey X jwk \<longleftrightarrow> key_pem X jwk \<noteq> None"
  by (cases rule: JwkRsaToPem_cases [of X jwk]) (simp_all add: IsUsableSigningKey_def key_pem_def)

lemma VerifyJwt_key_pem:
  assumes "token \<noteq> []" "x_jwt_decode X token = Some decoded" "get_claim [] (dj_algorithm decoded) = Some alg"
    "\<not> IsForbiddenAlgorithm alg" "IsAlgorithmAllowed alg (vo_allowed_algorithms opts)"
  shows "(case key_pem X jwk of
      Some pem \<Rightarrow> VerifyJwt X token jwk opts = VerifyWithVerifier X decoded pem alg opts
    | None \<Rightarrow> VerifyJwt X token jwk opts = Some UnusableKey \<or> VerifyJwt X token jwk opts = Some UnsupportedKeyType)"
proof (cases rule: JwkRsaToPem_cases [of X jwk])
  case no
  with assms show ?thesis by (simp add: VerifyJwt_def key_pem_def Let_def split: option.split)
next
  case strong
  with assms show ?thesis by (simp add: VerifyJwt_def key_pem_def Let_def split: option.split)
qed

lemma VerifyWithVerifier_results:
  assumes "VerifyWithVerifier X decoded pem alg opts = Some r"
  shows "r \<noteq> UnusableKey \<and> r \<noteq> UnsupportedKeyType \<and> r \<noteq> Malformed \<and> r \<noteq> UnknownKid \<and> r \<noteq> NoMatchingKey \<and>
    r \<noteq> JwksFetchFailed \<and> r \<noteq> JwksThrottled"
  using assms
  by (auto simp: VerifyWithVerifier_def Let_def MapVerificationError_def
    split: if_splits ErrorCode.splits claim.splits TokenError.splits)

lemma VerifyWithVerifier_Ok:
  "VerifyWithVerifier X decoded pem alg opts = Some Ok \<longleftrightarrow>
     alg \<in> set wired_algorithms \<and> x_alg_accepts X alg pem \<and>
     x_jwt_verify X alg pem (configured (vo_expected_issuer opts)) (configured (vo_expected_audience opts))
       (clamp (vo_clock_skew_s opts) 0 3600) (vo_now_s opts) decoded = NoError"
  by (auto simp: VerifyWithVerifier_def Let_def MapVerificationError_def
    split: if_splits ErrorCode.splits claim.splits TokenError.splits)

lemma ExtractHeader_SomeD:
  "ExtractHeader decoded out = Some out' \<Longrightarrow>
     get_claim [] (dj_algorithm decoded) = Some (jp_alg out') \<and> get_claim [] (dj_key_id decoded) = Some (jp_kid out') \<and>
     \<not> kid_rejected (jp_kid out')"
  by (auto simp: ExtractHeader_def split: option.splits if_splits)

lemma ExtractStandardPayload_SomeD:
  "ExtractStandardPayload decoded out = Some out' \<Longrightarrow>
     jp_alg out' = jp_alg out \<and> jp_kid out' = jp_kid out \<and> dj_not_before decoded \<noteq> Bad"
  by (auto simp: ExtractStandardPayload_def get_claim_def [of 0 "dj_not_before decoded"] split: option.splits)

lemma ParseJwt_SomeD:
  assumes "ParseJwt X token = Some p"
  obtains decoded where "token \<noteq> []" "x_jwt_decode X token = Some decoded"
    "get_claim [] (dj_algorithm decoded) = Some (jp_alg p)" "get_claim [] (dj_key_id decoded) = Some (jp_kid p)"
    "\<not> kid_rejected (jp_kid p)" "dj_not_before decoded \<noteq> Bad"
proof -
  from assms obtain decoded out1 out2 where d: "token \<noteq> []" "x_jwt_decode X token = Some decoded"
      "ExtractHeader decoded empty_JwtParsed = Some out1" "ExtractStandardPayload decoded out1 = Some out2"
      "p = ExtractScopes decoded out2"
    by (auto simp: ParseJwt_def split: option.splits if_splits)
  have "jp_alg p = jp_alg out1" "jp_kid p = jp_kid out1" "dj_not_before decoded \<noteq> Bad"
    using ExtractStandardPayload_SomeD [OF d(4)] by (simp_all add: d(5) ExtractScopes_def)
  with that d(1,2) ExtractHeader_SomeD [OF d(3)] show ?thesis by simp
qed

lemma VerifyJwt_no_exception:
  assumes "ParseJwt X token = Some p"
  shows "VerifyJwt X token jwk opts \<noteq> None"
proof -
  from assms obtain decoded where d: "token \<noteq> []" "x_jwt_decode X token = Some decoded"
      "get_claim [] (dj_algorithm decoded) = Some (jp_alg p)" "dj_not_before decoded \<noteq> Bad"
    by (rule ParseJwt_SomeD)
  have "VerifyWithVerifier X decoded pem (jp_alg p) opts \<noteq> None" for pem
    using d(4) by (simp add: VerifyWithVerifier_def Let_def split: ErrorCode.split claim.split)
  then show ?thesis using d by (simp add: VerifyJwt_def Let_def split: prod.split option.split)
qed

lemma VerifyJwt_accepts:
  "VerifyJwt X token jwk opts = Some Ok \<longleftrightarrow>
     (\<exists>decoded alg pem.
        token \<noteq> [] \<and> x_jwt_decode X token = Some decoded \<and> dj_algorithm decoded = Val alg \<and>
        alg \<in> {''RS256'', ''RS384'', ''RS512'', ''ES256'', ''ES384'', ''EdDSA''} \<and>
        (vo_allowed_algorithms opts = [] \<or> alg \<in> set (vo_allowed_algorithms opts)) \<and>
        key_pem X jwk = Some pem \<and> x_alg_accepts X alg pem \<and>
        x_jwt_verify X alg pem (configured (vo_expected_issuer opts)) (configured (vo_expected_audience opts))
          (clamp (vo_clock_skew_s opts) 0 3600) (vo_now_s opts) decoded = NoError)"
    (is "?L \<longleftrightarrow> ?R")
proof
  have w: "{''RS256'', ''RS384'', ''RS512'', ''ES256'', ''ES384'', ''EdDSA''} = set wired_algorithms"
    by (simp add: wired_algorithms_def)
  assume ok: ?L
  then obtain decoded alg where d: "token \<noteq> []" "x_jwt_decode X token = Some decoded"
      "get_claim [] (dj_algorithm decoded) = Some alg"
    by (auto simp: VerifyJwt_def split: if_splits option.splits)
  with ok have a: "\<not> IsForbiddenAlgorithm alg" "IsAlgorithmAllowed alg (vo_allowed_algorithms opts)"
    by (auto simp: VerifyJwt_def split: if_splits)
  have v: "dj_algorithm decoded = Val alg"
    using d(3) a(1) by (auto simp: get_claim_def IsForbiddenAlgorithm_def split: claim.splits)
  from VerifyJwt_key_pem [OF d a, of jwk] ok obtain pem where
    p: "key_pem X jwk = Some pem" "VerifyWithVerifier X decoded pem alg opts = Some Ok" by (auto split: option.splits)
  with d(1,2) v a show ?R
    unfolding w by (intro exI [of _ decoded] exI [of _ alg] exI [of _ pem])
      (simp add: VerifyWithVerifier_Ok IsAlgorithmAllowed_def split: if_splits)
next
  have w: "{''RS256'', ''RS384'', ''RS512'', ''ES256'', ''ES384'', ''EdDSA''} = set wired_algorithms"
    by (simp add: wired_algorithms_def)
  assume ?R
  then obtain decoded alg pem where r: "token \<noteq> []" "x_jwt_decode X token = Some decoded" "dj_algorithm decoded = Val alg"
      "alg \<in> set wired_algorithms" "vo_allowed_algorithms opts = [] \<or> alg \<in> set (vo_allowed_algorithms opts)"
      "key_pem X jwk = Some pem" "x_alg_accepts X alg pem"
      "x_jwt_verify X alg pem (configured (vo_expected_issuer opts)) (configured (vo_expected_audience opts))
          (clamp (vo_clock_skew_s opts) 0 3600) (vo_now_s opts) decoded = NoError"
    unfolding w by blast
  have "\<not> IsForbiddenAlgorithm alg"
    using r(4) by (auto simp: wired_algorithms_def IsForbiddenAlgorithm_def starts_with_def)
  moreover have "IsAlgorithmAllowed alg (vo_allowed_algorithms opts)"
    using r(4,5) by (auto simp: IsAlgorithmAllowed_def wired_algorithms_def DefaultAllowedAlgorithms_def)
  ultimately show ?L
    using VerifyJwt_key_pem [of token X decoded alg opts jwk] r by (simp add: get_claim_def VerifyWithVerifier_Ok)
qed

section \<open>Properties\<close>

text \<open>
  The keys that verification is meant to accept, in terms of the decoded key material: an RSA key of at
  least 2048 bits, a point of P-256 or P-384 whose coordinates have the same length, an Ed25519 key.
\<close>

definition rsa_key_strong :: "Externals \<Rightarrow> Jwk \<Rightarrow> string \<Rightarrow> bool" where
  "rsa_key_strong X jwk pem \<longleftrightarrow>
     jwk_n jwk \<noteq> [] \<and> jwk_e jwk \<noteq> [] \<and>
     (\<exists>n_bin e_bin bits. Base64UrlDecode (jwk_n jwk) = Some n_bin \<and> Base64UrlDecode (jwk_e jwk) = Some e_bin \<and>
        x_rsa_key X n_bin e_bin = Some (bits, Some pem) \<and> 2048 \<le> bits)"

definition ec_key_on_curve :: "Externals \<Rightarrow> Jwk \<Rightarrow> string \<Rightarrow> bool" where
  "ec_key_on_curve X jwk pem \<longleftrightarrow>
     jwk_crv jwk \<in> {''P-256'', ''P-384''} \<and> jwk_x jwk \<noteq> [] \<and> jwk_y jwk \<noteq> [] \<and>
     (\<exists>x_bin y_bin. Base64UrlDecode (jwk_x jwk) = Some x_bin \<and> Base64UrlDecode (jwk_y jwk) = Some y_bin \<and>
        length x_bin = length y_bin \<and> x_ec_pem X (jwk_crv jwk) (0x04 # x_bin @ y_bin) = Some pem)"

definition okp_key_ed25519 :: "Externals \<Rightarrow> Jwk \<Rightarrow> string \<Rightarrow> bool" where
  "okp_key_ed25519 X jwk pem \<longleftrightarrow>
     jwk_crv jwk = ''Ed25519'' \<and> jwk_x jwk \<noteq> [] \<and>
     (\<exists>x_bin. Base64UrlDecode (jwk_x jwk) = Some x_bin \<and> x_okp_pem X ''ED25519'' x_bin = Some pem)"

lemma rsa_pem_iff: "fst (JwkRsaToPem X jwk) = Some pem \<longleftrightarrow> rsa_key_strong X jwk pem"
  by (auto simp: JwkRsaToPem_def RsaPublicKeyToPem_def rsa_key_strong_def split: option.splits if_splits)

lemma ec_pem_iff: "JwkEcToPem X jwk = Some pem \<longleftrightarrow> ec_key_on_curve X jwk pem"
  by (auto simp: JwkEcToPem_def EcPublicKeyToPem_def ec_key_on_curve_def split: option.splits if_splits)

lemma okp_pem_iff: "JwkOkpToPem X jwk = Some pem \<longleftrightarrow> okp_key_ed25519 X jwk pem"
  by (auto simp: JwkOkpToPem_def okp_key_ed25519_def split: option.splits if_splits)

lemma key_pem_iff:
  "key_pem X jwk = Some pem \<longleftrightarrow>
     jwk_kty jwk = ''RSA'' \<and> rsa_key_strong X jwk pem \<or> jwk_kty jwk = ''EC'' \<and> ec_key_on_curve X jwk pem \<or>
     jwk_kty jwk = ''OKP'' \<and> okp_key_ed25519 X jwk pem"
  by (simp add: key_pem_def rsa_pem_iff ec_pem_iff okp_pem_iff)

text \<open>
  C21: when \<open>VerifyJwt\<close> accepts. It answers \<open>Ok\<close> exactly when the token decodes, its
  algorithm is one of the six asymmetric ones and on the configured list (\<open>none\<close> and HMAC algorithms
  never are, even when listed), the key material decodes to an RSA key of at least 2048 bits, to an EC
  key on P-256 or P-384 or to an Ed25519 key, and jwt-cpp verifies the signature with that key and the
  configured issuer, audience and clock skew (clamped to an hour) without an error.
\<close>

theorem VerifyJwt_Ok_iff:
  "VerifyJwt X token jwk opts = Some Ok \<longleftrightarrow>
     (\<exists>decoded alg pem.
        token \<noteq> [] \<and> x_jwt_decode X token = Some decoded \<and> dj_algorithm decoded = Val alg \<and>
        alg \<in> {''RS256'', ''RS384'', ''RS512'', ''ES256'', ''ES384'', ''EdDSA''} \<and>
        (vo_allowed_algorithms opts = [] \<or> alg \<in> set (vo_allowed_algorithms opts)) \<and>
        (jwk_kty jwk = ''RSA'' \<and> rsa_key_strong X jwk pem \<or> jwk_kty jwk = ''EC'' \<and> ec_key_on_curve X jwk pem \<or>
         jwk_kty jwk = ''OKP'' \<and> okp_key_ed25519 X jwk pem) \<and> x_alg_accepts X alg pem \<and>
        x_jwt_verify X alg pem (configured (vo_expected_issuer opts)) (configured (vo_expected_audience opts))
          (clamp (vo_clock_skew_s opts) 0 3600) (vo_now_s opts) decoded = NoError)"
  unfolding key_pem_iff [symmetric]
  by (rule VerifyJwt_accepts)

text \<open>
  C31: \<open>IsUsableSigningKey\<close> screens keys exactly as verification does. For a token whose
  algorithm is acceptable, a key passes the screen if and only if verifying with it does not end in
  \<open>UnusableKey\<close> or \<open>UnsupportedKeyType\<close>; the screen therefore never drops a key that could verify.
\<close>

theorem usable_key_iff_verifiable:
  assumes "ParseJwt X token = Some parsed"
    "\<not> IsForbiddenAlgorithm (jp_alg parsed)" "IsAlgorithmAllowed (jp_alg parsed) (vo_allowed_algorithms opts)"
  shows "IsUsableSigningKey X jwk \<longleftrightarrow>
    VerifyJwt X token jwk opts \<noteq> Some UnusableKey \<and> VerifyJwt X token jwk opts \<noteq> Some UnsupportedKeyType"
proof -
  from assms(1) obtain decoded where d: "token \<noteq> []" "x_jwt_decode X token = Some decoded"
      "get_claim [] (dj_algorithm decoded) = Some (jp_alg parsed)" by (rule ParseJwt_SomeD)
  show ?thesis
    using VerifyJwt_key_pem [OF d assms(2,3), of jwk] VerifyWithVerifier_results [of X decoded _ "jp_alg parsed" opts]
    by (auto simp: IsUsableSigningKey_iff split: option.splits)
qed

text \<open>
  the key id of a parsed token is at most 256 bytes long and free of control characters;
  in particular it contains no newline, the separator of cache keys.
\<close>

lemma ParseJwt_kid_bounded:
  assumes "ParseJwt X token = Some parsed"
  shows "length (jp_kid parsed) \<le> 256 \<and> (\<forall>c \<in> set (jp_kid parsed). 32 \<le> uc c \<and> uc c \<noteq> 127) \<and>
    CHR 0x0A \<notin> set (jp_kid parsed)"
proof -
  from assms have "\<not> kid_rejected (jp_kid parsed)" by (rule ParseJwt_SomeD)
  moreover from this have "CHR 0x0A \<notin> set (jp_kid parsed)"
    by (auto simp: kid_rejected_def)
  ultimately show ?thesis by (auto simp: kid_rejected_def kid_char_ok_def not_less)
qed

lemma space_to_lower: "IsAsciiSpace c \<Longrightarrow> to_lower c = c"
  by (auto simp: IsAsciiSpace_def to_lower_def uc_def)

lemma not_space_of_lower: "to_lower c = CHR ''b'' \<Longrightarrow> \<not> IsAsciiSpace c"
proof
  assume "to_lower c = CHR ''b''" "IsAsciiSpace c"
  then have "IsAsciiSpace CHR ''b''" by (metis space_to_lower)
  then show False by (simp add: IsAsciiSpace_def)
qed

text \<open>
  \<open>StripBearerPrefix\<close> recovers the token from an Authorization header: a token without
  white space survives a \<open>Bearer\<close> scheme written in any case, at least one space after it, and any
  white space around the header.
\<close>

lemma StripBearerPrefix_token:
  assumes t: "token \<noteq> []" "\<forall>c \<in> set token. \<not> IsAsciiSpace c" and b: "lower_ascii scheme = ''bearer''"
    and ws: "\<forall>c \<in> set (ws1 @ ws2 @ ws3). IsAsciiSpace c" "ws2 \<noteq> []"
  shows "StripBearerPrefix (ws1 @ scheme @ ws2 @ token @ ws3) = token"
proof -
  let ?rest = "ws2 @ token @ ws3"
  have len: "length scheme = 6" using arg_cong [OF b, of length] by simp
  then obtain c cs where sch: "scheme = c # cs" by (cases scheme) auto
  with b have "to_lower c = CHR ''b''" by (simp add: lower_ascii_def)
  then have "dropWhile IsAsciiSpace (ws1 @ scheme @ ?rest) = scheme @ ?rest"
    using ws(1) by (simp add: sch dropWhile_append2 not_space_of_lower)
  moreover have "IsAsciiSpace ((scheme @ ?rest) ! 6)" "dropWhile IsAsciiSpace (drop 6 (scheme @ ?rest)) = token @ ws3"
    using ws t len by (simp_all add: nth_append dropWhile_append2 dropWhile_append3) (cases token; simp)+
  moreover have "dropWhile IsAsciiSpace (rev ws3 @ zs) = dropWhile IsAsciiSpace zs" for zs
    using ws(1) by (intro dropWhile_append2) auto
  then have "rev (dropWhile IsAsciiSpace (rev (token @ ws3))) = token"
    using t by (cases token rule: rev_cases) simp_all
  ultimately show ?thesis
    using b len by (simp add: StripBearerPrefix_def Let_def lower_ascii_def)
qed

lemma StripBearerPrefix_token_witness:
  "StripBearerPrefix ('' '' @ ''BeArEr'' @ ''  '' @ ''a.b.c'' @ '' '') = ''a.b.c''"
  by (rule StripBearerPrefix_token) code_simp+

section \<open>A concrete instance of the libraries\<close>

text \<open>
  The witnesses of this and the following theories run with these functions in place of the
  libraries: every non-empty token decodes to the same claims, and the key with modulus \<open>AAAA\<close>
  (three zero bytes) is the one that signed it.
\<close>

definition sample_decoded :: DecodedJwt where
  "sample_decoded = \<lparr>dj_algorithm = Val ''RS256'', dj_key_id = Val ''k1'', dj_type = Absent, dj_subject = Val ''alice'',
     dj_issuer = Val ''https://idp'', dj_audience = Val [''api''], dj_expires_at = Val 1000, dj_not_before = Absent,
     dj_issued_at = Absent, dj_claims = [(''scope'', JStr ''read write'')]\<rparr>"

definition sample_key :: "string \<Rightarrow> string \<Rightarrow> json" where
  "sample_key kid n = JObj [(''kid'', JStr kid), (''kty'', JStr ''RSA''), (''alg'', JStr ''RS256''), (''use'', JStr ''sig''),
     (''n'', JStr n), (''e'', JStr ''AQAB'')]"

definition sample_ext :: Externals where
  "sample_ext = \<lparr>
     x_json_parse = (\<lambda>s. if s = ''new'' then Some (JObj [(''keys'', JArr [sample_key ''k1'' ''AAAA'', sample_key ''k2'' ''BBBB''])])
       else if s = ''old'' then Some (JObj [(''keys'', JArr [sample_key ''k1'' ''BBBB''])])
       else if s = ''active'' then Some (JObj [(''active'', JBool True), (''sub'', JStr ''alice''), (''scope'', JStr ''read write'')])
       else None),
     x_sha256 = (\<lambda>s. Some (take 32 (map (\<lambda>c. of_nat (uc c)) s @ replicate 32 0))),
     x_jwt_decode = (\<lambda>s. Some sample_decoded),
     x_alg_accepts = (\<lambda>alg pem. True),
     x_jwt_verify = (\<lambda>alg pem iss aud leeway now d. if pem = ''000000'' then NoError else SignatureError),
     x_rsa_key = (\<lambda>n e. Some (2048, Some (HexEncode n))),
     x_ec_pem = (\<lambda>g p. None), x_okp_pem = (\<lambda>g p. None)\<rparr>"

definition sample_opts :: VerifyOptions where
  "sample_opts = \<lparr>vo_expected_issuer = [], vo_expected_audience = [], vo_clock_skew_s = 60, vo_now_s = 500,
     vo_allowed_algorithms = []\<rparr>"

definition sample_parsed :: JwtParsed where
  "sample_parsed = \<lparr>jp_alg = ''RS256'', jp_kid = ''k1'', jp_typ = [], jp_subject = ''alice'', jp_issuer = ''https://idp'',
     jp_audience = [''api''], jp_exp = 1000, jp_nbf = 0, jp_iat = 0, jp_scope = ''read write'', jp_scp = [], jp_roles = []\<rparr>"

lemma sample_parse: "ParseJwt sample_ext ''tok'' = Some sample_parsed"
  by code_simp

lemma usable_key_iff_verifiable_witness:
  "IsUsableSigningKey sample_ext (sample_jwk\<lparr>jwk_n := ''AAAA''\<rparr>) \<and>
   VerifyJwt sample_ext ''tok'' (sample_jwk\<lparr>jwk_n := ''AAAA''\<rparr>) sample_opts \<noteq> Some UnusableKey"
proof -
  have "\<not> IsForbiddenAlgorithm (jp_alg sample_parsed)" "IsAlgorithmAllowed (jp_alg sample_parsed) (vo_allowed_algorithms sample_opts)"
    by code_simp+
  note t = usable_key_iff_verifiable [OF sample_parse this, of "sample_jwk\<lparr>jwk_n := ''AAAA''\<rparr>"]
  have "IsUsableSigningKey sample_ext (sample_jwk\<lparr>jwk_n := ''AAAA''\<rparr>)" by code_simp
  with t show ?thesis by blast
qed

lemma ParseJwt_kid_bounded_witness:
  "ParseJwt sample_ext ''tok'' = Some sample_parsed \<and> length (jp_kid sample_parsed) \<le> 256 \<and>
   CHR 0x0A \<notin> set (jp_kid sample_parsed)"
  using ParseJwt_kid_bounded [OF sample_parse] sample_parse by blast

end
