(* ===== verification/Validator.thy ===== *)
theory Validator
  imports Jwt Decision_Cache
begin

text \<open>
  The token validators (validator.hpp, validator.cpp, github_check.cpp). \<open>ValidateToken\<close> verifies a JWT
  against the cached keys of its provider and fetches the key set when it must: on a cold miss, or to
  refresh a kid whose cached keys do not verify the token. The other three ask the provider about an
  opaque token and remember its answer in the decision cache.

  \<^item> The caches are passed as state. A request to the network is a function of the request and of the
    cache, and returns the response with the cache as it is afterwards: the mutex is dropped while
    the thread waits, so other threads may have changed it. Properties that need it assume that they
    used the operations of the cache (\<open>jwks_run\<close>), and nothing else.
  \<^item> \<open>out_refresh\<close>, a pointer that may be null, is a \<open>RefreshEvent option\<close>.
  \<^item> \<open>iter\<close> is the iteration order of a \<open>std::unordered_map\<close>, which the language leaves open: some
    rearrangement of its content.
\<close>

section \<open>Refresh events (validator.hpp)\<close>

datatype RefreshReason = NoReason | Rotated | NoRotation | Throttled | BudgetThrottled | FetchFailed
  | ParseFailed | KidAbsent | KidEvicted | Revoked | Superseded

definition RefreshReason_ToString :: "RefreshReason \<Rightarrow> string" where
  "RefreshReason_ToString r =
     (case r of
        Rotated \<Rightarrow> ''refresh_rotated''
      | NoRotation \<Rightarrow> ''refresh_no_rotation''
      | Throttled \<Rightarrow> ''refresh_throttled''
      | BudgetThrottled \<Rightarrow> ''refresh_budget_throttled''
      | FetchFailed \<Rightarrow> ''refresh_fetch_failed''
      | ParseFailed \<Rightarrow> ''refresh_parse_failed''
      | KidAbsent \<Rightarrow> ''refresh_kid_absent''
      | KidEvicted \<Rightarrow> ''refresh_kid_evicted''
      | Revoked \<Rightarrow> ''refresh_revoked''
      | Superseded \<Rightarrow> ''refresh_superseded''
      | NoReason \<Rightarrow> [])"

definition ShouldAudit :: "RefreshReason \<Rightarrow> bool" where
  "ShouldAudit r = (case r of Throttled \<Rightarrow> False | BudgetThrottled \<Rightarrow> False | NoReason \<Rightarrow> False | _ \<Rightarrow> True)"

record RefreshEvent =
  re_kid :: string
  re_reason :: string
  re_reason_enum :: RefreshReason

definition new_RefreshEvent :: RefreshEvent where
  "new_RefreshEvent = \<lparr>re_kid = [], re_reason = [], re_reason_enum = NoReason\<rparr>"

text \<open>\<open>if (out_refresh) { out_refresh->kid = kid; out_refresh->SetReason(r); }\<close>\<close>

definition SetReason :: "string \<Rightarrow> RefreshReason \<Rightarrow> RefreshEvent option \<Rightarrow> RefreshEvent option" where
  "SetReason kid r out_refresh =
     map_option (\<lambda>ev. ev\<lparr>re_kid := kid, re_reason_enum := r, re_reason := RefreshReason_ToString r\<rparr>) out_refresh"

section \<open>Verification against several keys (validator.cpp)\<close>

definition AudienceMatches :: "string list \<Rightarrow> string \<Rightarrow> bool" where
  "AudienceMatches actual expected \<longleftrightarrow> (if expected = [] then True else expected \<in> set actual)"

definition SignatureMatchesCandidate :: "VerifyResult \<Rightarrow> bool" where
  "SignatureMatchesCandidate res \<longleftrightarrow>
     res = Ok \<or> res = Expired \<or> res = NotYetValid \<or> res = WrongIssuer \<or> res = WrongAudience"

definition JwkMatchesTokenHeader :: "Jwk \<Rightarrow> string \<Rightarrow> bool" where
  "JwkMatchesTokenHeader k token_alg \<longleftrightarrow>
     (if jwk_use k \<noteq> [] \<and> jwk_use k \<noteq> ''sig'' then False
      else if jwk_alg k \<noteq> [] \<and> jwk_alg k \<noteq> token_alg then False
      else True)"

definition IsCachedKeyUnusable :: "VerifyResult \<Rightarrow> bool" where
  "IsCachedKeyUnusable res \<longleftrightarrow> res = InvalidSignature \<or> res = UnusableKey"

text \<open>
  \<open>VerifyJwt\<close> as the validators call it, on a token that \<open>ParseJwt\<close> has accepted: it returns a result
  then (lemma \<open>VerifyJwt_no_exception\<close>), so the value given for an exception is never used.
\<close>

definition verify_one :: "Externals \<Rightarrow> string \<Rightarrow> Jwk \<Rightarrow> VerifyOptions \<Rightarrow> VerifyResult" where
  "verify_one X token k opts = (case VerifyJwt X token k opts of Some res \<Rightarrow> res | None \<Rightarrow> Malformed)"

fun verify_loop ::
    "Externals \<Rightarrow> string \<Rightarrow> VerifyOptions \<Rightarrow> Jwk list \<Rightarrow> bool \<Rightarrow> bool \<Rightarrow> VerifyResult \<Rightarrow> VerifyResult" where
  "verify_loop X token opts [] all_unsupported saw_invalid_sig fallback_failure =
     (if saw_invalid_sig then InvalidSignature
      else if all_unsupported then UnsupportedKeyType
      else fallback_failure)"
| "verify_loop X token opts (k # ks) all_unsupported saw_invalid_sig fallback_failure =
     (let res = verify_one X token k opts in
      if SignatureMatchesCandidate res then res
      else if res = InvalidSignature then verify_loop X token opts ks all_unsupported True fallback_failure
      else if res \<noteq> UnsupportedKeyType then verify_loop X token opts ks False saw_invalid_sig res
      else verify_loop X token opts ks all_unsupported saw_invalid_sig fallback_failure)"

definition VerifyWithCachedKeys :: "Externals \<Rightarrow> string \<Rightarrow> Jwk list \<Rightarrow> VerifyOptions \<Rightarrow> VerifyResult" where
  "VerifyWithCachedKeys X token keys opts =
     (if keys = [] then UnknownKid else verify_loop X token opts keys True False InvalidSignature)"

definition MatchingKeys :: "Jwk list \<Rightarrow> string \<Rightarrow> Jwk list" where
  "MatchingKeys keys alg = filter (\<lambda>k. JwkMatchesTokenHeader k alg) keys"

definition VerifyAgainstCachedKid :: "Externals \<Rightarrow> string \<Rightarrow> string \<Rightarrow> Jwk list \<Rightarrow> VerifyOptions \<Rightarrow> VerifyResult" where
  "VerifyAgainstCachedKid X token alg keys opts =
     (let matching = MatchingKeys keys alg
      in if matching = [] then NoMatchingKey else VerifyWithCachedKeys X token matching opts)"

type_synonym keys_by_kid = "(string \<times> Jwk list) list"

definition GroupSigningKeysByKid :: "Jwk list \<Rightarrow> keys_by_kid" where
  "GroupSigningKeysByKid keys =
     foldl (\<lambda>m k. if jwk_use k = [] \<or> jwk_use k = ''sig''
                   then AList.update (jwk_kid k) ((case map_of m (jwk_kid k) of None \<Rightarrow> [] | Some ks \<Rightarrow> ks) @ [k]) m
                   else m) [] keys"

definition ScreenUsableKeys :: "Externals \<Rightarrow> Jwk list \<Rightarrow> Jwk list" where
  "ScreenUsableKeys X raw_keys =
     foldl (\<lambda>valid cand. if IsUsableSigningKey X cand \<and> \<not> (\<exists>existing \<in> set valid. SameKeyMaterial existing cand)
                          then valid @ [cand] else valid) [] raw_keys"

fun SelectAndVerify :: "Externals \<Rightarrow> string \<Rightarrow> string \<Rightarrow> Jwk list \<Rightarrow> VerifyOptions \<Rightarrow> VerifyResult option" where
  "SelectAndVerify X token token_alg [] opts = None"
| "SelectAndVerify X token token_alg (cand # cands) opts =
     (if JwkMatchesTokenHeader cand token_alg \<and> SignatureMatchesCandidate (verify_one X token cand opts)
      then Some (verify_one X token cand opts)
      else SelectAndVerify X token token_alg cands opts)"

section \<open>Refreshing a cached kid (validator.cpp)\<close>

text \<open>\<open>(committed, cache, event)\<close>\<close>

definition CommitAndAudit ::
    "string \<Rightarrow> u64 \<Rightarrow> Jwk list \<Rightarrow> Jwk list \<Rightarrow> seconds \<Rightarrow> string \<Rightarrow> JwksCache \<Rightarrow> RefreshEvent option \<Rightarrow>
     bool \<times> JwksCache \<times> RefreshEvent option" where
  "CommitAndAudit kid reservation_id candidates cached now_s jwks_uri c out_refresh =
     (let has_new_material = (\<exists>cand \<in> set candidates. \<not> (\<exists>k \<in> set cached. SameKeyMaterial cand k));
          has_removed_material = (\<exists>k \<in> set cached. \<not> (\<exists>cand \<in> set candidates. SameKeyMaterial cand k));
          (committed, c') = CommitRefresh c kid reservation_id candidates now_s jwks_uri;
          reason = (if committed
                    then (if has_new_material then Rotated else if has_removed_material then Revoked else NoRotation)
                    else Superseded)
      in (committed, c', SetReason kid reason out_refresh))"

definition IngestSiblingKeys ::
    "Externals \<Rightarrow> (keys_by_kid \<Rightarrow> keys_by_kid) \<Rightarrow> keys_by_kid \<Rightarrow> string \<Rightarrow> seconds \<Rightarrow> string \<Rightarrow> JwksCache \<Rightarrow> JwksCache" where
  "IngestSiblingKeys X iter by_kid target_kid now_s jwks_uri c =
     (let present_kids = filter (\<lambda>k. k \<noteq> []) (map fst (iter by_kid));
          c1 = ReconcileAbsentKids c present_kids now_s jwks_uri target_kid
      in foldl (\<lambda>c (s_kid, s_keys).
             if s_kid \<noteq> target_kid
             then (let usable = ScreenUsableKeys X s_keys
                   in if usable \<noteq> [] then OnPassiveFetchSuccess c s_kid usable now_s jwks_uri else c)
             else c) c1 (iter by_kid))"

type_synonym http_get = "string \<Rightarrow> JwksCache \<Rightarrow> HttpResponse option \<times> JwksCache"

definition FetchAndParseJwks ::
    "Externals \<Rightarrow> http_get \<Rightarrow> string \<Rightarrow> VerifyOptions \<Rightarrow> string \<Rightarrow> JwksCache \<Rightarrow> RefreshEvent option \<Rightarrow>
     Jwk list option \<times> JwksCache \<times> RefreshEvent option" where
  "FetchAndParseJwks X get kid opts jwks_uri c out_refresh =
     (case get jwks_uri (RecordJwksFetch c (vo_now_s opts)) of
        (None, c1) \<Rightarrow> (None, c1, SetReason kid FetchFailed out_refresh)
      | (Some refresh, c1) \<Rightarrow>
          if status_code refresh \<noteq> 200 then (None, c1, SetReason kid FetchFailed out_refresh)
          else
            let keys = ParseJwksJson (x_json_parse X) (resp_body refresh)
            in if keys = [] then (None, c1, SetReason kid ParseFailed out_refresh)
               else (Some keys, RecordJwksFetchSuccess c1 (vo_now_s opts) jwks_uri, out_refresh))"

text \<open>The loop over the candidates; the result is the reordered vector and \<open>out_verified\<close>.\<close>

function prioritize_from ::
    "Externals \<Rightarrow> string \<Rightarrow> string \<Rightarrow> VerifyOptions \<Rightarrow> Jwk list \<Rightarrow> nat \<Rightarrow> Jwk list \<times> VerifyResult option" where
  "prioritize_from X token token_alg opts candidates i =
     (if i < length candidates
      then (case SelectAndVerify X token token_alg [candidates ! i] opts of
              Some res \<Rightarrow>
                if SignatureMatchesCandidate res
                then ((if 0 < i then candidates[0 := candidates ! i, i := candidates ! 0] else candidates), Some res)
                else prioritize_from X token token_alg opts candidates (Suc i)
            | None \<Rightarrow> prioritize_from X token token_alg opts candidates (Suc i))
      else (candidates, None))"
  by pat_completeness auto
termination
  by (relation "measure (\<lambda>(X, token, alg, opts, cs, i). length cs - i)") auto

declare prioritize_from.simps [simp del]

definition PrioritizeMatchingKey ::
    "Externals \<Rightarrow> Jwk list \<Rightarrow> string \<Rightarrow> string \<Rightarrow> VerifyOptions \<Rightarrow> Jwk list \<times> VerifyResult option" where
  "PrioritizeMatchingKey X candidates token token_alg opts =
     (if length candidates \<le> 1 then (candidates, None)
      else prioritize_from X token token_alg opts candidates 0)"

definition PrioritizeNewKeys :: "Jwk list \<Rightarrow> Jwk list \<Rightarrow> Jwk list" where
  "PrioritizeNewKeys candidates existing_keys =
     (if length candidates \<le> kMaxKeysPerKid \<or> existing_keys = [] then candidates
      else
        let is_old = (\<lambda>k. \<exists>old_k \<in> set existing_keys. SameKeyMaterial k old_k)
        in filter (\<lambda>k. \<not> is_old k) candidates @ filter is_old candidates)"

text \<open>\<open>(out_verified, cache, event)\<close>\<close>

definition CommitTargetKid ::
    "Externals \<Rightarrow> string \<Rightarrow> u64 \<Rightarrow> string \<Rightarrow> string \<Rightarrow> keys_by_kid \<Rightarrow> VerifyOptions \<Rightarrow> string \<Rightarrow> JwksCache \<Rightarrow>
     RefreshEvent option \<Rightarrow> VerifyResult option \<times> JwksCache \<times> RefreshEvent option" where
  "CommitTargetKid X kid reservation_id token token_alg by_kid opts jwks_uri c out_refresh =
     (case map_of by_kid kid of
        None \<Rightarrow>
          (case out_refresh of
             None \<Rightarrow> (None, c, None)
           | Some ev \<Rightarrow>
               let (evicted, c') = RecordKidAbsent c kid reservation_id (vo_now_s opts) jwks_uri
               in (None, c', SetReason kid (if evicted then KidEvicted else KidAbsent) (Some ev)))
      | Some raw \<Rightarrow>
          let candidates = ScreenUsableKeys X raw in
          if candidates = [] then (None, c, SetReason kid ParseFailed out_refresh)
          else
            let (candidates1, verified) = PrioritizeMatchingKey X candidates token token_alg opts;
                live_lookup = JwksCache_Lookup c kid (vo_now_s opts) jwks_uri;
                candidates2 = (if verified = None then PrioritizeNewKeys candidates1 (jl_keys live_lookup) else candidates1);
                (committed, c', ev') = CommitAndAudit kid reservation_id candidates2 (jl_keys live_lookup)
                  (vo_now_s opts) jwks_uri c out_refresh
            in ((if committed then verified else None), c', ev'))"

definition ReverifyAfterCommit ::
    "Externals \<Rightarrow> string \<Rightarrow> string \<Rightarrow> string \<Rightarrow> VerifyOptions \<Rightarrow> string \<Rightarrow> JwksCache \<Rightarrow> VerifyResult option \<Rightarrow> VerifyResult" where
  "ReverifyAfterCommit X token kid token_alg opts jwks_uri c cached_verified =
     (case cached_verified of
        Some res \<Rightarrow> res
      | None \<Rightarrow>
          let recheck = JwksCache_Lookup c kid (vo_now_s opts) jwks_uri in
          if jl_status recheck = Hit \<and> jl_keys recheck \<noteq> []
          then
            let matching = MatchingKeys (jl_keys recheck) token_alg in
            if matching = [] then NoMatchingKey
            else (case SelectAndVerify X token token_alg matching opts of Some res \<Rightarrow> res | None \<Rightarrow> InvalidSignature)
          else InvalidSignature)"

text \<open>\<open>(result or nullopt, cache, *out_refresh)\<close>\<close>

definition TryRefreshRotatedKid ::
    "Externals \<Rightarrow> (keys_by_kid \<Rightarrow> keys_by_kid) \<Rightarrow> http_get \<Rightarrow> string \<Rightarrow> string \<Rightarrow> string \<Rightarrow> VerifyOptions \<Rightarrow> string \<Rightarrow>
     JwksCache \<Rightarrow> RefreshEvent option \<Rightarrow> VerifyResult option \<times> JwksCache \<times> RefreshEvent option" where
  "TryRefreshRotatedKid X iter get token kid token_alg opts jwks_uri c out_refresh =
     (let effective_refresh = (case out_refresh of Some ev \<Rightarrow> ev | None \<Rightarrow> new_RefreshEvent);
          reason_of = (\<lambda>ev. RefreshReason_ToString (case ev of Some e \<Rightarrow> re_reason_enum e | None \<Rightarrow> NoReason));
          written = (\<lambda>ev. if out_refresh = None then None else ev);
          now_s = vo_now_s opts
      in if \<not> CanFetchJwks c now_s
         then (None, SetLastRefreshReason (IncrementThrottledRefreshes c True now_s) (RefreshReason_ToString BudgetThrottled),
               written (SetReason kid BudgetThrottled (Some effective_refresh)))
         else case TryReserveRefresh c kid now_s jwks_uri of
           (reservation_id, c1) \<Rightarrow>
             if reservation_id = 0
             then (None, SetLastRefreshReason (IncrementThrottledRefreshes c1 False now_s) (RefreshReason_ToString Throttled),
                   written (SetReason kid Throttled (Some effective_refresh)))
             else case FetchAndParseJwks X get kid opts jwks_uri c1 (Some effective_refresh) of
               (None, c2, ev2) \<Rightarrow> (None, SetLastRefreshReason c2 (reason_of ev2), written ev2)
             | (Some keys, c2, ev2) \<Rightarrow>
                 let by_kid = GroupSigningKeysByKid keys;
                     (verified, c3, ev3) =
                       CommitTargetKid X kid reservation_id token token_alg by_kid opts jwks_uri c2 ev2;
                     c4 = IngestSiblingKeys X iter by_kid kid now_s jwks_uri c3;
                     c5 = SetLastRefreshReason c4 (reason_of ev3)
                 in (Some (ReverifyAfterCommit X token kid token_alg opts jwks_uri c5 verified), c5, written ev3))"

section \<open>\<open>ValidateToken\<close> (validator.cpp)\<close>

text \<open>The loop that ingests the document of a cold miss, with \<open>cold_verified\<close> as its second state.\<close>

definition cold_ingest ::
    "Externals \<Rightarrow> (keys_by_kid \<Rightarrow> keys_by_kid) \<Rightarrow> string \<Rightarrow> JwtParsed \<Rightarrow> VerifyOptions \<Rightarrow> string \<Rightarrow> keys_by_kid \<Rightarrow>
     JwksCache \<Rightarrow> JwksCache \<times> VerifyResult option" where
  "cold_ingest X iter token parsed opts jwks_uri by_kid c =
     foldl (\<lambda>(c, cold_verified) (k_kid, k_keys).
         let usable = ScreenUsableKeys X k_keys in
         if usable = [] then (c, cold_verified)
         else if k_kid = jp_kid parsed
         then (case PrioritizeMatchingKey X usable token (jp_alg parsed) opts of
                 (usable', verified) \<Rightarrow>
                   (OnPassiveFetchSuccess c k_kid usable' (vo_now_s opts) jwks_uri,
                    (if verified = None then cold_verified else verified)))
         else (OnPassiveFetchSuccess c k_kid usable (vo_now_s opts) jwks_uri, cold_verified))
       (c, None) (iter by_kid)"

text \<open>The answer for a kid the fetched document gave no usable key for.\<close>

definition absent_kid_result :: "Externals \<Rightarrow> JwtParsed \<Rightarrow> Jwk list \<Rightarrow> keys_by_kid \<Rightarrow> VerifyResult" where
  "absent_kid_result X parsed keys by_kid =
     (case map_of by_kid (jp_kid parsed) of
        Some cands \<Rightarrow>
          if \<exists>k \<in> set cands. jwk_kty k = ''RSA'' \<and> snd (JwkRsaToPem X k) then UnsupportedKeyType else UnusableKey
      | None \<Rightarrow> if \<exists>k \<in> set keys. jwk_kid k = jp_kid parsed then NoMatchingKey else UnknownKid)"

text \<open>From a lookup that found neither keys nor a recent miss.\<close>

definition cold_miss ::
    "Externals \<Rightarrow> (keys_by_kid \<Rightarrow> keys_by_kid) \<Rightarrow> http_get \<Rightarrow> string \<Rightarrow> JwtParsed \<Rightarrow> VerifyOptions \<Rightarrow> string \<Rightarrow>
     JwksCache \<Rightarrow> RefreshEvent option \<Rightarrow> VerifyResult \<times> JwksCache \<times> RefreshEvent option" where
  "cold_miss X iter get token parsed opts jwks_uri c out_refresh =
     (let now_s = vo_now_s opts; kid = jp_kid parsed in
      if HasFreshJwksDocument c now_s kGlobalFetchBudgetWindowSeconds jwks_uri then (UnknownKid, c, out_refresh)
      else if \<not> CanFetchJwks c now_s
      then (JwksThrottled, IncrementThrottledRefreshes c True now_s, SetReason kid BudgetThrottled out_refresh)
      else case get jwks_uri (RecordJwksFetch c now_s) of
        (None, c1) \<Rightarrow> (JwksFetchFailed, c1, out_refresh)
      | (Some resp, c1) \<Rightarrow>
          if status_code resp \<noteq> 200 then (JwksFetchFailed, c1, out_refresh)
          else
            let keys = ParseJwksJson (x_json_parse X) (resp_body resp) in
            if keys = [] then (UnknownKid, OnFetchMiss c1 kid now_s jwks_uri, out_refresh)
            else
              let c2 = RecordJwksFetchSuccess c1 now_s jwks_uri;
                  by_kid = GroupSigningKeysByKid keys;
                  (c3, cold_verified) = cold_ingest X iter token parsed opts jwks_uri by_kid c2;
                  second_lookup = JwksCache_Lookup c3 kid now_s jwks_uri
              in if jl_status second_lookup \<noteq> Hit \<or> jl_keys second_lookup = []
                 then (absent_kid_result X parsed keys by_kid, OnFetchMiss c3 kid now_s jwks_uri, out_refresh)
                 else
                   (case cold_verified of
                      Some res \<Rightarrow>
                        if SignatureMatchesCandidate res then (res, c3, out_refresh)
                        else (VerifyAgainstCachedKid X token (jp_alg parsed) (jl_keys second_lookup) opts, c3, out_refresh)
                    | None \<Rightarrow> (VerifyAgainstCachedKid X token (jp_alg parsed) (jl_keys second_lookup) opts, c3, out_refresh)))"

definition ValidateToken ::
    "Externals \<Rightarrow> (keys_by_kid \<Rightarrow> keys_by_kid) \<Rightarrow> http_get \<Rightarrow> string \<Rightarrow> VerifyOptions \<Rightarrow> string \<Rightarrow> JwksCache \<Rightarrow>
     RefreshEvent option \<Rightarrow> VerifyResult \<times> JwksCache \<times> RefreshEvent option" where
  "ValidateToken X iter get token opts jwks_uri c out_refresh =
     (case ParseJwt X token of
        None \<Rightarrow> (Malformed, c, out_refresh)
      | Some parsed \<Rightarrow>
          if IsForbiddenAlgorithm (jp_alg parsed) \<or> \<not> IsAlgorithmAllowed (jp_alg parsed) (vo_allowed_algorithms opts)
          then (DisallowedAlgorithm, c, out_refresh)
          else if jp_kid parsed = [] then (UnknownKid, c, out_refresh)
          else
            let first_lookup = JwksCache_Lookup c (jp_kid parsed) (vo_now_s opts) jwks_uri;
                refresh = (\<lambda>dflt. case TryRefreshRotatedKid X iter get token (jp_kid parsed) (jp_alg parsed) opts jwks_uri
                    c out_refresh of
                  (Some res, c', ev') \<Rightarrow> (res, c', ev')
                | (None, c', ev') \<Rightarrow> (dflt, c', ev'))
            in (case jl_status first_lookup of
                  Hit \<Rightarrow>
                    let matching = MatchingKeys (jl_keys first_lookup) (jp_alg parsed) in
                    if matching \<noteq> []
                    then
                      let cached_result = VerifyWithCachedKeys X token matching opts in
                      if \<not> IsCachedKeyUnusable cached_result then (cached_result, c, out_refresh)
                      else refresh cached_result
                    else refresh NoMatchingKey
                | RateLimited \<Rightarrow>
                    (JwksThrottled, IncrementThrottledRefreshes c False (vo_now_s opts),
                     SetReason (jp_kid parsed) Throttled out_refresh)
                | Miss \<Rightarrow> cold_miss X iter get token parsed opts jwks_uri c out_refresh))"

section \<open>Lemmas on the selection of keys\<close>

lemma verify_one_Ok: "verify_one X token k opts = Ok \<longleftrightarrow> VerifyJwt X token k opts = Some Ok"
  by (simp add: verify_one_def split: option.split)

lemma verify_loop_Ok:
  "verify_loop X token opts ks u i f = Ok \<Longrightarrow> f \<noteq> Ok \<Longrightarrow> \<exists>k \<in> set ks. VerifyJwt X token k opts = Some Ok"
proof (induction X token opts ks u i f rule: verify_loop.induct)
  case (2 X token opts k ks u i f)
  show ?case
  proof (cases "SignatureMatchesCandidate (verify_one X token k opts)")
    case True
    with 2 show ?thesis by (auto simp: Let_def verify_one_Ok)
  next
    case False
    then have "verify_one X token k opts \<noteq> Ok" by (auto simp: SignatureMatchesCandidate_def)
    with 2 False show ?thesis by (auto simp: Let_def split: if_splits)
  qed
qed (simp split: if_splits)

lemma VerifyWithCachedKeys_Ok: "VerifyWithCachedKeys X token ks opts = Ok \<Longrightarrow> \<exists>k \<in> set ks. VerifyJwt X token k opts = Some Ok"
  using verify_loop_Ok [of X token opts ks True False InvalidSignature]
  by (simp add: VerifyWithCachedKeys_def split: if_splits)

lemma SelectAndVerify_Some:
  "SelectAndVerify X token alg ks opts = Some r \<Longrightarrow>
     \<exists>k \<in> set ks. JwkMatchesTokenHeader k alg \<and> verify_one X token k opts = r \<and> SignatureMatchesCandidate r"
  by (induction X token alg ks opts rule: SelectAndVerify.induct) (auto split: if_splits)

lemma SelectAndVerify_None:
  "SelectAndVerify X token alg ks opts = None \<Longrightarrow> k \<in> set ks \<Longrightarrow> JwkMatchesTokenHeader k alg \<Longrightarrow>
     \<not> SignatureMatchesCandidate (verify_one X token k opts)"
  by (induction X token alg ks opts rule: SelectAndVerify.induct) (auto split: if_splits)

lemma mset_swap0: "i < length xs \<Longrightarrow> 0 < i \<Longrightarrow> mset (xs[0 := xs ! i, i := xs ! 0]) = mset xs"
  using mset_swap [of i xs 0] by (cases "xs = []") (auto simp: list_update_swap)

lemma prioritize_from_spec:
  "prioritize_from X token alg opts cs i = (cs', v) \<Longrightarrow>
     mset cs' = mset cs \<and>
     (case v of
        Some r \<Rightarrow> (\<exists>k \<in> set cs. JwkMatchesTokenHeader k alg \<and> verify_one X token k opts = r \<and> SignatureMatchesCandidate r)
      | None \<Rightarrow> cs' = cs \<and> (\<forall>j. i \<le> j \<longrightarrow> j < length cs \<longrightarrow> JwkMatchesTokenHeader (cs ! j) alg \<longrightarrow>
                  \<not> SignatureMatchesCandidate (verify_one X token (cs ! j) opts)))"
proof (induction X token alg opts cs i arbitrary: cs' v rule: prioritize_from.induct)
  case (1 X token alg opts cs i)
  show ?case
  proof (cases "i < length cs")
    case False
    with "1.prems" show ?thesis by (simp add: prioritize_from.simps [of X token alg opts cs i])
  next
    case lt: True
    show ?thesis
    proof (cases "SelectAndVerify X token alg [cs ! i] opts")
      case None
      with lt "1.prems" have r: "prioritize_from X token alg opts cs (Suc i) = (cs', v)"
        by (simp add: prioritize_from.simps [of X token alg opts cs i])
      have "\<not> SignatureMatchesCandidate (verify_one X token (cs ! i) opts)" if "JwkMatchesTokenHeader (cs ! i) alg"
        using SelectAndVerify_None [OF None, of "cs ! i"] that by simp
      with "1.IH"(1) [OF lt None r] show ?thesis
        by (auto simp: le_eq_less_or_eq [of i] Suc_le_eq split: option.splits)
    next
      case (Some r)
      from SelectAndVerify_Some [OF this] have m: "JwkMatchesTokenHeader (cs ! i) alg" "verify_one X token (cs ! i) opts = r"
          "SignatureMatchesCandidate r" by simp_all
      with lt Some "1.prems" have "v = Some r" "cs' = (if 0 < i then cs[0 := cs ! i, i := cs ! 0] else cs)"
        by (simp_all add: prioritize_from.simps [of X token alg opts cs i])
      with m lt show ?thesis by (auto simp: mset_swap0 intro: bexI [of _ "cs ! i"])
    qed
  qed
qed

lemma PrioritizeMatchingKey_spec:
  assumes "PrioritizeMatchingKey X cs token alg opts = (cs', v)"
  shows "set cs' = set cs" "length cs' = length cs"
    "v = Some r \<Longrightarrow> \<exists>k \<in> set cs. JwkMatchesTokenHeader k alg \<and> verify_one X token k opts = r \<and> SignatureMatchesCandidate r"
    "v = None \<Longrightarrow> cs' = cs"
    "v = None \<Longrightarrow> 1 < length cs \<Longrightarrow> k \<in> set cs \<Longrightarrow> JwkMatchesTokenHeader k alg \<Longrightarrow>
       \<not> SignatureMatchesCandidate (verify_one X token k opts)"
proof -
  note d = assms [unfolded PrioritizeMatchingKey_def]
  have m: "mset cs' = mset cs" using d prioritize_from_spec [of X token alg opts cs 0 cs' v] by (auto split: if_splits)
  then show "set cs' = set cs" "length cs' = length cs" by (metis set_mset_mset, metis size_mset)
  show "\<exists>k \<in> set cs. JwkMatchesTokenHeader k alg \<and> verify_one X token k opts = r \<and> SignatureMatchesCandidate r" if "v = Some r"
    using d that prioritize_from_spec [of X token alg opts cs 0 cs' v] by (simp split: if_splits)
  show "v = None \<Longrightarrow> cs' = cs"
    using d prioritize_from_spec [of X token alg opts cs 0 cs' v] by (auto split: if_splits)
  show "\<not> SignatureMatchesCandidate (verify_one X token k opts)"
    if "v = None" "1 < length cs" "k \<in> set cs" "JwkMatchesTokenHeader k alg"
    using d that prioritize_from_spec [of X token alg opts cs 0 cs' v] by (auto simp: in_set_conv_nth)
qed

lemma PrioritizeNewKeys_set: "set (PrioritizeNewKeys cs old) = set cs"
  by (auto simp: PrioritizeNewKeys_def Let_def)

lemma PrioritizeNewKeys_Nil [simp]: "PrioritizeNewKeys cs old = [] \<longleftrightarrow> cs = []"
  using PrioritizeNewKeys_set [of cs old] by (metis set_empty)

text \<open>Screening keeps only usable keys, in order, one for each key material.\<close>

lemma screen_foldl:
  defines "step \<equiv> \<lambda>X valid cand. if IsUsableSigningKey X cand \<and> \<not> (\<exists>existing \<in> set valid. SameKeyMaterial existing cand)
    then valid @ [cand] else valid"
  shows "set (foldl (step X) valid raw) \<subseteq> set valid \<union> {k \<in> set raw. IsUsableSigningKey X k} \<and>
    set valid \<subseteq> set (foldl (step X) valid raw) \<and>
    (\<forall>k \<in> set raw. IsUsableSigningKey X k \<longrightarrow>
       k \<in> set (foldl (step X) valid raw) \<or> (\<exists>k' \<in> set (foldl (step X) valid raw). SameKeyMaterial k' k))"
proof (induction raw arbitrary: valid)
  case (Cons cand raw)
  show ?case
  proof (cases "IsUsableSigningKey X cand \<and> \<not> (\<exists>existing \<in> set valid. SameKeyMaterial existing cand)")
    case True
    then have "step X valid cand = valid @ [cand]" by (simp add: step_def)
    with Cons.IH [of "valid @ [cand]"] True show ?thesis by auto
  next
    case False
    then have "step X valid cand = valid" "IsUsableSigningKey X cand \<Longrightarrow> \<exists>existing \<in> set valid. SameKeyMaterial existing cand"
      by (auto simp: step_def)
    with Cons.IH [of valid] show ?thesis by auto
  qed
qed simp

lemma ScreenUsableKeys_spec:
  "set (ScreenUsableKeys X raw) \<subseteq> {k \<in> set raw. IsUsableSigningKey X k}"
  "k \<in> set raw \<Longrightarrow> IsUsableSigningKey X k \<Longrightarrow>
     k \<in> set (ScreenUsableKeys X raw) \<or> (\<exists>k' \<in> set (ScreenUsableKeys X raw). SameKeyMaterial k' k)"
  using screen_foldl [of X "[]" raw] by (simp_all add: ScreenUsableKeys_def)

text \<open>Grouping: the signing keys of a kid, in document order.\<close>

definition signing_keys :: "Jwk list \<Rightarrow> string \<Rightarrow> Jwk list" where
  "signing_keys keys kid = filter (\<lambda>k. jwk_kid k = kid \<and> (jwk_use k = [] \<or> jwk_use k = ''sig'')) keys"

lemma group_foldl:
  defines "step \<equiv> \<lambda>m k. if jwk_use k = [] \<or> jwk_use k = ''sig''
    then AList.update (jwk_kid k) ((case map_of m (jwk_kid k) of None \<Rightarrow> [] | Some ks \<Rightarrow> ks) @ [k]) m else m"
  shows "map_of (foldl step m keys) kid =
      (if signing_keys keys kid = [] then map_of m kid
       else Some ((case map_of m kid of None \<Rightarrow> [] | Some ks \<Rightarrow> ks) @ signing_keys keys kid)) \<and>
    (distinct (map fst m) \<longrightarrow> distinct (map fst (foldl step m keys)))"
proof (induction keys arbitrary: m)
  case (Cons k keys)
  from Cons.IH [of "step m k"] show ?case
    by (auto simp: step_def signing_keys_def distinct_update)
qed (simp add: signing_keys_def)

lemma GroupSigningKeysByKid_spec:
  "map_of (GroupSigningKeysByKid keys) kid =
     (if signing_keys keys kid = [] then None else Some (signing_keys keys kid))"
  "distinct (map fst (GroupSigningKeysByKid keys))"
  using group_foldl [of "[]" keys kid] by (simp_all add: GroupSigningKeysByKid_def)

section \<open>Trust in the cached keys\<close>

text \<open>
  \<open>T k jwk\<close> is any notion of a key being trusted under a cache key, for instance having been published
  by the provider. The cache is trusted when all its keys are; an honest network answers requests for
  \<open>uri\<close> with trusted keys only, and while the caller waits the other threads keep the cache trusted.
\<close>

definition trusted_cache :: "(string \<Rightarrow> Jwk \<Rightarrow> bool) \<Rightarrow> JwksCache \<Rightarrow> bool" where
  "trusted_cache T c \<longleftrightarrow> jwks_ok c \<and> (\<forall>k. \<forall>jwk \<in> set (cached_keys c k). T k jwk)"

definition trusted_keys :: "(string \<Rightarrow> Jwk \<Rightarrow> bool) \<Rightarrow> string \<Rightarrow> Jwk list \<Rightarrow> bool" where
  "trusted_keys T uri keys \<longleftrightarrow> (\<forall>jwk \<in> set keys. T (CacheKey uri (jwk_kid jwk)) jwk)"

definition honest_get :: "Externals \<Rightarrow> (string \<Rightarrow> Jwk \<Rightarrow> bool) \<Rightarrow> string \<Rightarrow> http_get \<Rightarrow> bool" where
  "honest_get X T uri get \<longleftrightarrow>
     (\<forall>c. trusted_cache T c \<longrightarrow> trusted_cache T (snd (get uri c)) \<and>
       (\<forall>resp. fst (get uri c) = Some resp \<longrightarrow> status_code resp = 200 \<longrightarrow>
          trusted_keys T uri (ParseJwksJson (x_json_parse X) (resp_body resp))))"

text \<open>A trusted key of the token's kid, fit for its algorithm, verifies it.\<close>

definition verified_by_trusted ::
    "Externals \<Rightarrow> (string \<Rightarrow> Jwk \<Rightarrow> bool) \<Rightarrow> string \<Rightarrow> string \<Rightarrow> string \<Rightarrow> string \<Rightarrow> VerifyOptions \<Rightarrow> bool" where
  "verified_by_trusted X T uri kid alg token opts \<longleftrightarrow>
     (\<exists>jwk. T (CacheKey uri kid) jwk \<and> JwkMatchesTokenHeader jwk alg \<and> VerifyJwt X token jwk opts = Some Ok)"

lemma trusted_step:
  assumes "trusted_cache T c" "\<And>k jwk. jwk \<in> op_keys op k \<Longrightarrow> T k jwk"
  shows "trusted_cache T (jwks_step op c)"
proof -
  have ok: "jwks_ok c" using assms(1) by (simp add: trusted_cache_def)
  have "set (cached_keys (jwks_step op c) k) \<subseteq> op_keys op k \<union> set (cached_keys c k)" for k
    using cached_keys_run [OF ok, of "[op]" k] by (simp add: jwks_run_def)
  with assms show ?thesis by (force simp: trusted_cache_def jwks_step_ok)
qed

lemma trusted_ops:
  assumes "trusted_cache T c"
  shows "trusted_cache T (RecordJwksFetch c now)" "trusted_cache T (RecordJwksFetchSuccess c now uri)"
    "trusted_cache T (IncrementThrottledRefreshes c b now)" "trusted_cache T (SetLastRefreshReason c r)"
    "trusted_cache T (OnFetchMiss c kid now uri)" "trusted_cache T (ReconcileAbsentKids c present now uri excl)"
    "trusted_cache T (snd (RecordKidAbsent c kid rid now uri))" "trusted_cache T (snd (TryReserveRefresh c kid now uri))"
  using trusted_step [OF assms, of "OpFetch now"] trusted_step [OF assms, of "OpFetched now uri"]
    trusted_step [OF assms, of "OpThrottled b now"] trusted_step [OF assms, of "OpReason r"]
    trusted_step [OF assms, of "OpMiss kid now uri"] trusted_step [OF assms, of "OpReconcile present now uri excl"]
    trusted_step [OF assms, of "OpAbsent kid rid now uri"] trusted_step [OF assms, of "OpReserve kid now uri"]
  by simp_all

lemma trusted_passive:
  assumes "trusted_cache T c" "\<And>jwk. jwk \<in> set keys \<Longrightarrow> T (CacheKey uri kid) jwk"
  shows "trusted_cache T (OnPassiveFetchSuccess c kid keys now uri)"
proof -
  have "T k jwk" if "jwk \<in> op_keys (OpPassive kid keys now uri) k" for k jwk
    using that assms(2) by (simp split: if_splits)
  then show ?thesis using trusted_step [of T c "OpPassive kid keys now uri"] assms(1) by auto
qed

lemma trusted_commit:
  assumes "trusted_cache T c" "\<And>jwk. jwk \<in> set keys \<Longrightarrow> T (CacheKey uri kid) jwk"
  shows "trusted_cache T (snd (CommitRefresh c kid rid keys now uri))"
proof -
  have "T k jwk" if "jwk \<in> op_keys (OpCommit kid rid keys now uri) k" for k jwk
    using that assms(2) by (simp split: if_splits)
  then show ?thesis using trusted_step [of T c "OpCommit kid rid keys now uri"] assms(1) by auto
qed

lemma trusted_group:
  assumes "trusted_keys T uri keys" "map_of (GroupSigningKeysByKid keys) kid = Some ks" "jwk \<in> set ks"
  shows "T (CacheKey uri kid) jwk"
  using assms by (auto simp: GroupSigningKeysByKid_spec signing_keys_def trusted_keys_def split: if_splits)

lemma trusted_screened:
  assumes "trusted_keys T uri keys" "map_of (GroupSigningKeysByKid keys) kid = Some ks" "jwk \<in> set (ScreenUsableKeys X ks)"
  shows "T (CacheKey uri kid) jwk"
  using trusted_group [OF assms(1,2)] assms(3) ScreenUsableKeys_spec(1) [of X ks] by blast

lemma FetchAndParseJwks_trusted:
  assumes "honest_get X T uri get" "trusted_cache T c" "FetchAndParseJwks X get kid opts uri c ev = (r, c', ev')"
  shows "trusted_cache T c'" "r = Some keys \<Longrightarrow> trusted_keys T uri keys"
proof -
  let ?g = "get uri (RecordJwksFetch c (vo_now_s opts))"
  have h: "trusted_cache T (snd ?g)" "\<And>resp. fst ?g = Some resp \<Longrightarrow> status_code resp = 200 \<Longrightarrow>
      trusted_keys T uri (ParseJwksJson (x_json_parse X) (resp_body resp))"
    using assms(1) trusted_ops(1) [OF assms(2)] unfolding honest_get_def by blast+
  obtain g c1 where g: "?g = (g, c1)" by fastforce
  show "trusted_cache T c'"
    using assms(3) h(1) g by (auto simp: FetchAndParseJwks_def Let_def trusted_ops split: option.splits if_splits)
  show "trusted_keys T uri keys" if "r = Some keys"
    using assms(3) h(2) g that by (auto simp: FetchAndParseJwks_def Let_def split: option.splits if_splits)
qed

lemma CommitTargetKid_trusted:
  assumes T: "trusted_keys T uri keys" "trusted_cache T c"
    and r: "CommitTargetKid X kid rid token alg (GroupSigningKeysByKid keys) opts uri c ev = (v, c', ev')"
  shows "trusted_cache T c' \<and> (v = Some Ok \<longrightarrow> verified_by_trusted X T uri kid alg token opts)"
proof (cases "map_of (GroupSigningKeysByKid keys) kid")
  case None
  with r T show ?thesis
    using trusted_ops(7) [OF T(2), of kid rid "vo_now_s opts" uri]
    by (auto simp: CommitTargetKid_def Let_def split_beta split: option.splits)
next
  case (Some raw)
  let ?cs = "ScreenUsableKeys X raw"
  obtain cs1 v1 where p: "PrioritizeMatchingKey X ?cs token alg opts = (cs1, v1)" by fastforce
  note ps = PrioritizeMatchingKey_spec [OF p]
  let ?live = "jl_keys (JwksCache_Lookup c kid (vo_now_s opts) uri)"
  let ?cs2 = "if v1 = None then PrioritizeNewKeys cs1 ?live else cs1"
  have t: "T (CacheKey uri kid) jwk" if "jwk \<in> set ?cs2" for jwk
    using that trusted_screened [OF T(1) Some] ps(1) by (simp add: PrioritizeNewKeys_set split: if_splits)
  have c': "trusted_cache T (snd (CommitRefresh c kid rid ?cs2 (vo_now_s opts) uri))"
    using t by (rule trusted_commit [OF T(2)])
  have good: "verified_by_trusted X T uri kid alg token opts" if "v1 = Some Ok"
    using ps(3) [OF that] trusted_screened [OF T(1) Some] by (auto simp: verified_by_trusted_def verify_one_Ok)
  show ?thesis
    using r Some T(2) c' good
    by (auto simp: CommitTargetKid_def CommitAndAudit_def Let_def p split_beta split: if_splits)
qed

lemma foldl_inv: "P a \<Longrightarrow> (\<And>a x. P a \<Longrightarrow> x \<in> set xs \<Longrightarrow> P (f a x)) \<Longrightarrow> P (foldl f a xs)"
  by (induction xs arbitrary: a) auto

lemma group_member:
  assumes "\<forall>m. mset (iter m) = mset m" "(kid, ks) \<in> set (iter (GroupSigningKeysByKid keys))"
  shows "map_of (GroupSigningKeysByKid keys) kid = Some ks"
proof -
  have "set (iter m) = set m" for m using assms(1) by (metis set_mset_mset)
  then have "(kid, ks) \<in> set (GroupSigningKeysByKid keys)" using assms(2) by blast
  then show ?thesis by (simp add: map_of_eq_Some_iff [OF GroupSigningKeysByKid_spec(2)])
qed

lemma IngestSiblingKeys_trusted:
  assumes iter: "\<forall>m. mset (iter m) = mset m" and T: "trusted_keys T uri keys" "trusted_cache T c"
  shows "trusted_cache T (IngestSiblingKeys X iter (GroupSigningKeysByKid keys) kid now uri c)"
proof -
  let ?g = "GroupSigningKeysByKid keys"
  have step: "trusted_cache T (OnPassiveFetchSuccess a s_kid (ScreenUsableKeys X s_keys) now uri)"
    if "trusted_cache T a" "(s_kid, s_keys) \<in> set (iter ?g)" for a s_kid s_keys
    using trusted_screened [OF T(1) group_member [OF iter that(2)]] by (rule trusted_passive [OF that(1)])
  show ?thesis
    unfolding IngestSiblingKeys_def Let_def
  proof (rule foldl_inv [where P = "trusted_cache T"], rule trusted_ops(6) [OF T(2)])
    fix a x
    assume "trusted_cache T a" "x \<in> set (iter ?g)"
    then show "trusted_cache T (case x of (s_kid, s_keys) \<Rightarrow> if s_kid \<noteq> kid then
        if ScreenUsableKeys X s_keys \<noteq> [] then OnPassiveFetchSuccess a s_kid (ScreenUsableKeys X s_keys) now uri else a else a)"
      using step [of a "fst x" "snd x"] by (simp add: split_beta)
  qed
qed

lemma Reverify_trusted:
  assumes "trusted_cache T c" "v = Some Ok \<longrightarrow> verified_by_trusted X T uri kid alg token opts"
    "ReverifyAfterCommit X token kid alg opts uri c v = Ok"
  shows "verified_by_trusted X T uri kid alg token opts"
proof (cases v)
  case None
  let ?ks = "jl_keys (JwksCache_Lookup c kid (vo_now_s opts) uri)"
  from assms(3) None have "SelectAndVerify X token alg (MatchingKeys ?ks alg) opts = Some Ok"
    by (simp add: ReverifyAfterCommit_def Let_def split: if_splits option.splits)
  from SelectAndVerify_Some [OF this] obtain jwk where
    "jwk \<in> set ?ks" "JwkMatchesTokenHeader jwk alg" "VerifyJwt X token jwk opts = Some Ok"
    by (auto simp: MatchingKeys_def verify_one_Ok)
  with assms(1) show ?thesis by (auto simp: verified_by_trusted_def trusted_cache_def Lookup_keys)
qed (use assms in \<open>simp add: ReverifyAfterCommit_def\<close>)

text \<open>The ways a refresh can end: without a request, with a failed one, or with a document.\<close>

lemma TryRefresh_cases:
  fixes X iter get token kid alg opts uri c ev
  defines "r \<equiv> TryRefreshRotatedKid X iter get token kid alg opts uri c ev"
  obtains (throttled) b reason c1 where "fst r = None"
      "\<not> CanFetchJwks c (vo_now_s opts) \<and> c1 = c \<or>
       CanFetchJwks c (vo_now_s opts) \<and> TryReserveRefresh c kid (vo_now_s opts) uri = (0, c1)"
      "fst (snd r) = SetLastRefreshReason (IncrementThrottledRefreshes c1 b (vo_now_s opts)) reason"
  | (failed) c2 e1 ev2 reason where "CanFetchJwks c (vo_now_s opts)" "fst (TryReserveRefresh c kid (vo_now_s opts) uri) \<noteq> 0"
      "FetchAndParseJwks X get kid opts uri (snd (TryReserveRefresh c kid (vo_now_s opts) uri)) (Some e1) = (None, c2, ev2)"
      "fst r = None" "fst (snd r) = SetLastRefreshReason c2 reason"
  | (fetched) rid c1 e1 keys c2 ev2 v c3 ev3 c5 reason where "CanFetchJwks c (vo_now_s opts)"
      "TryReserveRefresh c kid (vo_now_s opts) uri = (rid, c1)" "rid \<noteq> 0"
      "FetchAndParseJwks X get kid opts uri c1 (Some e1) = (Some keys, c2, ev2)"
      "CommitTargetKid X kid rid token alg (GroupSigningKeysByKid keys) opts uri c2 ev2 = (v, c3, ev3)"
      "c5 = SetLastRefreshReason (IngestSiblingKeys X iter (GroupSigningKeysByKid keys) kid (vo_now_s opts) uri c3) reason"
      "fst r = Some (ReverifyAfterCommit X token kid alg opts uri c5 v)" "fst (snd r) = c5"
proof -
  let ?now = "vo_now_s opts"
  let ?e1 = "case ev of Some ev \<Rightarrow> ev | None \<Rightarrow> new_RefreshEvent"
  obtain rid c1 where res: "TryReserveRefresh c kid ?now uri = (rid, c1)" by fastforce
  obtain keys c2 ev2 where fetch: "FetchAndParseJwks X get kid opts uri c1 (Some ?e1) = (keys, c2, ev2)"
    by (cases "FetchAndParseJwks X get kid opts uri c1 (Some ?e1)") auto
  note d = r_def TryRefreshRotatedKid_def Let_def
  consider "\<not> CanFetchJwks c ?now" | "CanFetchJwks c ?now" "rid = 0" | "CanFetchJwks c ?now" "rid \<noteq> 0" "keys = None"
    | ks where "CanFetchJwks c ?now" "rid \<noteq> 0" "keys = Some ks" by (cases keys) auto
  then show ?thesis
  proof cases
    case 1
    then show ?thesis by (intro throttled [of c]) (auto simp: d)
  next
    case 2
    then show ?thesis by (intro throttled [of c1]) (auto simp: d res)
  next
    case 3
    then show ?thesis using fetch by (intro failed [of ?e1 c2 ev2]) (auto simp: d res)
  next
    case 4
    obtain v c3 ev3 where com: "CommitTargetKid X kid rid token alg (GroupSigningKeysByKid ks) opts uri c2 ev2 = (v, c3, ev3)"
      by (cases "CommitTargetKid X kid rid token alg (GroupSigningKeysByKid ks) opts uri c2 ev2") auto
    show ?thesis
      by (rule fetched [OF 4(1) res 4(2) fetch [unfolded 4(3)] com refl]) (simp_all add: d res fetch 4 com)
  qed
qed

lemma TryRefresh_trusted:
  assumes iter: "\<forall>m. mset (iter m) = mset m" and get: "honest_get X T uri get" and c: "trusted_cache T c"
    and r: "TryRefreshRotatedKid X iter get token kid alg opts uri c ev = (res, c', ev')"
  shows "trusted_cache T c' \<and> (res = Some Ok \<longrightarrow> verified_by_trusted X T uri kid alg token opts)"
proof (cases rule: TryRefresh_cases [of X iter get token kid alg opts uri c ev])
  case (throttled b reason c1)
  then have "trusted_cache T c1" using c trusted_ops(8) [OF c, of kid "vo_now_s opts" uri] by auto
  with throttled r show ?thesis by (simp add: trusted_ops)
next
  case (failed c2 e1 ev2 reason)
  have "trusted_cache T c2" by (rule FetchAndParseJwks_trusted(1) [OF get trusted_ops(8) [OF c] failed(3)])
  with failed r show ?thesis by (simp add: trusted_ops)
next
  case (fetched rid c1 e1 keys c2 ev2 v c3 ev3 c5 reason)
  have c1: "trusted_cache T c1" using trusted_ops(8) [OF c, of kid "vo_now_s opts" uri] fetched(2) by simp
  note f = FetchAndParseJwks_trusted [OF get c1 fetched(4)]
  have k: "trusted_keys T uri keys" by (rule f(2)) simp
  note com = CommitTargetKid_trusted [OF k f(1) fetched(5)]
  have c5: "trusted_cache T c5"
    unfolding fetched(6) using com by (intro trusted_ops(4) IngestSiblingKeys_trusted [OF iter k]) blast
  with com Reverify_trusted [OF c5, of v X uri kid alg token opts] fetched(7,8) r show ?thesis by auto
qed

lemma cold_ingest_trusted:
  assumes iter: "\<forall>m. mset (iter m) = mset m" and T: "trusted_keys T uri keys" "trusted_cache T c"
    and r: "cold_ingest X iter token parsed opts uri (GroupSigningKeysByKid keys) c = (c', v)"
  shows "trusted_cache T c' \<and> (v = Some Ok \<longrightarrow> verified_by_trusted X T uri (jp_kid parsed) (jp_alg parsed) token opts)"
proof -
  let ?g = "GroupSigningKeysByKid keys"
  let ?P = "\<lambda>(c, v). trusted_cache T c \<and> (v = Some Ok \<longrightarrow> verified_by_trusted X T uri (jp_kid parsed) (jp_alg parsed) token opts)"
  have "?P (cold_ingest X iter token parsed opts uri ?g c)"
    unfolding cold_ingest_def
  proof (rule foldl_inv [where P = ?P])
    show "?P (c, None)" using T(2) by simp
    fix a x
    assume a: "?P a" "x \<in> set (iter ?g)"
    obtain c1 v1 where c1: "a = (c1, v1)" by fastforce
    obtain kid ks where x: "x = (kid, ks)" by fastforce
    let ?us = "ScreenUsableKeys X ks"
    have t: "T (CacheKey uri kid) jwk" if "jwk \<in> set ?us" for jwk
      using trusted_screened [OF T(1) group_member [OF iter a(2) [unfolded x]] that] .
    obtain us v2 where p: "PrioritizeMatchingKey X ?us token (jp_alg parsed) opts = (us, v2)" by fastforce
    note ps = PrioritizeMatchingKey_spec [OF p]
    have "trusted_cache T (OnPassiveFetchSuccess c1 kid ?us (vo_now_s opts) uri)"
      "trusted_cache T (OnPassiveFetchSuccess c1 kid us (vo_now_s opts) uri)"
      using a(1) t ps(1) by (auto intro!: trusted_passive simp: c1)
    moreover have "verified_by_trusted X T uri kid (jp_alg parsed) token opts" if "v2 = Some Ok"
      using ps(3) [OF that] t by (auto simp: verified_by_trusted_def verify_one_Ok)
    ultimately show "?P ((case a of (c, cold_verified) \<Rightarrow> \<lambda>(k_kid, k_keys).
         let usable = ScreenUsableKeys X k_keys in
         if usable = [] then (c, cold_verified)
         else if k_kid = jp_kid parsed
         then (case PrioritizeMatchingKey X usable token (jp_alg parsed) opts of
                 (usable', verified) \<Rightarrow>
                   (OnPassiveFetchSuccess c k_kid usable' (vo_now_s opts) uri,
                    (if verified = None then cold_verified else verified)))
         else (OnPassiveFetchSuccess c k_kid usable (vo_now_s opts) uri, cold_verified)) x)"
      using a(1) by (auto simp: c1 x p Let_def)
  qed
  with r show ?thesis by simp
qed

lemma VerifyAgainstCachedKid_Ok:
  assumes "VerifyAgainstCachedKid X token alg ks opts = Ok"
  shows "\<exists>k \<in> set ks. JwkMatchesTokenHeader k alg \<and> VerifyJwt X token k opts = Some Ok"
  using assms VerifyWithCachedKeys_Ok [of X token "MatchingKeys ks alg" opts]
  by (auto simp: VerifyAgainstCachedKid_def Let_def MatchingKeys_def split: if_splits)

lemma lookup_trusted:
  assumes "trusted_cache T c" "k \<in> set (jl_keys (JwksCache_Lookup c kid now uri))"
    "JwkMatchesTokenHeader k alg" "VerifyJwt X token k opts = Some Ok"
  shows "verified_by_trusted X T uri kid alg token opts"
  using assms by (auto simp: verified_by_trusted_def trusted_cache_def Lookup_keys)

lemma absent_kid_result_not_Ok: "absent_kid_result X parsed keys g \<noteq> Ok"
  by (simp add: absent_kid_result_def split: option.split)

lemma cold_miss_trusted:
  assumes iter: "\<forall>m. mset (iter m) = mset m" and get: "honest_get X T uri get" and c: "trusted_cache T c"
    and r: "cold_miss X iter get token parsed opts uri c ev = (res, c', ev')"
  shows "trusted_cache T c' \<and> (res = Ok \<longrightarrow> verified_by_trusted X T uri (jp_kid parsed) (jp_alg parsed) token opts)"
proof -
  let ?now = "vo_now_s opts"
  obtain g c1 where g: "get uri (RecordJwksFetch c ?now) = (g, c1)" by fastforce
  have h: "trusted_cache T c1" "\<And>resp. g = Some resp \<Longrightarrow> status_code resp = 200 \<Longrightarrow>
      trusted_keys T uri (ParseJwksJson (x_json_parse X) (resp_body resp))"
    using get [unfolded honest_get_def, rule_format, OF trusted_ops(1) [OF c], of ?now] g by auto
  show ?thesis
  proof (cases "HasFreshJwksDocument c ?now kGlobalFetchBudgetWindowSeconds uri \<or> \<not> CanFetchJwks c ?now \<or>
      g = None \<or> (\<exists>resp. g = Some resp \<and> (status_code resp \<noteq> 200 \<or> ParseJwksJson (x_json_parse X) (resp_body resp) = []))")
    case True
    then show ?thesis
      using r c h(1) g by (auto simp: cold_miss_def Let_def trusted_ops split: if_splits option.splits)
  next
    case False
    then obtain resp where resp: "g = Some resp" "status_code resp = 200" by auto
    let ?keys = "ParseJwksJson (x_json_parse X) (resp_body resp)"
    obtain c3 v where ci: "cold_ingest X iter token parsed opts uri (GroupSigningKeysByKid ?keys) (RecordJwksFetchSuccess c1 ?now uri) = (c3, v)"
      by fastforce
    have t: "trusted_cache T c3 \<and> (v = Some Ok \<longrightarrow> verified_by_trusted X T uri (jp_kid parsed) (jp_alg parsed) token opts)"
      using cold_ingest_trusted [OF iter h(2) [OF resp] trusted_ops(2) [OF h(1)] ci] .
    let ?l = "JwksCache_Lookup c3 (jp_kid parsed) ?now uri"
    have "verified_by_trusted X T uri (jp_kid parsed) (jp_alg parsed) token opts"
      if "VerifyAgainstCachedKid X token (jp_alg parsed) (jl_keys ?l) opts = Ok"
      using VerifyAgainstCachedKid_Ok [OF that] t lookup_trusted by blast
    moreover have "(res, c') \<in> {(absent_kid_result X parsed ?keys (GroupSigningKeysByKid ?keys), OnFetchMiss c3 (jp_kid parsed) ?now uri),
        (VerifyAgainstCachedKid X token (jp_alg parsed) (jl_keys ?l) opts, c3)} \<or> v = Some res \<and> c' = c3"
      using r False resp g ci by (auto simp: cold_miss_def Let_def split: if_splits option.splits)
    ultimately show ?thesis
      using t trusted_ops(5) [of T c3] by (auto simp: absent_kid_result_not_Ok)
  qed
qed

lemma ValidateToken_trusted:
  assumes iter: "\<forall>m. mset (iter m) = mset m" and get: "honest_get X T jwks_uri get" and c: "trusted_cache T c"
    and r: "ValidateToken X iter get token opts jwks_uri c out_refresh = (res, c', out_refresh')"
  shows "trusted_cache T c' \<and>
    (res = Ok \<longrightarrow>
      (\<exists>parsed jwk. ParseJwt X token = Some parsed \<and> jp_kid parsed \<noteq> [] \<and>
         \<not> IsForbiddenAlgorithm (jp_alg parsed) \<and> IsAlgorithmAllowed (jp_alg parsed) (vo_allowed_algorithms opts) \<and>
         T (CacheKey jwks_uri (jp_kid parsed)) jwk \<and> JwkMatchesTokenHeader jwk (jp_alg parsed) \<and>
         VerifyJwt X token jwk opts = Some Ok))"
proof (cases "\<exists>parsed. ParseJwt X token = Some parsed \<and> \<not> IsForbiddenAlgorithm (jp_alg parsed) \<and>
    IsAlgorithmAllowed (jp_alg parsed) (vo_allowed_algorithms opts) \<and> jp_kid parsed \<noteq> []")
  case False
  with r c show ?thesis by (auto simp: ValidateToken_def split: option.splits if_splits)
next
  case True
  then obtain parsed where p: "ParseJwt X token = Some parsed" "\<not> IsForbiddenAlgorithm (jp_alg parsed)"
      "IsAlgorithmAllowed (jp_alg parsed) (vo_allowed_algorithms opts)" "jp_kid parsed \<noteq> []" by blast
  let ?kid = "jp_kid parsed" and ?alg = "jp_alg parsed" and ?now = "vo_now_s opts"
  let ?l = "JwksCache_Lookup c ?kid ?now jwks_uri"
  let ?m = "MatchingKeys (jl_keys ?l) ?alg"
  let ?good = "verified_by_trusted X T jwks_uri ?kid ?alg token opts"
  obtain tr c1 ev1 where tr: "TryRefreshRotatedKid X iter get token ?kid ?alg opts jwks_uri c out_refresh = (tr, c1, ev1)"
    by (cases "TryRefreshRotatedKid X iter get token ?kid ?alg opts jwks_uri c out_refresh") auto
  note t = TryRefresh_trusted [OF iter get c tr]
  have cached: ?good if "VerifyWithCachedKeys X token ?m opts = Ok"
    using VerifyWithCachedKeys_Ok [OF that] lookup_trusted [OF c] by (auto simp: MatchingKeys_def)
  have cached': "IsCachedKeyUnusable (VerifyWithCachedKeys X token ?m opts) \<Longrightarrow> VerifyWithCachedKeys X token ?m opts \<noteq> Ok"
    by (auto simp: IsCachedKeyUnusable_def)
  have "trusted_cache T c' \<and> (res = Ok \<longrightarrow> ?good)"
  proof (cases "jl_status ?l")
    case Hit
    with r p tr t c cached cached' show ?thesis
      by (auto simp: ValidateToken_def Let_def split: if_splits option.splits)
  next
    case Miss
    with r p show ?thesis
      by (intro cold_miss_trusted [OF iter get c]) (simp add: ValidateToken_def Let_def)
  next
    case RateLimited
    with r p c show ?thesis by (auto simp: ValidateToken_def Let_def trusted_ops)
  qed
  with p show ?thesis by (auto simp: verified_by_trusted_def)
qed

section \<open>Properties\<close>

text \<open>
  C4: \<open>ValidateToken\<close> accepts a token only on the strength of a trusted key. For any notion
  of trust that holds of the cached keys and of every key set the provider's endpoint serves, and that
  the other threads respect while the mutex is dropped: an \<open>Ok\<close> means that the token parses with an
  allowed algorithm and a kid, and that a key trusted for this provider and this kid, not marked for
  another use or algorithm, verifies it. The cache stays trusted, whatever the outcome.
\<close>

theorem ValidateToken_sound:
  assumes iter: "\<forall>m. mset (iter m) = mset m" and get: "honest_get X T jwks_uri get" and c: "trusted_cache T c"
    and r: "ValidateToken X iter get token opts jwks_uri c out_refresh = (res, c', out_refresh')"
  shows "trusted_cache T c' \<and>
    (res = Ok \<longrightarrow>
      (\<exists>parsed jwk. ParseJwt X token = Some parsed \<and> jp_kid parsed \<noteq> [] \<and>
         \<not> IsForbiddenAlgorithm (jp_alg parsed) \<and> IsAlgorithmAllowed (jp_alg parsed) (vo_allowed_algorithms opts) \<and>
         T (CacheKey jwks_uri (jp_kid parsed)) jwk \<and> JwkMatchesTokenHeader jwk (jp_alg parsed) \<and>
         VerifyJwt X token jwk opts = Some Ok))"
  using ValidateToken_trusted [OF assms] .

definition sample_get :: "string \<Rightarrow> http_get" where
  "sample_get doc = (\<lambda>url c. (Some \<lparr>status_code = 200, resp_body = doc\<rparr>, c))"

lemma ValidateToken_sound_witness:
  "fst (ValidateToken sample_ext id (sample_get ''new'') ''tok'' sample_opts ''https://idp'' (new_JwksCache 10 100) None) = Ok \<and>
   (\<exists>jwk. jwk \<in> set (ParseJwksJson (x_json_parse sample_ext) ''new'') \<and> jwk_kid jwk = ''k1'' \<and>
      VerifyJwt sample_ext ''tok'' jwk sample_opts = Some Ok)"
proof -
  define T :: "string \<Rightarrow> Jwk \<Rightarrow> bool" where
    "T = (\<lambda>k jwk. jwk \<in> set (ParseJwksJson (x_json_parse sample_ext) ''new'') \<and> k = CacheKey ''https://idp'' (jwk_kid jwk))"
  let ?r = "ValidateToken sample_ext id (sample_get ''new'') ''tok'' sample_opts ''https://idp'' (new_JwksCache 10 100) None"
  have ok: "fst ?r = Ok" by code_simp
  have h: "honest_get sample_ext T ''https://idp'' (sample_get ''new'')"
    by (simp add: honest_get_def sample_get_def trusted_keys_def T_def)
  have c: "trusted_cache T (new_JwksCache 10 100)"
    by (simp add: trusted_cache_def new_JwksCache_ok) (simp add: cached_keys_def new_JwksCache_def)
  have r: "?r = (Ok, fst (snd ?r), snd (snd ?r))" using ok by (simp add: prod_eq_iff)
  obtain parsed jwk where p: "ParseJwt sample_ext ''tok'' = Some parsed" "T (CacheKey ''https://idp'' (jp_kid parsed)) jwk"
      "VerifyJwt sample_ext ''tok'' jwk sample_opts = Some Ok"
    using ValidateToken_sound [OF _ h c r] by auto
  have "jp_kid parsed = ''k1''" using p(1) by (auto simp: sample_parse sample_parsed_def)
  with p(2) have "jwk_kid jwk = ''k1''" "jwk \<in> set (ParseJwksJson (x_json_parse sample_ext) ''new'')"
    by (auto simp: T_def CacheKey_def)
  with ok p(3) show ?thesis by blast
qed

text \<open>
  C19: the network is asked within the budget only, and after the request was recorded. Two
  networks that agree on the requests made when \<open>CanFetchJwks\<close> allows one, with the fetch already
  recorded in the cache, cannot be told apart by \<open>ValidateToken\<close>; in particular an exhausted budget
  means that no request is made at all.
\<close>

theorem ValidateToken_network_use:
  assumes "\<And>c'. CanFetchJwks c (vo_now_s opts) \<Longrightarrow>
      jc_last_global_fetch_s c' = jc_last_global_fetch_s (RecordJwksFetch c (vo_now_s opts)) \<Longrightarrow>
      get jwks_uri c' = get' jwks_uri c'"
  shows "ValidateToken X iter get token opts jwks_uri c out_refresh =
    ValidateToken X iter get' token opts jwks_uri c out_refresh"
proof -
  let ?now = "vo_now_s opts"
  have l: "jc_last_global_fetch_s (RecordJwksFetch (snd (TryReserveRefresh c kid ?now jwks_uri)) ?now) =
      jc_last_global_fetch_s (RecordJwksFetch c ?now)" for kid
    using jwks_step_last [of "OpReserve kid ?now jwks_uri" c] by (simp add: RecordJwksFetch_def is_OpFetch_def)
  have tr: "TryRefreshRotatedKid X iter get token kid alg opts jwks_uri c out_refresh =
      TryRefreshRotatedKid X iter get' token kid alg opts jwks_uri c out_refresh" for kid alg
  proof (cases "CanFetchJwks c ?now")
    case True
    have "FetchAndParseJwks X get kid opts jwks_uri (snd (TryReserveRefresh c kid ?now jwks_uri)) ev =
        FetchAndParseJwks X get' kid opts jwks_uri (snd (TryReserveRefresh c kid ?now jwks_uri)) ev" for ev
      using assms [OF True l] by (simp add: FetchAndParseJwks_def)
    then show ?thesis by (simp add: TryRefreshRotatedKid_def Let_def split_beta)
  qed (simp add: TryRefreshRotatedKid_def Let_def)
  have cm: "cold_miss X iter get token parsed opts jwks_uri c out_refresh =
      cold_miss X iter get' token parsed opts jwks_uri c out_refresh" for parsed
    using assms [of "RecordJwksFetch c ?now"]
    by (cases "CanFetchJwks c ?now") (simp_all add: cold_miss_def Let_def)
  show ?thesis unfolding ValidateToken_def tr cm ..
qed

lemma ValidateToken_network_use_witness:
  "let c = RecordJwksFetch (new_JwksCache 10 100) 499 in
   \<not> CanFetchJwks c (vo_now_s sample_opts) \<and>
   ValidateToken sample_ext id (sample_get ''new'') ''tok'' sample_opts ''https://idp'' c None =
     ValidateToken sample_ext id (sample_get ''old'') ''tok'' sample_opts ''https://idp'' c None"
proof -
  have "\<not> CanFetchJwks (RecordJwksFetch (new_JwksCache 10 100) 499) (vo_now_s sample_opts)" by code_simp
  with ValidateToken_network_use [of "RecordJwksFetch (new_JwksCache 10 100) 499" sample_opts "sample_get ''new''"
    "''https://idp''" "sample_get ''old''" sample_ext id "''tok''" None]
  show ?thesis by (simp add: Let_def)
qed

lemma cached_keys_hits: "jc_hits c' = jc_hits c \<Longrightarrow> cached_keys c' k = cached_keys c k"
  by (simp add: cached_keys_def)

lemma cached_keys_reserve: "cached_keys (snd (TryReserveRefresh c kid now uri)) k = cached_keys c k"
  by (cases rule: TryReserveRefresh_cases [of c kid now uri])
    (auto simp: cached_keys_def grant_reservation_def Let_def FindHit_def)

text \<open>The network fails: the response is useless, and no other thread interferes.\<close>

definition failing_get :: "Externals \<Rightarrow> string \<Rightarrow> http_get \<Rightarrow> bool" where
  "failing_get X uri get \<longleftrightarrow> (\<forall>c. snd (get uri c) = c \<and>
     (\<forall>resp. fst (get uri c) = Some resp \<longrightarrow> status_code resp = 200 \<longrightarrow>
        ParseJwksJson (x_json_parse X) (resp_body resp) = []))"

lemma failing_fetch:
  assumes "failing_get X uri get"
  shows "fst (FetchAndParseJwks X get kid opts uri c ev) = None"
    "jc_hits (fst (snd (FetchAndParseJwks X get kid opts uri c ev))) = jc_hits c"
proof -
  obtain g c1 where g: "get uri (RecordJwksFetch c (vo_now_s opts)) = (g, c1)" by fastforce
  with assms have "c1 = RecordJwksFetch c (vo_now_s opts)" "\<And>resp. g = Some resp \<Longrightarrow> status_code resp = 200 \<Longrightarrow>
      ParseJwksJson (x_json_parse X) (resp_body resp) = []"
    by (metis failing_get_def snd_conv, metis failing_get_def fst_conv)
  with g show "fst (FetchAndParseJwks X get kid opts uri c ev) = None"
    "jc_hits (fst (snd (FetchAndParseJwks X get kid opts uri c ev))) = jc_hits c"
    by (auto simp: FetchAndParseJwks_def Let_def split: option.split)
qed

lemma failing_refresh:
  assumes "failing_get X uri get"
  shows "fst (TryRefreshRotatedKid X iter get token kid alg opts uri c ev) = None \<and>
    cached_keys (fst (snd (TryRefreshRotatedKid X iter get token kid alg opts uri c ev))) k = cached_keys c k"
proof (cases rule: TryRefresh_cases [of X iter get token kid alg opts uri c ev])
  case (throttled b reason c1)
  then have "cached_keys c1 k = cached_keys c k" using cached_keys_reserve [of c kid "vo_now_s opts" uri k] by auto
  with throttled show ?thesis by (simp add: cached_keys_def)
next
  case (failed c2 e1 ev2 reason)
  have "jc_hits c2 = jc_hits (snd (TryReserveRefresh c kid (vo_now_s opts) uri))"
    using failing_fetch(2) [OF assms, of kid opts _ "Some e1"] failed(3) by (metis fst_conv snd_conv)
  then have "cached_keys c2 k = cached_keys c k" using cached_keys_hits cached_keys_reserve by metis
  with failed show ?thesis by (simp add: cached_keys_def)
next
  case (fetched rid c1 e1 keys c2 ev2 v c3 ev3 c5 reason)
  then show ?thesis using failing_fetch(1) [OF assms, of kid opts c1 "Some e1"] by simp
qed

lemma failing_cold_miss:
  assumes fail: "failing_get X uri get" and ok: "jwks_ok c"
  shows "cached_keys (fst (snd (cold_miss X iter get token parsed opts uri c ev))) k = cached_keys c k"
proof -
  let ?now = "vo_now_s opts"
  obtain g c1 where g: "get uri (RecordJwksFetch c ?now) = (g, c1)" by fastforce
  with fail have c1: "c1 = RecordJwksFetch c ?now" "\<And>resp. g = Some resp \<Longrightarrow> status_code resp = 200 \<Longrightarrow>
      ParseJwksJson (x_json_parse X) (resp_body resp) = []"
    by (metis failing_get_def snd_conv, metis failing_get_def fst_conv)
  have "jc_hits (OnFetchMiss c1 (jp_kid parsed) ?now uri) = jc_hits c"
    using OnFetchMiss_ok(2) [OF simple_ops_ok(1) [OF ok]] by (simp add: c1)
  then show ?thesis
    using g c1 by (auto simp: cold_miss_def Let_def intro!: cached_keys_hits split: option.splits)
qed

lemma ValidateToken_state:
  "fst (snd (ValidateToken X iter get token opts uri c ev)) = c \<or>
   fst (snd (ValidateToken X iter get token opts uri c ev)) = IncrementThrottledRefreshes c False (vo_now_s opts) \<or>
   (\<exists>kid alg. fst (snd (ValidateToken X iter get token opts uri c ev)) =
      fst (snd (TryRefreshRotatedKid X iter get token kid alg opts uri c ev))) \<or>
   (\<exists>parsed. fst (snd (ValidateToken X iter get token opts uri c ev)) =
      fst (snd (cold_miss X iter get token parsed opts uri c ev)))"
proof (cases "ParseJwt X token")
  case (Some parsed)
  have "fst (snd (case r of (Some res, c', ev') \<Rightarrow> (res, c', ev') | (None, c', ev') \<Rightarrow> (d, c', ev'))) = fst (snd r)"
    for r :: "VerifyResult option \<times> JwksCache \<times> RefreshEvent option" and d
    by (simp split: prod.split option.split)
  with Some show ?thesis by (auto simp: ValidateToken_def Let_def split: JwksLookupStatus.split)
qed (simp add: ValidateToken_def)

text \<open>
  C20: a failing key set endpoint neither costs cached keys nor admits a token. When the
  request cannot be sent, answers with another status than 200 or with a document without keys (and no
  other thread interferes), every kid of every provider keeps exactly the keys it had, and a token is
  accepted only if one of the keys that were cached under its kid verifies it.
\<close>

theorem fetch_failure_keeps_keys:
  assumes iter: "\<forall>m. mset (iter m) = mset m" and fail: "failing_get X jwks_uri get" and ok: "jwks_ok c"
    and r: "ValidateToken X iter get token opts jwks_uri c out_refresh = (res, c', out_refresh')"
  shows "(\<forall>k. cached_keys c' k = cached_keys c k) \<and>
    (res = Ok \<longrightarrow> (\<exists>parsed. ParseJwt X token = Some parsed \<and>
       (\<exists>jwk \<in> set (cached_keys c (CacheKey jwks_uri (jp_kid parsed))). VerifyJwt X token jwk opts = Some Ok)))"
proof -
  have "cached_keys c' k = cached_keys c k" for k
    using ValidateToken_state [of X iter get token opts jwks_uri c out_refresh] failing_refresh [OF fail]
      failing_cold_miss [OF fail ok] r by (auto intro: cached_keys_hits)
  moreover define T where "T = (\<lambda>k jwk. jwk \<in> set (cached_keys c k))"
  have "honest_get X T jwks_uri get"
    using fail unfolding honest_get_def failing_get_def trusted_keys_def by (metis empty_iff empty_set)
  from ValidateToken_trusted [OF iter this _ r] ok
  have "res = Ok \<longrightarrow> (\<exists>parsed. ParseJwt X token = Some parsed \<and>
       (\<exists>jwk \<in> set (cached_keys c (CacheKey jwks_uri (jp_kid parsed))). VerifyJwt X token jwk opts = Some Ok))"
    by (auto simp: trusted_cache_def T_def)
  ultimately show ?thesis by blast
qed

lemma fetch_failure_keeps_keys_witness:
  "let get = (\<lambda>url c. (None, c));
       r = ValidateToken sample_ext id get ''tok'' (sample_opts\<lparr>vo_now_s := 200\<rparr>) ''https://idp'' sample_jwks None
   in fst r = InvalidSignature \<and> cached_keys (fst (snd r)) (CacheKey ''https://idp'' ''k1'') = [sample_jwk]"
proof -
  let ?get = "\<lambda>url c. (None, c)"
  let ?r = "ValidateToken sample_ext id ?get ''tok'' (sample_opts\<lparr>vo_now_s := 200\<rparr>) ''https://idp'' sample_jwks None"
  have "failing_get sample_ext ''https://idp'' ?get" by (simp add: failing_get_def)
  then have "cached_keys (fst (snd ?r)) k = cached_keys sample_jwks k" for k
    using fetch_failure_keeps_keys [of id sample_ext "''https://idp''" ?get sample_jwks "''tok''"
      "sample_opts\<lparr>vo_now_s := 200\<rparr>" None "fst ?r" "fst (snd ?r)" "snd (snd ?r)"] sample_jwks_ok by simp
  moreover have "cached_keys sample_jwks (CacheKey ''https://idp'' ''k1'') = [sample_jwk]" by code_simp
  moreover have "fst ?r = InvalidSignature" by code_simp
  ultimately show ?thesis by (simp only: Let_def)
qed

end
