(* ===== verification/Authorization.thy ===== *)
theory Authorization
  imports Audit_Trail Policy_Table Validator
begin

text \<open>
  The shared state of the process (quack_oauth_state.hpp, quack_oauth_state.cpp, env_overrides.cpp), the
  table of authenticated sessions (\<open>StoreSessionPrincipal\<close> in check_token_function.cpp) and the
  authorization of queries (check_authorization_function.cpp).

  \<^item> \<open>Server\<close> is \<open>QuackOauthState\<close> with what leaves the process (the log and the audit table), as an
    extension of the audit sinks.
  \<^item> The mutex is held only around single accesses. \<open>others i\<close> is what other threads do to the state at
    the \<open>i\<close>-th point of a call where it is free; nothing is assumed of it unless a lemma says so.
  \<^item> \<open>inspect\<close> is \<open>InspectSql\<close>, a parameter here and given by its model in the root theory.
\<close>

section \<open>Environment overrides (env_overrides.cpp)\<close>

definition TrimAsciiWhitespace :: "string \<Rightarrow> string" where
  "TrimAsciiWhitespace s = rev (dropWhile is_space (rev (dropWhile is_space s)))"

text \<open>\<open>std::getenv\<close> is a parameter.\<close>

definition EnvString :: "(string \<Rightarrow> string option) \<Rightarrow> string \<Rightarrow> string" where
  "EnvString getenv name = (case getenv name of None \<Rightarrow> [] | Some raw \<Rightarrow> TrimAsciiWhitespace raw)"

definition EnvBoolOrDefault :: "(string \<Rightarrow> string option) \<Rightarrow> string \<Rightarrow> bool \<Rightarrow> bool" where
  "EnvBoolOrDefault getenv name fallback =
     (let v = lower_ascii (EnvString getenv name)
      in if v = [] then fallback
         else if v = ''1'' \<or> v = ''true'' \<or> v = ''yes'' \<or> v = ''on'' then True
         else if v = ''0'' \<or> v = ''false'' \<or> v = ''no'' \<or> v = ''off'' then False
         else fallback)"

text \<open>The characters \<open>std::stoll\<close> reads: white space, a sign, digits.\<close>

definition stoll_pos :: "string \<Rightarrow> nat" where
  "stoll_pos s =
     (let t = dropWhile is_space s;
          u = (case t of c # cs \<Rightarrow> if c = CHR ''-'' \<or> c = CHR ''+'' then cs else t | [] \<Rightarrow> [])
      in length s - length (dropWhile is_digit u))"

definition EnvIntOrDefault :: "(string \<Rightarrow> string option) \<Rightarrow> string \<Rightarrow> int \<Rightarrow> int" where
  "EnvIntOrDefault getenv name fallback =
     (let v = EnvString getenv name
      in if v = [] then fallback
         else case stoll v of
           None \<Rightarrow> fallback
         | Some parsed \<Rightarrow>
             if stoll_pos v \<noteq> length v then fallback
             else if parsed < - (2 ^ 31) \<or> parsed > 2 ^ 31 - 1 then fallback
             else parsed)"

section \<open>Shared state (quack_oauth_state.cpp)\<close>

record SessionPrincipal =
  sp_principal :: Principal
  sp_updated_at_s :: seconds

type_synonym sessions = "(string \<times> SessionPrincipal) list"

record 'v Server = "'v AuditSinks" +
  sv_jwks_cache :: JwksCache
  sv_decision_cache :: DecisionCache
  sv_sessions :: sessions
  sv_last_throttle_logged_s :: "(string \<times> seconds) list"

definition kDefaultMinRefreshSeconds :: int where
  "kDefaultMinRefreshSeconds = 30"

definition kDecisionCacheCapacity :: nat where
  "kDecisionCacheCapacity = 1000"

definition kDecisionCacheDefaultTtlSeconds :: int where
  "kDecisionCacheDefaultTtlSeconds = 30"

definition kAuditRingCapacity :: nat where
  "kAuditRingCapacity = 64"

definition new_QuackOauthState :: "(string \<Rightarrow> string option) \<Rightarrow> 'v Server" where
  "new_QuackOauthState getenv =
     \<lparr>as_ring = new_AuditRing kAuditRingCapacity, as_log = [], as_rows = [],
      sv_jwks_cache = new_JwksCache (EnvIntOrDefault getenv ''QUACK_OAUTH_JWKS_MIN_REFRESH_S'' kDefaultMinRefreshSeconds) 1000,
      sv_decision_cache = new_DecisionCache kDecisionCacheCapacity kDecisionCacheDefaultTtlSeconds,
      sv_sessions = [], sv_last_throttle_logged_s = []\<rparr>"

section \<open>Sessions (check_token_function.cpp)\<close>

definition kMaxSessionPrincipals :: nat where
  "kMaxSessionPrincipals = 1000"

text \<open>The comparison that makes \<open>it\<close> the new victim.\<close>

definition evicts_first :: "SessionPrincipal \<Rightarrow> SessionPrincipal \<Rightarrow> bool" where
  "evicts_first it victim \<longleftrightarrow>
     (let victim_exp = exp (sp_principal victim); it_exp = exp (sp_principal it)
      in (it_exp > 0 \<and> victim_exp \<le> 0) \<or> (it_exp > 0 \<and> victim_exp > 0 \<and> it_exp < victim_exp) \<or>
         (it_exp = victim_exp \<and> sp_updated_at_s it < sp_updated_at_s victim))"

definition session_victim :: "sessions \<Rightarrow> string \<times> SessionPrincipal" where
  "session_victim m = foldl (\<lambda>victim it. if evicts_first (snd it) (snd victim) then it else victim) (hd m) m"

text \<open>The loop erases one entry per round, so the size of the map bounds its rounds.\<close>

fun evict_sessions :: "(sessions \<Rightarrow> sessions) \<Rightarrow> nat \<Rightarrow> sessions \<Rightarrow> sessions" where
  "evict_sessions iter 0 m = m"
| "evict_sessions iter (Suc n) m =
     (if kMaxSessionPrincipals < length m
      then evict_sessions iter n (AList.delete (fst (session_victim (iter m))) m)
      else m)"

definition store_session :: "(sessions \<Rightarrow> sessions) \<Rightarrow> string \<Rightarrow> Principal \<Rightarrow> seconds \<Rightarrow> sessions \<Rightarrow> sessions" where
  "store_session iter sid p now_s m =
     (let m' = AList.update sid \<lparr>sp_principal = p, sp_updated_at_s = now_s\<rparr> m in evict_sessions iter (length m') m')"

definition StoreSessionPrincipal ::
    "(sessions \<Rightarrow> sessions) \<Rightarrow> string \<Rightarrow> Principal \<Rightarrow> seconds \<Rightarrow> 'v Server \<Rightarrow> 'v Server" where
  "StoreSessionPrincipal iter sid p now_s s = s\<lparr>sv_sessions := store_session iter sid p now_s (sv_sessions s)\<rparr>"

section \<open>Authorization (check_authorization_function.cpp)\<close>

definition LookupPolicyTable :: "'v Host \<Rightarrow> string" where
  "LookupPolicyTable H =
     (case setting H ''quack_oauth_server_secret_name'' of
        None \<Rightarrow> []
      | Some v \<Rightarrow> secret_get H (TryOpenSecret H (h_ToString H v) (Some ''quack_oauth_server'')) ''policy_table'')"

definition LookupDefaultAllow :: "'v Host \<Rightarrow> bool" where
  "LookupDefaultAllow H =
     (case setting H ''quack_oauth_policy_default'' of None \<Rightarrow> False | Some v \<Rightarrow> h_ToString H v = ''allow'')"

definition LookupClockSkew :: "'v Host \<Rightarrow> int" where
  "LookupClockSkew H =
     (case setting H ''quack_oauth_clock_skew_s'' of None \<Rightarrow> 60 | Some v \<Rightarrow> clamp (h_Int32 H v) 0 3600)"

text \<open>The policy of a chunk: none configured, failed to load, or a document.\<close>

datatype ChunkPolicy = DefaultPolicy | LoadFailed | TablePolicy PolicyDocument

definition chunk_policy :: "'v Host \<Rightarrow> ChunkPolicy" where
  "chunk_policy H =
     (let policy_table = LookupPolicyTable H
      in if policy_table = [] then DefaultPolicy
         else case LoadPolicyFromTable H policy_table of
           None \<Rightarrow> LoadFailed
         | Some doc \<Rightarrow> TablePolicy (doc\<lparr>pd_default_allow := LookupDefaultAllow H\<rparr>))"

definition authz_event :: "seconds \<Rightarrow> AuthzRequest \<Rightarrow> Principal option \<Rightarrow> bool \<Rightarrow> string \<Rightarrow> AuditEvent" where
  "authz_event now_s request p allow reason =
     new_AuditEvent\<lparr>ae_timestamp_unix_s := now_s, ae_action := ActionName (ar_action request),
       ae_subject := (case p of None \<Rightarrow> [] | Some q \<Rightarrow> subject q),
       ae_issuer := (case p of None \<Rightarrow> [] | Some q \<Rightarrow> issuer q),
       ae_event_type := (if allow then AuthzAllow else AuthzDeny), ae_reason := reason\<rparr>"

definition policy_outcome :: "ChunkPolicy \<Rightarrow> Principal \<Rightarrow> AuthzRequest \<Rightarrow> PolicyOutcome" where
  "policy_outcome policy p request =
     (case policy of TablePolicy doc \<Rightarrow> EvaluatePolicy doc p request | _ \<Rightarrow> EvaluateDefaultPolicy p (ar_action request))"

definition authorize_row ::
    "'v Host \<Rightarrow> (nat \<Rightarrow> 'v Server \<Rightarrow> 'v Server) \<Rightarrow> (string \<Rightarrow> AuthzRequest) \<Rightarrow> ChunkPolicy \<Rightarrow> seconds \<Rightarrow> int \<Rightarrow>
     string \<Rightarrow> string \<Rightarrow> 'v Server \<Rightarrow> bool \<times> 'v Server" where
  "authorize_row H others inspect policy now_s clock_skew_s sid query s =
     (let request = inspect query;
          found = map_of (sv_sessions s) sid;
          s1 = others 0 s
      in case found of
           None \<Rightarrow> (False, EmitAuditEvent H (authz_event now_s request None False ''unknown session'') s1)
         | Some sp \<Rightarrow>
             let p = sp_principal sp;
                 deny = (\<lambda>reason st. (False, EmitAuditEvent H (authz_event now_s request (Some p) False reason) st))
             in if IsPrincipalExpired p now_s clock_skew_s
                then deny ''principal expired'' (others 1 (s1\<lparr>sv_sessions := AList.delete sid (sv_sessions s1)\<rparr>))
                else if policy = LoadFailed then deny ''policy_table load failed'' s1
                else if ar_unsafe request then deny ''parse_error'' s1
                else
                  let outcome = policy_outcome policy p request;
                      allow = (po_decision outcome = Allow)
                  in (allow, EmitAuditEvent H (authz_event now_s request (Some p) allow (po_reason outcome)) s1))"

text \<open>The rows of a chunk in order; the policy is read once for all of them.\<close>

fun authorize_rows ::
    "'v Host \<Rightarrow> (nat \<Rightarrow> nat \<Rightarrow> 'v Server \<Rightarrow> 'v Server) \<Rightarrow> (string \<Rightarrow> AuthzRequest) \<Rightarrow> ChunkPolicy \<Rightarrow> seconds \<Rightarrow> int \<Rightarrow>
     nat \<Rightarrow> (string \<times> string) list \<Rightarrow> 'v Server \<Rightarrow> bool list \<times> 'v Server" where
  "authorize_rows H others inspect policy now_s skew i [] s = ([], s)"
| "authorize_rows H others inspect policy now_s skew i ((sid, query) # rows) s =
     (case authorize_row H (others i) inspect policy now_s skew sid query s of
        (b, s1) \<Rightarrow>
          (case authorize_rows H others inspect policy now_s skew (Suc i) rows s1 of (bs, s2) \<Rightarrow> (b # bs, s2)))"

definition CheckAuthorizationScalarFun ::
    "'v Host \<Rightarrow> (nat \<Rightarrow> nat \<Rightarrow> 'v Server \<Rightarrow> 'v Server) \<Rightarrow> (string \<Rightarrow> AuthzRequest) \<Rightarrow> seconds \<Rightarrow>
     (string \<times> string) list \<Rightarrow> 'v Server \<Rightarrow> bool list \<times> 'v Server" where
  "CheckAuthorizationScalarFun H others inspect now_s rows s =
     authorize_rows H others inspect (chunk_policy H) now_s (LookupClockSkew H) 0 rows s"

section \<open>Lemmas on sessions\<close>

lemma session_victim_mem: "m \<noteq> [] \<Longrightarrow> session_victim m \<in> set m"
  unfolding session_victim_def
  using foldl_pick_mem [of "\<lambda>it v. evicts_first (snd it) (snd v)" "hd m" m] by (auto simp: insert_absorb)

text \<open>An entry that goes before every other one is the victim.\<close>

lemma session_victim_least:
  assumes "n \<in> set m" "\<And>x. x \<in> set m \<Longrightarrow> x \<noteq> n \<Longrightarrow> evicts_first (snd n) (snd x) \<and> \<not> evicts_first (snd x) (snd n)"
  shows "session_victim m = n"
  unfolding session_victim_def
  by (rule foldl_pick_least [where R = "\<lambda>it v. evicts_first (snd it) (snd v)" and A = "set m", OF assms(2)])
    (use assms(1) in \<open>auto intro: hd_in_set\<close>)

text \<open>The order of eviction is a strict partial order, so the scan ends at an entry that none goes before.\<close>

lemma evicts_first_irrefl: "\<not> evicts_first a a"
  by (simp add: evicts_first_def Let_def)

lemma evicts_first_trans: "evicts_first a b \<Longrightarrow> evicts_first b c \<Longrightarrow> evicts_first a c"
  by (auto simp: evicts_first_def Let_def)

lemma foldl_pick_minimal:
  assumes irrefl: "\<And>x. \<not> R x x" and trans: "\<And>x y z. R x y \<Longrightarrow> R y z \<Longrightarrow> R x z"
  shows "(foldl (\<lambda>v x. if R x v then x else v) v xs = v \<or> R (foldl (\<lambda>v x. if R x v then x else v) v xs) v) \<and>
    (\<forall>x \<in> insert v (set xs). \<not> R x (foldl (\<lambda>v x. if R x v then x else v) v xs))"
proof (induction xs arbitrary: v)
  case Nil
  then show ?case using irrefl by simp
next
  case (Cons x xs)
  let ?r = "\<lambda>v. foldl (\<lambda>v x. if R x v then x else v) v xs"
  show ?case
  proof (cases "R x v")
    case True
    have r: "?r x = x \<or> R (?r x) x" "\<And>y. y \<in> insert x (set xs) \<Longrightarrow> \<not> R y (?r x)" using Cons.IH [of x] by blast+
    have "\<not> R v (?r x)" using trans [OF True] r(2) by blast
    then show ?thesis using True r trans [OF _ True] by auto
  next
    case False
    have r: "?r v = v \<or> R (?r v) v" "\<And>y. y \<in> insert v (set xs) \<Longrightarrow> \<not> R y (?r v)" using Cons.IH [of v] by blast+
    have "\<not> R x (?r v)"
    proof
      assume "R x (?r v)"
      then have "R x v" using r(1) trans [of x "?r v" v] by auto
      with False show False ..
    qed
    then show ?thesis using False r by auto
  qed
qed

lemma session_victim_minimal: "x \<in> set m \<Longrightarrow> \<not> evicts_first (snd x) (snd (session_victim m))"
  unfolding session_victim_def
  using foldl_pick_minimal [where R = "\<lambda>it v. evicts_first (snd it) (snd v)" and v = "hd m" and xs = m]
    evicts_first_irrefl evicts_first_trans by blast

definition sessions_ok :: "sessions \<Rightarrow> bool" where
  "sessions_ok m \<longleftrightarrow> distinct (map fst m) \<and> length m \<le> kMaxSessionPrincipals"

lemma evict_sessions_subset: "set (evict_sessions iter n m) \<subseteq> set m"
proof (induction iter n m rule: evict_sessions.induct)
  case (2 iter n m)
  then show ?case using set_delete_subset [of _ m] by (auto split: if_splits)
qed simp

lemma evict_sessions_distinct: "distinct (map fst m) \<Longrightarrow> distinct (map fst (evict_sessions iter n m))"
  by (induction iter n m rule: evict_sessions.induct) (auto simp: distinct_delete)

lemma evict_sessions_length:
  assumes "enumerates iter" "distinct (map fst m)" "length m \<le> n"
  shows "length (evict_sessions iter n m) \<le> kMaxSessionPrincipals"
  using assms
proof (induction iter n m rule: evict_sessions.induct)
  case (2 iter n m)
  show ?case
  proof (cases "kMaxSessionPrincipals < length m")
    case True
    then have "iter m \<noteq> []" using enumerates_set [OF "2.prems"(1), of m] by auto
    then have "session_victim (iter m) \<in> set m"
      using session_victim_mem enumerates_set [OF "2.prems"(1)] by blast
    then have "Suc (length (AList.delete (fst (session_victim (iter m))) m)) = length m"
      using length_delete_mem [OF "2.prems"(2)] by simp
    then show ?thesis using 2 True by (simp add: distinct_delete)
  qed simp
qed simp

lemma evict_sessions_small: "length m \<le> kMaxSessionPrincipals \<Longrightarrow> evict_sessions iter n m = m"
  by (cases n) simp_all

lemma store_session_entries:
  assumes "distinct (map fst m)" "(k, sp) \<in> set (store_session iter sid p now_s m)"
  shows "k = sid \<and> sp = \<lparr>sp_principal = p, sp_updated_at_s = now_s\<rparr> \<or> k \<noteq> sid \<and> (k, sp) \<in> set m"
proof -
  let ?m = "AList.update sid \<lparr>sp_principal = p, sp_updated_at_s = now_s\<rparr> m"
  have d: "distinct (map fst ?m)" using assms(1) by (rule distinct_update)
  have "(k, sp) \<in> set ?m" using assms(2) evict_sessions_subset by (auto simp: store_session_def Let_def)
  then have "map_of ?m k = Some sp" by (rule map_of_is_SomeI [OF d])
  then show ?thesis using assms(1) by (auto split: if_splits)
qed

lemma store_session_ok [qo_inv]:
  "enumerates iter \<Longrightarrow> sessions_ok m \<Longrightarrow> sessions_ok (store_session iter sid p now_s m)"
  by (simp add: sessions_ok_def store_session_def Let_def evict_sessions_distinct evict_sessions_length distinct_update)

lemma store_session_room:
  assumes "length m < kMaxSessionPrincipals \<or> sid \<in> fst ` set m \<and> length m \<le> kMaxSessionPrincipals"
  shows "store_session iter sid p now_s m = AList.update sid \<lparr>sp_principal = p, sp_updated_at_s = now_s\<rparr> m"
proof -
  have "length (AList.update sid v m) \<le> kMaxSessionPrincipals" for v
    using assms length_update [of sid v m] by (auto split: if_splits)
  then show ?thesis by (simp add: store_session_def Let_def evict_sessions_small)
qed

text \<open>A full table evicts exactly the victim of the table with the new entry.\<close>

lemma store_session_evicts:
  assumes "enumerates iter" "sessions_ok m" "length m = kMaxSessionPrincipals" "sid \<notin> fst ` set m"
    and m': "m' = AList.update sid \<lparr>sp_principal = p, sp_updated_at_s = now_s\<rparr> m"
  obtains k x where "store_session iter sid p now_s m = AList.delete k m'" "map_of m' k = Some x"
    "\<And>k' y. map_of m' k' = Some y \<Longrightarrow> \<not> evicts_first y x"
proof -
  obtain k x where v: "session_victim (iter m') = (k, x)" by (cases "session_victim (iter m')")
  have app: "m' = m @ [(sid, \<lparr>sp_principal = p, sp_updated_at_s = now_s\<rparr>)]" unfolding m' using assms(4) by (rule update_append)
  have d: "distinct (map fst m')" unfolding m' using assms(2) by (simp add: sessions_ok_def distinct_update)
  have it: "set (iter m') = set m'" by (rule enumerates_set [OF assms(1)])
  then have "iter m' \<noteq> []" using app by (metis append_is_Nil_conv not_Cons_self2 set_empty)
  then have "(k, x) \<in> set m'" using session_victim_mem it v by metis
  then have x: "map_of m' k = Some x" by (rule map_of_is_SomeI [OF d])
  have len: "length m' = Suc kMaxSessionPrincipals" using app assms(3) by simp
  have "Suc (length (AList.delete k m')) = length m'" using \<open>(k, x) \<in> set m'\<close> by (intro length_delete_mem [OF d]) (auto intro: rev_image_eqI)
  then have "store_session iter sid p now_s m = AList.delete k m'"
    using len v by (simp add: store_session_def Let_def m' [symmetric] evict_sessions_small)
  moreover have "\<not> evicts_first y x" if "map_of m' k' = Some y" for k' y
    using session_victim_minimal [of "(k', y)" "iter m'"] map_of_SomeD [OF that] it v by simp
  ultimately show ?thesis using x that by blast
qed

text \<open>A full table evicts the entry that goes first, even when it is the one just stored.\<close>

lemma store_session_full:
  assumes "enumerates iter" "sessions_ok m" "length m = kMaxSessionPrincipals" "sid \<notin> fst ` set m"
    and "0 < exp p" "\<And>k sp. (k, sp) \<in> set m \<Longrightarrow> exp (sp_principal sp) \<le> 0 \<or> exp p < exp (sp_principal sp)"
  shows "store_session iter sid p now_s m = m"
proof -
  let ?n = "(sid, \<lparr>sp_principal = p, sp_updated_at_s = now_s\<rparr>)"
  let ?m = "AList.update sid \<lparr>sp_principal = p, sp_updated_at_s = now_s\<rparr> m"
  have m: "?m = m @ [?n]" using assms(4) by (rule update_append)
  have it: "set (iter ?m) = insert ?n (set m)" using enumerates_set [OF assms(1)] m by simp
  have victim: "session_victim (iter ?m) = ?n"
  proof (rule session_victim_least)
    fix x assume "x \<in> set (iter ?m)" "x \<noteq> ?n"
    then have "(fst x, snd x) \<in> set m" using it by simp
    then have "exp (sp_principal (snd x)) \<le> 0 \<or> exp p < exp (sp_principal (snd x))" by (rule assms(6))
    then show "evicts_first (snd ?n) (snd x) \<and> \<not> evicts_first (snd x) (snd ?n)"
      using assms(5) by (auto simp: evicts_first_def Let_def)
  qed (simp add: it)
  obtain n where n: "length ?m = Suc n" "kMaxSessionPrincipals < length ?m" using m assms(3) by simp
  have "evict_sessions iter (length ?m) ?m = evict_sessions iter n (AList.delete sid ?m)"
    using n victim by simp
  also have "\<dots> = m" using assms(3,4) by (simp add: m delete_append evict_sessions_small)
  finally show ?thesis by (simp add: store_session_def Let_def)
qed

section \<open>Lemmas on authorization\<close>

lemma EmitAuditEvent_frame [simp]:
  "sv_sessions (EmitAuditEvent H e s) = sv_sessions s"
  "sv_jwks_cache (EmitAuditEvent H e s) = sv_jwks_cache s"
  "sv_decision_cache (EmitAuditEvent H e s) = sv_decision_cache s"
  "sv_last_throttle_logged_s (EmitAuditEvent H e s) = sv_last_throttle_logged_s s"
  by (simp_all add: EmitAuditEvent_def InsertAuditRow_def Let_def split: option.split)

lemma EmitAuditEvent_ring [simp]: "as_ring (EmitAuditEvent H e s) = Push (as_ring s) e"
  by (simp add: EmitAuditEvent_def InsertAuditRow_def Let_def split: option.split)

lemma authorize_row_allows:
  "fst (authorize_row H others inspect policy now_s skew sid query s) \<longleftrightarrow>
   (\<exists>sp. map_of (sv_sessions s) sid = Some sp \<and> \<not> IsPrincipalExpired (sp_principal sp) now_s skew \<and>
      \<not> ar_unsafe (inspect query) \<and> policy \<noteq> LoadFailed \<and>
      po_decision (policy_outcome policy (sp_principal sp) (inspect query)) = Allow)"
  by (auto simp: authorize_row_def Let_def split: option.split)

lemma chunk_policy_allows:
  "chunk_policy H \<noteq> LoadFailed \<and> po_decision (policy_outcome (chunk_policy H) p request) = Allow \<longleftrightarrow>
   (if LookupPolicyTable H = [] then po_decision (EvaluateDefaultPolicy p (ar_action request)) = Allow
    else \<exists>doc. LoadPolicyFromTable H (LookupPolicyTable H) = Some doc \<and>
      po_decision (EvaluatePolicy (doc\<lparr>pd_default_allow := LookupDefaultAllow H\<rparr>) p request) = Allow)"
  by (simp add: chunk_policy_def policy_outcome_def Let_def split: option.split)

text \<open>Every path through a row emits one event, of the type of its answer.\<close>

lemma emitted_once: "P e s1 \<Longrightarrow> \<exists>e' s1'. EmitAuditEvent H e s1 = EmitAuditEvent H e' s1' \<and> P e' s1'"
  by blast

lemma authorize_row_event:
  "\<exists>e s1. snd (authorize_row H others inspect policy now_s skew sid query s) = EmitAuditEvent H e s1 \<and>
     (s1 = others 0 s \<or> s1 = others 1 ((others 0 s)\<lparr>sv_sessions := AList.delete sid (sv_sessions (others 0 s))\<rparr>)) \<and>
     (ae_event_type e = (if fst (authorize_row H others inspect policy now_s skew sid query s) then AuthzAllow else AuthzDeny)) \<and>
     ae_timestamp_unix_s e = now_s \<and> ae_action e = ActionName (ar_action (inspect query))"
  by (simp add: authorize_row_def Let_def split: option.split)
    (intro conjI allI impI; rule emitted_once; simp add: authz_event_def)

lemma IsPrincipalExpired_iff: "IsPrincipalExpired p now_s skew \<longleftrightarrow> 0 < exp p \<and> exp p + skew < now_s"
  by (auto simp: IsPrincipalExpired_def)

lemma not_expired: "\<not> IsPrincipalExpired p now_s skew \<longleftrightarrow> exp p \<le> 0 \<or> now_s \<le> exp p + skew"
  by (auto simp: IsPrincipalExpired_def)

lemma authz_event_fields:
  "ae_event_type (authz_event t r p allow reason) = (if allow then AuthzAllow else AuthzDeny)"
  "ae_timestamp_unix_s (authz_event t r p allow reason) = t" "ae_action (authz_event t r p allow reason) = ActionName (ar_action r)"
  "ae_kid (authz_event t r p allow reason) = []" "ae_token_hash (authz_event t r p allow reason) = []"
  "ae_reason (authz_event t r p allow reason) = reason"
  "ae_subject (authz_event t r p allow reason) = (case p of None \<Rightarrow> [] | Some q \<Rightarrow> subject q)"
  "ae_issuer (authz_event t r p allow reason) = (case p of None \<Rightarrow> [] | Some q \<Rightarrow> issuer q)"
  by (simp_all add: authz_event_def new_AuditEvent_def)

text \<open>The event of a row in full, and the state it is emitted on.\<close>

lemma authorize_row_reason:
  "\<exists>e s1. snd (authorize_row H others inspect policy now_s skew sid query s) = EmitAuditEvent H e s1 \<and>
     ae_event_type e = (if fst (authorize_row H others inspect policy now_s skew sid query s) then AuthzAllow else AuthzDeny) \<and>
     ae_timestamp_unix_s e = now_s \<and> ae_action e = ActionName (ar_action (inspect query)) \<and> ae_kid e = [] \<and> ae_token_hash e = [] \<and>
     (case map_of (sv_sessions s) sid of
        None \<Rightarrow> ae_reason e = ''unknown session'' \<and> ae_subject e = [] \<and> ae_issuer e = [] \<and> s1 = others 0 s
      | Some sp \<Rightarrow>
          ae_subject e = subject (sp_principal sp) \<and> ae_issuer e = issuer (sp_principal sp) \<and>
          (if IsPrincipalExpired (sp_principal sp) now_s skew
           then ae_reason e = ''principal expired'' \<and>
             s1 = others 1 ((others 0 s)\<lparr>sv_sessions := AList.delete sid (sv_sessions (others 0 s))\<rparr>)
           else s1 = others 0 s \<and>
             ae_reason e =
               (if policy = LoadFailed then ''policy_table load failed''
                else if ar_unsafe (inspect query) then ''parse_error''
                else po_reason (policy_outcome policy (sp_principal sp) (inspect query)))))"
proof -
  let ?row = "authorize_row H others inspect policy now_s skew sid query s"
  let ?expired = "\<lambda>sp. IsPrincipalExpired (sp_principal sp) now_s skew"
  let ?reason = "case map_of (sv_sessions s) sid of None \<Rightarrow> ''unknown session''
    | Some sp \<Rightarrow> if ?expired sp then ''principal expired'' else if policy = LoadFailed then ''policy_table load failed''
        else if ar_unsafe (inspect query) then ''parse_error'' else po_reason (policy_outcome policy (sp_principal sp) (inspect query))"
  let ?st = "case map_of (sv_sessions s) sid of None \<Rightarrow> others 0 s
    | Some sp \<Rightarrow> if ?expired sp then others 1 ((others 0 s)\<lparr>sv_sessions := AList.delete sid (sv_sessions (others 0 s))\<rparr>) else others 0 s"
  let ?e = "authz_event now_s (inspect query) (map_option sp_principal (map_of (sv_sessions s) sid)) (fst ?row) ?reason"
  have "snd ?row = EmitAuditEvent H ?e ?st"
    by (simp add: authorize_row_def Let_def split: option.split)
  then show ?thesis
    by (intro exI [of _ ?e] exI [of _ ?st]) (cases "map_of (sv_sessions s) sid"; simp add: authz_event_fields)
qed

lemma chunk_policy_reason:
  "(if chunk_policy H = LoadFailed then a else if u then b else po_reason (policy_outcome (chunk_policy H) p request)) =
   (if LookupPolicyTable H \<noteq> [] \<and> LoadPolicyFromTable H (LookupPolicyTable H) = None then a
    else if u then b
    else if LookupPolicyTable H = [] then po_reason (EvaluateDefaultPolicy p (ar_action request))
    else po_reason (EvaluatePolicy ((the (LoadPolicyFromTable H (LookupPolicyTable H)))\<lparr>pd_default_allow := LookupDefaultAllow H\<rparr>) p request))"
  by (simp add: chunk_policy_def policy_outcome_def Let_def split: option.split)

lemma single_row:
  "CheckAuthorizationScalarFun H others inspect now_s [(sid, query)] s =
     (case authorize_row H (others 0) inspect (chunk_policy H) now_s (LookupClockSkew H) sid query s of (b, s') \<Rightarrow> ([b], s'))"
  by (simp add: CheckAuthorizationScalarFun_def split: prod.split)

lemma authorization_answer:
  "fst (CheckAuthorizationScalarFun H others inspect now_s [(sid, query)] s) = [True] \<longleftrightarrow>
   (\<exists>sp. map_of (sv_sessions s) sid = Some sp \<and>
      (exp (sp_principal sp) \<le> 0 \<or> now_s \<le> exp (sp_principal sp) + LookupClockSkew H) \<and>
      \<not> ar_unsafe (inspect query) \<and>
      (if LookupPolicyTable H = []
       then po_decision (EvaluateDefaultPolicy (sp_principal sp) (ar_action (inspect query))) = Allow
       else \<exists>doc. LoadPolicyFromTable H (LookupPolicyTable H) = Some doc \<and>
         po_decision (EvaluatePolicy (doc\<lparr>pd_default_allow := LookupDefaultAllow H\<rparr>) (sp_principal sp) (inspect query)) = Allow))"
  by (simp only: single_row split_beta fst_conv list.inject simp_thms authorize_row_allows chunk_policy_allows not_expired)

lemma authorization_event:
  "\<exists>e s1. snd (CheckAuthorizationScalarFun H others inspect now_s [(sid, query)] s) = EmitAuditEvent H e s1 \<and>
      ae_event_type e = (if fst (CheckAuthorizationScalarFun H others inspect now_s [(sid, query)] s) = [True] then AuthzAllow else AuthzDeny) \<and>
      ae_timestamp_unix_s e = now_s \<and> ae_action e = ActionName (ar_action (inspect query)) \<and> ae_kid e = [] \<and> ae_token_hash e = [] \<and>
      (case map_of (sv_sessions s) sid of
         None \<Rightarrow> ae_reason e = ''unknown session'' \<and> ae_subject e = [] \<and> ae_issuer e = [] \<and> s1 = others 0 0 s
       | Some sp \<Rightarrow>
           ae_subject e = subject (sp_principal sp) \<and> ae_issuer e = issuer (sp_principal sp) \<and>
           (if 0 < exp (sp_principal sp) \<and> exp (sp_principal sp) + LookupClockSkew H < now_s
            then ae_reason e = ''principal expired'' \<and>
              s1 = others 0 1 ((others 0 0 s)\<lparr>sv_sessions := AList.delete sid (sv_sessions (others 0 0 s))\<rparr>)
            else s1 = others 0 0 s \<and>
              ae_reason e =
                (if LookupPolicyTable H \<noteq> [] \<and> LoadPolicyFromTable H (LookupPolicyTable H) = None then ''policy_table load failed''
                 else if ar_unsafe (inspect query) then ''parse_error''
                 else if LookupPolicyTable H = []
                 then po_reason (EvaluateDefaultPolicy (sp_principal sp) (ar_action (inspect query)))
                 else po_reason (EvaluatePolicy ((the (LoadPolicyFromTable H (LookupPolicyTable H)))\<lparr>pd_default_allow := LookupDefaultAllow H\<rparr>)
                   (sp_principal sp) (inspect query)))))"
  using authorize_row_reason [of H "others 0" inspect "chunk_policy H" now_s "LookupClockSkew H" sid query s]
  unfolding single_row split_beta fst_conv snd_conv chunk_policy_reason IsPrincipalExpired_iff by (simp only: list.inject simp_thms)

section \<open>Properties\<close>

text \<open>
  C5: The answer to a query, its audit event and what it does to the sessions, on every branch. A query is
  authorized exactly when its session is known, its principal is not expired beyond the clock skew, the
  query was understood, and the policy in force allows it: the policy table when one is configured and
  loads, the default scope policy when none is configured; a table that fails to load authorizes
  nothing. One event is emitted, of the type of the answer, with the time, the action, the subject and issuer of
  the session's principal and nothing of a token; its reason names the first check that failed, in the order session,
  expiry, policy table, query, or is the reason of the policy. An expired session is dropped, and
  nothing else of the state changes but by other threads.
\<close>

theorem authorization_decision:
  "(fst (CheckAuthorizationScalarFun H others inspect now_s [(sid, query)] s) = [True] \<longleftrightarrow>
   (\<exists>sp. map_of (sv_sessions s) sid = Some sp \<and>
      (exp (sp_principal sp) \<le> 0 \<or> now_s \<le> exp (sp_principal sp) + LookupClockSkew H) \<and>
      \<not> ar_unsafe (inspect query) \<and>
      (if LookupPolicyTable H = []
       then po_decision (EvaluateDefaultPolicy (sp_principal sp) (ar_action (inspect query))) = Allow
       else \<exists>doc. LoadPolicyFromTable H (LookupPolicyTable H) = Some doc \<and>
         po_decision (EvaluatePolicy (doc\<lparr>pd_default_allow := LookupDefaultAllow H\<rparr>) (sp_principal sp) (inspect query)) = Allow))) \<and>
   (\<exists>e s1. snd (CheckAuthorizationScalarFun H others inspect now_s [(sid, query)] s) = EmitAuditEvent H e s1 \<and>
      ae_event_type e = (if fst (CheckAuthorizationScalarFun H others inspect now_s [(sid, query)] s) = [True] then AuthzAllow else AuthzDeny) \<and>
      ae_timestamp_unix_s e = now_s \<and> ae_action e = ActionName (ar_action (inspect query)) \<and> ae_kid e = [] \<and> ae_token_hash e = [] \<and>
      (case map_of (sv_sessions s) sid of
         None \<Rightarrow> ae_reason e = ''unknown session'' \<and> ae_subject e = [] \<and> ae_issuer e = [] \<and> s1 = others 0 0 s
       | Some sp \<Rightarrow>
           ae_subject e = subject (sp_principal sp) \<and> ae_issuer e = issuer (sp_principal sp) \<and>
           (if 0 < exp (sp_principal sp) \<and> exp (sp_principal sp) + LookupClockSkew H < now_s
            then ae_reason e = ''principal expired'' \<and>
              s1 = others 0 1 ((others 0 0 s)\<lparr>sv_sessions := AList.delete sid (sv_sessions (others 0 0 s))\<rparr>)
            else s1 = others 0 0 s \<and>
              ae_reason e =
                (if LookupPolicyTable H \<noteq> [] \<and> LoadPolicyFromTable H (LookupPolicyTable H) = None then ''policy_table load failed''
                 else if ar_unsafe (inspect query) then ''parse_error''
                 else if LookupPolicyTable H = []
                 then po_reason (EvaluateDefaultPolicy (sp_principal sp) (ar_action (inspect query)))
                 else po_reason (EvaluatePolicy ((the (LoadPolicyFromTable H (LookupPolicyTable H)))\<lparr>pd_default_allow := LookupDefaultAllow H\<rparr>)
                   (sp_principal sp) (inspect query))))))"
  by (rule conjI [OF authorization_answer authorization_event])

lemma authorize_rows_events:
  "\<exists>es. as_ring (snd (authorize_rows H (\<lambda>_ _ s. s) inspect policy now_s skew i rows s)) = foldl Push (as_ring s) es \<and>
     length (fst (authorize_rows H (\<lambda>_ _ s. s) inspect policy now_s skew i rows s)) = length rows \<and>
     map (\<lambda>e. (ae_event_type e, ae_action e)) es =
     map (\<lambda>(b, sid, query). (if b then AuthzAllow else AuthzDeny, ActionName (ar_action (inspect query))))
       (zip (fst (authorize_rows H (\<lambda>_ _ s. s) inspect policy now_s skew i rows s)) rows)"
proof (induction rows arbitrary: s i)
  case (Cons r rows)
  obtain sid query where r: "r = (sid, query)" by (cases r)
  obtain b s1 where a: "authorize_row H (\<lambda>_ s. s) inspect policy now_s skew sid query s = (b, s1)" by fastforce
  obtain bs s2 where bs: "authorize_rows H (\<lambda>_ _ s. s) inspect policy now_s skew (Suc i) rows s1 = (bs, s2)" by fastforce
  obtain e where e: "as_ring s1 = Push (as_ring s) e" "ae_event_type e = (if b then AuthzAllow else AuthzDeny)"
      "ae_action e = ActionName (ar_action (inspect query))"
    using authorize_row_event [of H "\<lambda>_ s. s" inspect policy now_s skew sid query s] unfolding a by auto
  obtain es where "as_ring s2 = foldl Push (as_ring s1) es" "length bs = length rows"
      "map (\<lambda>e. (ae_event_type e, ae_action e)) es =
       map (\<lambda>(b, sid, query). (if b then AuthzAllow else AuthzDeny, ActionName (ar_action (inspect query)))) (zip bs rows)"
    using Cons.IH [of "Suc i" s1] unfolding bs by auto
  with e show ?case by (intro exI [of _ "e # es"]) (simp add: r a bs)
qed simp

text \<open>
  C15: Every authorization decision is audited. A chunk of queries pushes exactly one event per row into
  the audit ring, in order, an allow event for an authorized query and a deny event for a refused one,
  each naming the action of its query.
\<close>

theorem authorization_audited:
  "\<exists>es. as_ring (snd (CheckAuthorizationScalarFun H (\<lambda>_ _ s. s) inspect now_s rows s)) = foldl Push (as_ring s) es \<and>
     length (fst (CheckAuthorizationScalarFun H (\<lambda>_ _ s. s) inspect now_s rows s)) = length rows \<and>
     map (\<lambda>e. (ae_event_type e, ae_action e)) es =
     map (\<lambda>(b, sid, query). (if b then AuthzAllow else AuthzDeny, ActionName (ar_action (inspect query))))
       (zip (fst (CheckAuthorizationScalarFun H (\<lambda>_ _ s. s) inspect now_s rows s)) rows)"
  unfolding CheckAuthorizationScalarFun_def by (rule authorize_rows_events)

text \<open>
  C35: The session table stays within its capacity and gives up sessions in the order of their expiry. Storing
  a principal keeps the keys distinct and at most 1000. While there is room, or the session is known, nothing but the stored session
  changes. Otherwise exactly one session goes, and it is one that no remaining session should have gone before:
  no other has an earlier expiry, sessions that never expire go only when all are such, and among sessions
  with the same expiry none was updated longer ago.
\<close>

theorem session_table_bounded:
  assumes "enumerates iter" "sessions_ok (sv_sessions s)"
  shows "sessions_ok (sv_sessions (StoreSessionPrincipal iter sid p now_s s)) \<and>
    (let before = (map_of (sv_sessions s))(sid \<mapsto> \<lparr>sp_principal = p, sp_updated_at_s = now_s\<rparr>);
         after = map_of (sv_sessions (StoreSessionPrincipal iter sid p now_s s))
     in if length (sv_sessions s) < kMaxSessionPrincipals \<or> sid \<in> fst ` set (sv_sessions s) then after = before
        else \<exists>k x. before k = Some x \<and> after = before(k := None) \<and>
          (\<forall>k' y. before k' = Some y \<longrightarrow>
             \<not> (0 < exp (sp_principal y) \<and> (exp (sp_principal x) \<le> 0 \<or> exp (sp_principal y) < exp (sp_principal x))) \<and>
             (exp (sp_principal y) = exp (sp_principal x) \<longrightarrow> sp_updated_at_s x \<le> sp_updated_at_s y)))"
proof (rule conjI)
  let ?m = "sv_sessions s"
  let ?m' = "AList.update sid \<lparr>sp_principal = p, sp_updated_at_s = now_s\<rparr> ?m"
  have st: "sv_sessions (StoreSessionPrincipal iter sid p now_s s) = store_session iter sid p now_s ?m"
    by (simp add: StoreSessionPrincipal_def)
  show "sessions_ok (sv_sessions (StoreSessionPrincipal iter sid p now_s s))"
    unfolding st using assms by (rule store_session_ok)
  have le: "length ?m \<le> kMaxSessionPrincipals" using assms(2) by (simp add: sessions_ok_def)
  have before: "(map_of ?m)(sid \<mapsto> \<lparr>sp_principal = p, sp_updated_at_s = now_s\<rparr>) = map_of ?m'" by (simp add: update_conv')
  show "let before = (map_of ?m)(sid \<mapsto> \<lparr>sp_principal = p, sp_updated_at_s = now_s\<rparr>);
         after = map_of (sv_sessions (StoreSessionPrincipal iter sid p now_s s))
     in if length ?m < kMaxSessionPrincipals \<or> sid \<in> fst ` set ?m then after = before
        else \<exists>k x. before k = Some x \<and> after = before(k := None) \<and>
          (\<forall>k' y. before k' = Some y \<longrightarrow>
             \<not> (0 < exp (sp_principal y) \<and> (exp (sp_principal x) \<le> 0 \<or> exp (sp_principal y) < exp (sp_principal x))) \<and>
             (exp (sp_principal y) = exp (sp_principal x) \<longrightarrow> sp_updated_at_s x \<le> sp_updated_at_s y))"
  proof (cases "length ?m < kMaxSessionPrincipals \<or> sid \<in> fst ` set ?m")
    case True
    then have "store_session iter sid p now_s ?m = ?m'" using le by (intro store_session_room) auto
    then show ?thesis using True unfolding Let_def st before by simp
  next
    case False
    with le have "length ?m = kMaxSessionPrincipals" "sid \<notin> fst ` set ?m" by auto
    then obtain k x where e: "store_session iter sid p now_s ?m = AList.delete k ?m'" "map_of ?m' k = Some x"
        "\<And>k' y. map_of ?m' k' = Some y \<Longrightarrow> \<not> evicts_first y x"
      using store_session_evicts [OF assms _ _ refl] by metis
    have "map_of (AList.delete k ?m') = (map_of ?m')(k := None)" by (simp add: delete_conv')
    with e show ?thesis
      unfolding Let_def st before if_not_P [OF False]
      by (intro exI [of _ k] exI [of _ x]) (fastforce simp: evicts_first_def Let_def)
  qed
qed

text \<open>
  A full session table can drop the session it was asked to store. When 1000 sessions are known and
  all of them expire later than the new principal or never, storing the new one changes nothing: its
  token was accepted, yet every query of the session is refused as unknown.
\<close>

lemma full_table_drops_new_session:
  assumes "enumerates iter" "sessions_ok (sv_sessions s)" "length (sv_sessions s) = kMaxSessionPrincipals"
    and "sid \<notin> fst ` set (sv_sessions s)" "0 < exp p"
    and "\<And>k sp. (k, sp) \<in> set (sv_sessions s) \<Longrightarrow> exp (sp_principal sp) \<le> 0 \<or> exp p < exp (sp_principal sp)"
  shows "fst (CheckAuthorizationScalarFun H others inspect now_s [(sid, query)]
      (StoreSessionPrincipal iter sid p now_s s)) = [False]"
proof -
  have "store_session iter sid p now_s (sv_sessions s) = sv_sessions s"
    using assms by (rule store_session_full)
  moreover have "map_of (sv_sessions s) sid = None" using assms(4) by (simp add: map_of_eq_None_iff)
  ultimately show ?thesis
    by (simp add: CheckAuthorizationScalarFun_def StoreSessionPrincipal_def authorize_row_def Let_def)
qed

section \<open>Witnesses\<close>

definition sample_sessions :: "nat \<Rightarrow> seconds \<Rightarrow> sessions" where
  "sample_sessions n e =
     map (\<lambda>i. (replicate i CHR ''s'', \<lparr>sp_principal = sample_principal\<lparr>exp := e\<rparr>, sp_updated_at_s = 0\<rparr>)) [0..<n]"

definition sample_server :: "nat \<Rightarrow> seconds \<Rightarrow> dbval Server" where
  "sample_server n e = (new_QuackOauthState (\<lambda>_. None))\<lparr>sv_sessions := sample_sessions n e\<rparr>"

lemma sample_sessions_keys: "map fst (sample_sessions n e) = map (\<lambda>i. replicate i CHR ''s'') [0..<n]"
  by (simp add: sample_sessions_def)

lemma sample_sessions_ok: "n \<le> kMaxSessionPrincipals \<Longrightarrow> sessions_ok (sample_sessions n e)"
  by (simp add: sessions_ok_def sample_sessions_def comp_def distinct_map inj_on_def)

lemma sample_server_full:
  "sessions_ok (sv_sessions (sample_server 1000 100))" "length (sv_sessions (sample_server 1000 100)) = kMaxSessionPrincipals"
  "''new'' \<notin> fst ` set (sv_sessions (sample_server 1000 100))"
proof -
  show "sessions_ok (sv_sessions (sample_server 1000 100))"
    by (simp add: sample_server_def sample_sessions_ok kMaxSessionPrincipals_def)
  show "length (sv_sessions (sample_server 1000 100)) = kMaxSessionPrincipals"
    by (simp add: sample_server_def sample_sessions_def kMaxSessionPrincipals_def)
  show "''new'' \<notin> fst ` set (sv_sessions (sample_server 1000 100))"
  proof
    assume "''new'' \<in> fst ` set (sv_sessions (sample_server 1000 100))"
    then obtain i where "''new'' = replicate i CHR ''s''" by (auto simp: sample_server_def sample_sessions_def)
    then have "CHR ''n'' \<in> set (replicate i CHR ''s'')" by (metis list.set_intros(1))
    then show False by (simp split: if_splits)
  qed
qed

text \<open>A full table of sessions that expire at 100 takes one that expires at 200: it stays, an older one goes.\<close>

lemma session_table_bounded_witness:
  "map_of (sv_sessions (StoreSessionPrincipal (\<lambda>m. m) ''new'' (sample_principal\<lparr>exp := 200\<rparr>) 7 (sample_server 1000 100))) ''new'' =
     Some \<lparr>sp_principal = sample_principal\<lparr>exp := 200\<rparr>, sp_updated_at_s = 7\<rparr>"
proof -
  let ?new = "\<lparr>sp_principal = sample_principal\<lparr>exp := 200\<rparr>, sp_updated_at_s = 7\<rparr>"
  let ?before = "(map_of (sv_sessions (sample_server 1000 100)))(''new'' \<mapsto> ?new)"
  have "\<not> (length (sv_sessions (sample_server 1000 100)) < kMaxSessionPrincipals \<or> ''new'' \<in> fst ` set (sv_sessions (sample_server 1000 100)))"
    using sample_server_full by simp
  then obtain k x where e: "?before k = Some x"
      "map_of (sv_sessions (StoreSessionPrincipal (\<lambda>m. m) ''new'' (sample_principal\<lparr>exp := 200\<rparr>) 7 (sample_server 1000 100))) = ?before(k := None)"
      "\<And>k' y. ?before k' = Some y \<Longrightarrow> \<not> (0 < exp (sp_principal y) \<and> exp (sp_principal y) < exp (sp_principal x))"
    using session_table_bounded [OF enumerates_id sample_server_full(1), of "''new''" "sample_principal\<lparr>exp := 200\<rparr>" 7]
    unfolding Let_def by (simp only: if_False) blast
  have "([], \<lparr>sp_principal = sample_principal\<lparr>exp := 100\<rparr>, sp_updated_at_s = 0\<rparr>) \<in> set (sv_sessions (sample_server 1000 100))"
    by (simp add: sample_server_def sample_sessions_def)
  then have "?before [] = Some \<lparr>sp_principal = sample_principal\<lparr>exp := 100\<rparr>, sp_updated_at_s = 0\<rparr>"
    using sample_server_full(1) by (simp add: sessions_ok_def map_of_is_SomeI)
  from e(3) [OF this] have "exp (sp_principal x) \<noteq> 200" by auto
  then have "k \<noteq> ''new''" using e(1) by auto
  then show ?thesis using e(2) by simp
qed

lemma full_table_drops_new_session_witness:
  "fst (CheckAuthorizationScalarFun (plain_host [] [] []) (\<lambda>_ _ s. s) (\<lambda>q. sample_request []) 10 [(''new'', ''SELECT 1'')]
     (StoreSessionPrincipal (\<lambda>m. m) ''new'' (sample_principal\<lparr>exp := 50\<rparr>) 10 (sample_server 1000 100))) = [False]"
proof (rule full_table_drops_new_session [OF enumerates_id sample_server_full])
  show "0 < exp (sample_principal\<lparr>exp := 50\<rparr>)" by simp
  show "exp (sp_principal sp) \<le> 0 \<or> exp (sample_principal\<lparr>exp := 50\<rparr>) < exp (sp_principal sp)"
    if "(k, sp) \<in> set (sv_sessions (sample_server 1000 100))" for k sp
    using that by (auto simp: sample_server_def sample_sessions_def)
qed

end
