(* ===== verification/Endpoints.thy ===== *)
theory Endpoints
  imports Host Http_Json
begin

text \<open>
  Which hosts the extension talks to and listens on: the loopback test and the host of a listener
  (plaintext_guard.cpp), the validation of endpoint URLs and the creation of secrets (secrets.cpp),
  the URL splitter of the HTTP client (http_client_duckdb.cpp) and the provider presets (providers.cpp).

  \<open>find\<close> and \<open>substr\<close> pairs of the sources that split a string at its first delimiter are \<open>takeWhile\<close>
  and \<open>dropWhile\<close> here.
\<close>

section \<open>Loopback hosts (plaintext_guard.cpp)\<close>

definition IsLoopbackHost :: "string \<Rightarrow> bool" where
  "IsLoopbackHost host =
     (if host = [] then False
      else
        let lower = lower_ascii host
        in if lower = ''localhost'' then True
           else if lower = ''::1'' \<or> lower = ''[::1]'' then True
           else if starts_with lower ''127.'' then (\<forall>c \<in> set (drop 4 lower). c = CHR ''.'' \<or> is_digit c)
           else False)"

definition HostFromQuackUri :: "string \<Rightarrow> string" where
  "HostFromQuackUri uri =
     (if uri = [] then []
      else
        let body = (if starts_with uri ''quack://'' then Some (drop 8 uri)
                    else if starts_with uri ''quack:'' then Some (drop 6 uri) else None)
        in case body of
             None \<Rightarrow> []
           | Some [] \<Rightarrow> []
           | Some (c # cs) \<Rightarrow>
               if c = CHR ''['' then
                 (case find_char (c # cs) (CHR '']'') 0 of
                    None \<Rightarrow> []
                  | Some close \<Rightarrow> substr (c # cs) 0 (close + 1))
               else
                 (case rfind_char (c # cs) (CHR '':'') of
                    None \<Rightarrow> c # cs
                  | Some colon \<Rightarrow> substr (c # cs) 0 colon))"

section \<open>Endpoint URLs (secrets.cpp)\<close>

text \<open>The part from position \<open>n\<close> to the first of \<open>/?#\<close>.\<close>

definition authority :: "string \<Rightarrow> nat \<Rightarrow> string" where
  "authority url n = takeWhile (\<lambda>c. c \<noteq> CHR ''/'' \<and> c \<noteq> CHR ''?'' \<and> c \<noteq> CHR ''#'') (drop n url)"

text \<open>Host and port text of an authority, \<open>None\<close> for a malformed bracket form.\<close>

definition split_authority :: "string \<Rightarrow> (string \<times> string) option" where
  "split_authority auth =
     (if hd auth = CHR ''['' then
        (if CHR '']'' \<notin> set auth then None
         else
           let host = takeWhile (\<lambda>c. c \<noteq> CHR '']'') (tl auth);
               remainder = tl (dropWhile (\<lambda>c. c \<noteq> CHR '']'') auth)
           in if remainder = [] then Some (host, [])
              else if hd remainder \<noteq> CHR '':'' then None
              else Some (host, tl remainder))
      else if CHR '':'' \<in> set auth
      then Some (takeWhile (\<lambda>c. c \<noteq> CHR '':'') auth, tl (dropWhile (\<lambda>c. c \<noteq> CHR '':'') auth))
      else Some (auth, []))"

definition port_ok :: "string \<Rightarrow> bool" where
  "port_ok port_str =
     (if port_str = [] then True
      else if length port_str > 5 then False
      else if \<exists>c \<in> set port_str. \<not> is_digit c then False
      else 0 < digits_value port_str \<and> digits_value port_str \<le> 65535)"

definition IsLocalhostUrl :: "string \<Rightarrow> bool" where
  "IsLocalhostUrl url =
     (if \<not> starts_with url ''http://'' then False
      else
        let auth = authority url 7
        in if auth = [] then False
           else if CHR ''@'' \<in> set auth then False
           else case split_authority auth of
             None \<Rightarrow> False
           | Some (host, port_str) \<Rightarrow>
               if \<not> port_ok port_str then False
               else if host = [] then False
               else IsLoopbackHost host)"

definition url_char_bad :: "char \<Rightarrow> bool" where
  "url_char_bad c \<longleftrightarrow> uc c < 32 \<or> uc c = 127 \<or> c = CHR 0x22 \<or> c = CHR 0x27 \<or> c = CHR 0x5C \<or> c = CHR '' ''"

definition ValidateHttpUrl :: "string \<Rightarrow> string \<Rightarrow> unit throws" where
  "ValidateHttpUrl field url =
     (if url = [] then Inr ()
      else if length url > 2048 then Inl (UrlTooLong field)
      else if \<exists>c \<in> set url. url_char_bad c then Inl (UrlBadCharacters field)
      else
        let is_https = starts_with url ''https://''; is_http = starts_with url ''http://''
        in if \<not> is_https \<and> \<not> is_http then Inl (UrlBadScheme field)
           else if CHR ''@'' \<in> set (authority url (if is_https then 8 else 7)) then Inl (UrlUserinfo field)
           else if is_http \<and> \<not> IsLocalhostUrl url then Inl (UrlNotHttps field)
           else Inr ())"

definition ValidateTenantOrRealm :: "string \<Rightarrow> unit throws" where
  "ValidateTenantOrRealm val =
     (if val = [] then Inr ()
      else if length val > 2048 then Inl TenantTooLong
      else if \<exists>c \<in> set val. url_char_bad c then Inl TenantBadCharacters
      else if starts_with val ''http://'' \<or> starts_with val ''https://'' then ValidateHttpUrl ''tenant_or_realm'' val
      else if CHR ''@'' \<in> set val then Inl TenantUserinfo
      else Inr ())"

section \<open>Secrets (secrets.cpp)\<close>

definition kClientSensitiveFields :: "string list" where
  "kClientSensitiveFields = [''client_secret'', ''access_token'', ''refresh_token'']"

fun CopyParams :: "(string \<times> 'v) list \<Rightarrow> string list \<Rightarrow> (string \<times> 'v) list \<Rightarrow> (string \<times> 'v) list" where
  "CopyParams options [] m = m"
| "CopyParams options (field # names) m =
     CopyParams options names
       (case map_of options field of None \<Rightarrow> m | Some v \<Rightarrow> AList.update field v m)"

definition client_fields :: "string list" where
  "client_fields = [''issuer'', ''client_id'', ''client_secret'', ''audience'', ''scope'',
     ''device_authorization_endpoint'', ''token_endpoint'', ''redirect_listener_port'', ''access_token'',
     ''refresh_token'', ''expires_at'']"

definition server_fields :: "string list" where
  "server_fields = [''issuer'', ''audience'', ''jwks_uri'', ''policy_table'', ''audit_table'',
     ''introspection_endpoint'', ''introspect_client_id'', ''introspect_client_secret'', ''tenant_or_realm'']"

definition join_scope :: "string list \<Rightarrow> string" where
  "join_scope ss = foldl (\<lambda>joined s. (if joined \<noteq> [] then joined @ [CHR '' ''] else joined) @ s) [] ss"

definition check_field :: "'v Host \<Rightarrow> (string \<times> 'v) list \<Rightarrow> string \<Rightarrow> (string \<Rightarrow> unit throws) \<Rightarrow> unit throws" where
  "check_field H m field validate =
     (case map_of m field of None \<Rightarrow> Inr () | Some v \<Rightarrow> validate (h_ToString H v))"

definition CreateClientSecret ::
    "'v Host \<Rightarrow> string \<Rightarrow> string list \<Rightarrow> (string \<times> 'v) list \<Rightarrow> 'v KeyValueSecret throws" where
  "CreateClientSecret H type scope options =
     (let m1 = CopyParams options client_fields [];
          m2 = (if map_of m1 ''scope'' = None \<and> scope \<noteq> []
                then AList.update ''scope'' (h_varchar H (join_scope scope)) m1 else m1)
      in case check_field H m2 ''device_authorization_endpoint'' (ValidateHttpUrl ''device_authorization_endpoint'') of
           Inl e \<Rightarrow> Inl e
         | Inr _ \<Rightarrow>
             (case check_field H m2 ''token_endpoint'' (ValidateHttpUrl ''token_endpoint'') of
                Inl e \<Rightarrow> Inl e
              | Inr _ \<Rightarrow> Inr \<lparr>sec_type = type, sec_map = m2, sec_redact_keys = kClientSensitiveFields\<rparr>))"

definition CreateServerSecret ::
    "'v Host \<Rightarrow> string \<Rightarrow> (string \<times> 'v) list \<Rightarrow> 'v KeyValueSecret throws" where
  "CreateServerSecret H type options =
     (let m = CopyParams options server_fields []
      in case check_field H m ''jwks_uri'' (ValidateHttpUrl ''jwks_uri'') of
           Inl e \<Rightarrow> Inl e
         | Inr _ \<Rightarrow>
             (case check_field H m ''introspection_endpoint'' (ValidateHttpUrl ''introspection_endpoint'') of
                Inl e \<Rightarrow> Inl e
              | Inr _ \<Rightarrow>
                  (case check_field H m ''tenant_or_realm'' ValidateTenantOrRealm of
                     Inl e \<Rightarrow> Inl e
                   | Inr _ \<Rightarrow> Inr \<lparr>sec_type = type, sec_map = m, sec_redact_keys = [''introspect_client_secret'']\<rparr>)))"

section \<open>URLs of the HTTP client (http_client_duckdb.cpp)\<close>

record UrlParts =
  up_scheme :: string
  up_host :: string
  up_port :: int
  up_path :: string

definition ParseUrl :: "string \<Rightarrow> UrlParts option" where
  "ParseUrl url =
     (case find_str url ''://'' 0 of
        None \<Rightarrow> None
      | Some scheme_end \<Rightarrow>
          let scheme = substr url 0 scheme_end;
              rest = drop (scheme_end + 3) url;
              host_part = takeWhile (\<lambda>c. c \<noteq> CHR ''/'') rest;
              path = (if CHR ''/'' \<in> set rest then dropWhile (\<lambda>c. c \<noteq> CHR ''/'') rest else ''/'')
          in case rfind_char host_part (CHR '':'') of
               None \<Rightarrow>
                 if host_part = [] then None
                 else Some \<lparr>up_scheme = scheme, up_host = host_part,
                            up_port = (if scheme = ''https'' then 443 else 80), up_path = path\<rparr>
             | Some colon \<Rightarrow>
                 (case stoi (drop (colon + 1) host_part) of
                    None \<Rightarrow> None
                  | Some port \<Rightarrow>
                      if take colon host_part = [] then None
                      else Some \<lparr>up_scheme = scheme, up_host = take colon host_part, up_port = port, up_path = path\<rparr>))"

section \<open>Provider presets (providers.cpp)\<close>

datatype ProviderId = Generic | Entra | Google | Keycloak | Okta | Github

datatype ProviderValidation = Jwks | Tokeninfo | Introspect | GithubCheck

record ProviderConfig =
  pc_id :: ProviderId
  pc_name :: string
  pc_validation :: ProviderValidation
  pc_issuer_template :: string
  pc_jwks_uri_template :: string
  pc_introspection_template :: string

record ProviderResolved =
  prv_id :: ProviderId
  prv_validation :: ProviderValidation
  prv_issuer :: string
  prv_jwks_uri :: string
  prv_introspection_endpoint :: string

definition placeholder :: string where
  "placeholder = ''{tenant}''"

function substitute_loop :: "string \<Rightarrow> string \<Rightarrow> nat \<Rightarrow> string" where
  "substitute_loop tenant out pos =
     (case find_str out placeholder pos of
        None \<Rightarrow> out
      | Some p \<Rightarrow>
          substitute_loop tenant (take p out @ tenant @ drop (p + length placeholder) out) (p + length tenant))"
  by pat_completeness auto
termination
proof (relation "measure (\<lambda>(tenant, out, pos). length out - pos)", goal_cases)
  case (2 tenant out pos p)
  from find_str_Some [OF 2] have "pos \<le> p" "p + length placeholder \<le> length out" by auto
  then show ?case by (simp add: placeholder_def)
qed simp

declare substitute_loop.simps [simp del]

definition Substitute :: "string \<Rightarrow> string \<Rightarrow> string" where
  "Substitute tmpl tenant = substitute_loop tenant tmpl 0"

definition ProviderFromString :: "string \<Rightarrow> ProviderId" where
  "ProviderFromString s =
     (let lower = lower_ascii s
      in if lower = ''entra'' then Entra
         else if lower = ''google'' then Google
         else if lower = ''keycloak'' then Keycloak
         else if lower = ''okta'' then Okta
         else if lower = ''github'' then Github
         else Generic)"

definition generic_config :: ProviderConfig where
  "generic_config = \<lparr>pc_id = Generic, pc_name = ''generic'', pc_validation = Jwks, pc_issuer_template = [],
     pc_jwks_uri_template = [], pc_introspection_template = []\<rparr>"

definition GetProviderConfig :: "ProviderId \<Rightarrow> ProviderConfig" where
  "GetProviderConfig i =
     (case i of
        Entra \<Rightarrow>
          \<lparr>pc_id = Entra, pc_name = ''entra'', pc_validation = Jwks,
           pc_issuer_template = ''https://login.microsoftonline.com/{tenant}/v2.0'',
           pc_jwks_uri_template = ''https://login.microsoftonline.com/{tenant}/discovery/v2.0/keys'',
           pc_introspection_template = []\<rparr>
      | Google \<Rightarrow>
          \<lparr>pc_id = Google, pc_name = ''google'', pc_validation = Tokeninfo,
           pc_issuer_template = ''https://accounts.google.com'',
           pc_jwks_uri_template = ''https://www.googleapis.com/oauth2/v3/certs'',
           pc_introspection_template = ''https://oauth2.googleapis.com/tokeninfo''\<rparr>
      | Keycloak \<Rightarrow>
          \<lparr>pc_id = Keycloak, pc_name = ''keycloak'', pc_validation = Jwks,
           pc_issuer_template = ''{tenant}'',
           pc_jwks_uri_template = ''{tenant}/protocol/openid-connect/certs'',
           pc_introspection_template = ''{tenant}/protocol/openid-connect/token/introspect''\<rparr>
      | Github \<Rightarrow>
          \<lparr>pc_id = Github, pc_name = ''github'', pc_validation = GithubCheck,
           pc_issuer_template = ''https://api.github.com'',
           pc_jwks_uri_template = [],
           pc_introspection_template = ''https://api.github.com/applications/{tenant}/token''\<rparr>
      | Okta \<Rightarrow> generic_config
      | Generic \<Rightarrow> generic_config)"

definition ResolveProvider :: "ProviderId \<Rightarrow> string \<Rightarrow> ProviderResolved" where
  "ResolveProvider i tenant_or_realm =
     (let cfg = GetProviderConfig i
      in \<lparr>prv_id = pc_id cfg, prv_validation = pc_validation cfg,
          prv_issuer = Substitute (pc_issuer_template cfg) tenant_or_realm,
          prv_jwks_uri = Substitute (pc_jwks_uri_template cfg) tenant_or_realm,
          prv_introspection_endpoint = Substitute (pc_introspection_template cfg) tenant_or_realm\<rparr>)"

section \<open>Lemmas\<close>

lemma takeWhile_snoc_neq: "c \<notin> set xs \<Longrightarrow> takeWhile (\<lambda>x. x \<noteq> c) (xs @ c # ys) = xs"
  by (induction xs) auto

lemma rfind_char_last: "c \<notin> set ys \<Longrightarrow> rfind_char (xs @ c # ys) c = Some (length xs)"
  by (simp add: rfind_char_def find_char_def find_char_from_takeWhile takeWhile_snoc_neq)

lemma rfind_char_None: "c \<notin> set xs \<Longrightarrow> rfind_char xs c = None"
  by (simp add: rfind_char_def find_char_def find_char_from_None)

lemma split_at_first: "c \<in> set xs \<Longrightarrow> xs = takeWhile (\<lambda>x. x \<noteq> c) xs @ c # tl (dropWhile (\<lambda>x. x \<noteq> c) xs)"
  by (induction xs) auto

lemma port_ok_no_colon: "port_ok p \<Longrightarrow> CHR '':'' \<notin> set p"
  by (auto simp: port_ok_def is_digit_def uc_def split: if_splits)

text \<open>Without brackets both readers of an authority split it at the same colon.\<close>

lemma authority_host_unique:
  assumes "split_authority auth = Some (host, port)" "port_ok port" "CHR ''['' \<notin> set auth" "auth \<noteq> []"
  shows "case rfind_char auth (CHR '':'') of None \<Rightarrow> auth = host | Some colon \<Rightarrow> take colon auth = host"
proof (cases "CHR '':'' \<in> set auth")
  case True
  have "hd auth \<noteq> CHR ''[''" using assms(3,4) by (metis hd_in_set)
  with True assms(1) have "host = takeWhile (\<lambda>c. c \<noteq> CHR '':'') auth" "port = tl (dropWhile (\<lambda>c. c \<noteq> CHR '':'') auth)"
    by (auto simp: split_authority_def)
  with True have "auth = host @ CHR '':'' # port" using split_at_first by metis
  moreover have "CHR '':'' \<notin> set port" using assms(2) by (rule port_ok_no_colon)
  ultimately show ?thesis by (simp add: rfind_char_last)
next
  case False
  have "hd auth \<noteq> CHR ''[''" using assms(3,4) by (metis hd_in_set)
  with False assms(1) show ?thesis by (simp add: split_authority_def rfind_char_None)
qed

lemma find_scheme_http: "find_str (''http://'' @ r) ''://'' 0 = Some 4"
  and find_scheme_https: "find_str (''https://'' @ r) ''://'' 0 = Some 5"
  by (simp_all add: find_str_def starts_with_def)

lemma starts_with_split: "starts_with s p \<Longrightarrow> s = p @ drop (length p) s"
  unfolding starts_with_def by (metis append_take_drop_id)

lemma ParseUrl_parts:
  assumes "find_str url ''://'' 0 = Some n" "ParseUrl url = Some u"
    and hp: "hp = takeWhile (\<lambda>c. c \<noteq> CHR ''/'') (drop (n + 3) url)"
  shows "up_scheme u = take n url"
    and "up_host u = (case rfind_char hp (CHR '':'') of None \<Rightarrow> hp | Some colon \<Rightarrow> take colon hp)"
proof -
  have *: "ParseUrl url = (case rfind_char hp (CHR '':'') of
      None \<Rightarrow> if hp = [] then None else Some \<lparr>up_scheme = take n url, up_host = hp,
        up_port = if take n url = ''https'' then 443 else 80,
        up_path = if CHR ''/'' \<in> set (drop (n + 3) url) then dropWhile (\<lambda>c. c \<noteq> CHR ''/'') (drop (n + 3) url) else ''/''\<rparr>
    | Some colon \<Rightarrow> (case stoi (drop (colon + 1) hp) of
        None \<Rightarrow> None
      | Some port \<Rightarrow> if take colon hp = [] then None else Some \<lparr>up_scheme = take n url, up_host = take colon hp, up_port = port,
          up_path = if CHR ''/'' \<in> set (drop (n + 3) url) then dropWhile (\<lambda>c. c \<noteq> CHR ''/'') (drop (n + 3) url) else ''/''\<rparr>))"
    unfolding ParseUrl_def assms(1) option.case Let_def hp substr_def drop0 ..
  show "up_scheme u = take n url" "up_host u = (case rfind_char hp (CHR '':'') of None \<Rightarrow> hp | Some colon \<Rightarrow> take colon hp)"
    using assms(2) unfolding * by (cases "rfind_char hp (CHR '':'')"; cases "stoi (drop (the (rfind_char hp (CHR '':'')) + 1) hp)";
      simp split: if_split_asm; fastforce)+
qed

text \<open>What a successful validation says.\<close>

lemma ValidateHttpUrl_Inr:
  assumes "ValidateHttpUrl f url = Inr ()" "url \<noteq> []"
  shows "starts_with url ''https://'' \<or> starts_with url ''http://'' \<and> IsLocalhostUrl url"
    and "length url \<le> 2048" "\<forall>c \<in> set url. \<not> url_char_bad c"
  using assms by (auto simp: ValidateHttpUrl_def Let_def split: if_splits)

lemma IsLocalhostUrl_cases:
  assumes "IsLocalhostUrl url"
  obtains host port where "split_authority (authority url 7) = Some (host, port)" "port_ok port" "IsLoopbackHost host"
    "authority url 7 \<noteq> []" "starts_with url ''http://''"
  using assms by (auto simp: IsLocalhostUrl_def Let_def split: if_splits option.splits)

section \<open>What counts as local\<close>

text \<open>
  The names of the loopback interface that the sources mean to accept, as a description of the text:
  \<open>localhost\<close> in any case, the two spellings of the IPv6 loopback address, and \<open>127.\<close> followed by digits and dots.
\<close>

definition loopback_name :: "string \<Rightarrow> bool" where
  "loopback_name host \<longleftrightarrow>
     map to_lower host = ''localhost'' \<or> host = ''::1'' \<or> host = ''[::1]'' \<or>
     (\<exists>rest. host = ''127.'' @ rest \<and> set rest \<subseteq> set ''.0123456789'')"

lemma uc_to_lower: "uc (to_lower c) < 97 \<or> 122 < uc (to_lower c) \<Longrightarrow> to_lower c = c"
  by (cases "65 \<le> uc c \<and> uc c \<le> 90") (auto simp: to_lower_def uc_def)

lemma digit_chars: "set ''0123456789'' = {c. is_digit c}"
proof -
  have codes: "map char_of [48, 49, 50, 51, 52, 53, 54, 55, 56, 57 :: nat] = ''0123456789''" by code_simp
  have "c \<in> set ''0123456789''" if "is_digit c" for c
  proof -
    have "uc c \<in> set [48, 49, 50, 51, 52, 53, 54, 55, 56, 57]"
      using that unfolding is_digit_def list.set insert_iff empty_iff by presburger
    then have "char_of (uc c) \<in> set ''0123456789''" unfolding codes [symmetric] set_map by (rule imageI)
    then show ?thesis by (simp only: uc_def char_of_char)
  qed
  then show ?thesis by (auto simp: is_digit_def uc_def)
qed

lemma digit_or_dot: "(c = CHR ''.'' \<or> is_digit c) = (c \<in> set ''.0123456789'')"
  using digit_chars by (metis insert_iff list.simps(15) mem_Collect_eq)

lemma to_lower_digit_or_dot: "to_lower c \<in> set ''.0123456789'' \<longleftrightarrow> c \<in> set ''.0123456789''"
proof
  assume "to_lower c \<in> set ''.0123456789''"
  then have "uc (to_lower c) < 97" by (auto simp: uc_def)
  then show "c \<in> set ''.0123456789''" using \<open>to_lower c \<in> _\<close> uc_to_lower by metis
next
  assume "c \<in> set ''.0123456789''"
  moreover then have "to_lower c = c" by (auto simp: to_lower_def uc_def)
  ultimately show "to_lower c \<in> set ''.0123456789''" by simp
qed

lemma lower_inert:
  assumes "lower_ascii s = t" "\<forall>c \<in> set t. uc c < 97"
  shows "s = t"
proof -
  have "map to_lower s = map (\<lambda>c. c) s"
    by (rule map_cong [OF refl]) (use assms uc_to_lower in \<open>auto simp: lower_ascii_def\<close>)
  then show ?thesis using assms(1) by (simp add: lower_ascii_def)
qed

lemma lower_127: "starts_with (lower_ascii host) ''127.'' \<longleftrightarrow> starts_with host ''127.''"
proof -
  have "take 4 (lower_ascii host) = lower_ascii (take 4 host)" by (simp add: lower_ascii_def take_map)
  moreover have "lower_ascii (take 4 host) = ''127.'' \<longleftrightarrow> take 4 host = ''127.''"
  proof
    assume "lower_ascii (take 4 host) = ''127.''"
    then show "take 4 host = ''127.''" by (rule lower_inert) (simp add: uc_def)
  next
    assume "take 4 host = ''127.''"
    then show "lower_ascii (take 4 host) = ''127.''" by (simp only:) code_simp
  qed
  moreover have "length ''127.'' = 4" by simp
  ultimately show ?thesis by (simp only: starts_with_def length_lower_ascii)
qed

lemma IsLoopbackHost_iff: "IsLoopbackHost host \<longleftrightarrow> loopback_name host"
proof -
  have v6: "lower_ascii host = ''::1'' \<longleftrightarrow> host = ''::1''" "lower_ascii host = ''[::1]'' \<longleftrightarrow> host = ''[::1]''"
  proof -
    have "lower_ascii ''::1'' = ''::1''" "lower_ascii ''[::1]'' = ''[::1]''" by code_simp+
    moreover have "\<forall>c \<in> set ''::1''. uc c < 97" "\<forall>c \<in> set ''[::1]''. uc c < 97" by (simp_all add: uc_def)
    ultimately show "lower_ascii host = ''::1'' \<longleftrightarrow> host = ''::1''" "lower_ascii host = ''[::1]'' \<longleftrightarrow> host = ''[::1]''"
      using lower_inert by blast+
  qed
  have rest: "(\<exists>rest. host = ''127.'' @ rest \<and> set rest \<subseteq> set ''.0123456789'') \<longleftrightarrow>
      starts_with host ''127.'' \<and> set (drop 4 host) \<subseteq> set ''.0123456789''"
  proof
    assume "\<exists>rest. host = ''127.'' @ rest \<and> set rest \<subseteq> set ''.0123456789''"
    then obtain r where r: "host = ''127.'' @ r" "set r \<subseteq> set ''.0123456789''" by blast
    have "starts_with host ''127.''" "drop 4 host = r" unfolding r(1) by (simp_all add: starts_with_def)
    then show "starts_with host ''127.'' \<and> set (drop 4 host) \<subseteq> set ''.0123456789''" using r(2) by blast
  next
    assume s: "starts_with host ''127.'' \<and> set (drop 4 host) \<subseteq> set ''.0123456789''"
    have "length ''127.'' = 4" by simp
    with s starts_with_split [of host "''127.''"] show "\<exists>rest. host = ''127.'' @ rest \<and> set rest \<subseteq> set ''.0123456789''" by metis
  qed
  have digits: "(\<forall>c \<in> set (drop 4 (lower_ascii host)). c = CHR ''.'' \<or> is_digit c) \<longleftrightarrow> set (drop 4 host) \<subseteq> set ''.0123456789''"
    unfolding digit_or_dot lower_ascii_def drop_map set_map using to_lower_digit_or_dot by blast
  have chain: "(if a then False else if b then True else if c then True else if d then e else False) \<longleftrightarrow> \<not> a \<and> (b \<or> c \<or> d \<and> e)"
    for a b c d e by simp
  let ?local = "lower_ascii host = ''localhost'' \<or> host = ''::1'' \<or> host = ''[::1]'' \<or>
    starts_with host ''127.'' \<and> set (drop 4 host) \<subseteq> set ''.0123456789''"
  have code: "IsLoopbackHost host \<longleftrightarrow> host \<noteq> [] \<and> ?local"
    unfolding IsLoopbackHost_def Let_def chain digits lower_127 v6 disj_assoc by (rule refl)
  have spec: "loopback_name host \<longleftrightarrow> ?local"
    unfolding loopback_name_def rest lower_ascii_def by (rule refl)
  have "\<not> loopback_name []" by (simp add: loopback_name_def)
  then have "loopback_name host \<Longrightarrow> host \<noteq> []" by metis
  then show ?thesis unfolding code spec by iprover
qed

text \<open>So of all dotted quads exactly those of the network 127.0.0.0/8 are local.\<close>

lemma loopback_quad:
  assumes "\<forall>p \<in> {a, b, c, d}. p \<noteq> [] \<and> set p \<subseteq> set ''0123456789''"
  shows "IsLoopbackHost (a @ ''.'' @ b @ ''.'' @ c @ ''.'' @ d) \<longleftrightarrow> a = ''127''"
proof
  assume "IsLoopbackHost (a @ ''.'' @ b @ ''.'' @ c @ ''.'' @ d)"
  then have l: "loopback_name (a @ ''.'' @ b @ ''.'' @ c @ ''.'' @ d)" by (simp only: IsLoopbackHost_iff)
  have a: "takeWhile (\<lambda>x. x \<noteq> CHR ''.'') (a @ CHR ''.'' # r) = a" for r
    using assms by (intro takeWhile_snoc_neq) auto
  have dot: "CHR ''.'' \<in> set (a @ ''.'' @ b @ ''.'' @ c @ ''.'' @ d)" by simp
  have none: "CHR ''.'' \<in> set t" if "a @ ''.'' @ b @ ''.'' @ c @ ''.'' @ d = t" for t using dot unfolding that .
  from l consider (name) "map to_lower (a @ ''.'' @ b @ ''.'' @ c @ ''.'' @ d) = ''localhost''"
    | (v6) "a @ ''.'' @ b @ ''.'' @ c @ ''.'' @ d = ''::1''" | (v6b) "a @ ''.'' @ b @ ''.'' @ c @ ''.'' @ d = ''[::1]''"
    | (v4) rest where "a @ ''.'' @ b @ ''.'' @ c @ ''.'' @ d = ''127.'' @ rest"
    unfolding loopback_name_def by blast
  then show "a = ''127''"
  proof cases
    case name
    then have "to_lower CHR ''.'' \<in> set ''localhost''" using dot by (metis image_eqI set_map)
    then show ?thesis by (simp add: to_lower_def uc_def)
  next
    case v6
    from none [OF v6] show ?thesis by simp
  next
    case v6b
    from none [OF v6b] show ?thesis by simp
  next
    case v4
    then have "takeWhile (\<lambda>x. x \<noteq> CHR ''.'') (a @ CHR ''.'' # (b @ ''.'' @ c @ ''.'' @ d)) = takeWhile (\<lambda>x. x \<noteq> CHR ''.'') (''127.'' @ rest)"
      by (simp only: append_Cons append_Nil)
    then show ?thesis unfolding a by simp
  qed
next
  assume a: "a = ''127''"
  have "set ''0123456789'' \<subseteq> set ''.0123456789''" "set ''.'' \<subseteq> set ''.0123456789''" by (rule set_subset_Cons) simp
  then have "set (b @ ''.'' @ c @ ''.'' @ d) \<subseteq> set ''.0123456789''" using assms unfolding set_append by blast
  moreover have "a @ ''.'' @ b @ ''.'' @ c @ ''.'' @ d = ''127.'' @ (b @ ''.'' @ c @ ''.'' @ d)" unfolding a by simp
  ultimately show "IsLoopbackHost (a @ ''.'' @ b @ ''.'' @ c @ ''.'' @ d)"
    unfolding IsLoopbackHost_iff loopback_name_def by blast
qed

text \<open>
  The addresses of local listeners, as a grammar: \<open>quack:\<close> or \<open>quack://\<close>, a loopback name, and possibly a port
  after a colon; the bracketed address may be followed by anything.
\<close>

definition local_listener :: "string \<Rightarrow> bool" where
  "local_listener uri \<longleftrightarrow>
     (\<exists>p \<in> {''quack:'', ''quack://''}.
        (\<exists>h. uri = p @ h \<and> loopback_name h \<and> CHR '':'' \<notin> set h) \<or>
        (\<exists>h port. uri = p @ h @ '':'' @ port \<and> loopback_name h \<and> CHR ''['' \<notin> set h \<and> CHR '':'' \<notin> set port) \<or>
        (\<exists>r. uri = p @ ''[::1]'' @ r))"

definition body_host :: "string \<Rightarrow> string" where
  "body_host b =
     (case b of [] \<Rightarrow> []
      | c # cs \<Rightarrow>
          if c = CHR ''['' then
            (case find_char (c # cs) (CHR '']'') 0 of None \<Rightarrow> [] | Some close \<Rightarrow> substr (c # cs) 0 (close + 1))
          else (case rfind_char (c # cs) (CHR '':'') of None \<Rightarrow> c # cs | Some colon \<Rightarrow> substr (c # cs) 0 colon))"

lemma quack_prefixes:
  "starts_with (''quack://'' @ b) ''quack://''" "starts_with (''quack:'' @ b) ''quack:''"
  "starts_with (''quack:'' @ b) ''quack://'' \<longleftrightarrow> starts_with b ''//''"
  "drop 8 (''quack://'' @ b) = b" "drop 6 (''quack:'' @ b) = b"
  by (simp_all add: starts_with_def)

lemma HostFromQuackUri_body:
  "p \<in> {''quack:'', ''quack://''} \<Longrightarrow> \<not> starts_with b ''//'' \<Longrightarrow> HostFromQuackUri (p @ b) = body_host b"
  by (elim insertE emptyE; simp only: HostFromQuackUri_def quack_prefixes Let_def if_True if_False option.case body_host_def)
    (simp_all add: body_host_def split: list.split)

lemma HostFromQuackUri_cases:
  "HostFromQuackUri uri = [] \<or> (\<exists>p \<in> {''quack:'', ''quack://''}. \<exists>b. uri = p @ b \<and> HostFromQuackUri uri = body_host b)"
proof (cases "starts_with uri ''quack://''")
  case True
  then have "uri = ''quack://'' @ drop 8 uri" using starts_with_split [OF True] by (simp add: numeral_eq_Suc)
  moreover have "HostFromQuackUri uri = body_host (drop 8 uri)"
    using True by (simp add: HostFromQuackUri_def body_host_def Let_def split: list.split)
  ultimately show ?thesis by blast
next
  case False
  show ?thesis
  proof (cases "starts_with uri ''quack:''")
    case True
    then have "uri = ''quack:'' @ drop 6 uri" using starts_with_split [OF True] by (simp add: numeral_eq_Suc)
    moreover have "HostFromQuackUri uri = body_host (drop 6 uri)"
      using True False by (simp add: HostFromQuackUri_def body_host_def Let_def split: list.split)
    ultimately show ?thesis by blast
  qed (use False in \<open>simp add: HostFromQuackUri_def\<close>)
qed

lemma body_host_bracket: "CHR '']'' \<notin> set x \<Longrightarrow> body_host (CHR ''['' # x @ CHR '']'' # r) = CHR ''['' # x @ '']''"
  by (simp add: body_host_def find_char_def find_char_from_takeWhile substr_def takeWhile_snoc_neq)

lemma body_host_port: "CHR '':'' \<notin> set port \<Longrightarrow> h \<noteq> [] \<Longrightarrow> hd h \<noteq> CHR ''['' \<Longrightarrow> body_host (h @ CHR '':'' # port) = h"
  using rfind_char_last [of "CHR '':''" port h] by (cases h) (simp_all add: body_host_def substr_def)

lemma body_host_plain: "CHR '':'' \<notin> set h \<Longrightarrow> hd h \<noteq> CHR ''['' \<Longrightarrow> body_host h = h"
  using rfind_char_None [of "CHR '':''" h] by (cases h) (simp_all add: body_host_def)

lemma body_host_forms:
  obtains (none) "body_host b = []"
  | (bracket) r where "b = body_host b @ r" "hd (body_host b) = CHR ''[''"
  | (port) port where "b = body_host b @ '':'' @ port" "CHR '':'' \<notin> set port" "hd b \<noteq> CHR ''[''"
  | (plain) "b = body_host b" "CHR '':'' \<notin> set b" "hd b \<noteq> CHR ''[''"
proof (cases "b = [] \<or> hd b \<noteq> CHR ''[''")
  case False
  then obtain cs where b: "b = CHR ''['' # cs" by (cases b) auto
  show ?thesis
  proof (cases "CHR '']'' \<in> set cs")
    case True
    then obtain x r where c: "cs = x @ CHR '']'' # r" "CHR '']'' \<notin> set x" by (metis split_list_first)
    from body_host_bracket [OF c(2), of r] show ?thesis by (intro bracket [of r]) (simp_all add: b c(1))
  next
    case no: False
    then have "body_host b = []" by (simp add: b body_host_def find_char_def find_char_from_takeWhile)
    then show ?thesis by (rule none)
  qed
next
  case True
  show ?thesis
  proof (cases "CHR '':'' \<in> set b")
    case colon: True
    then obtain h q where c: "b = h @ CHR '':'' # q" "CHR '':'' \<notin> set q" by (metis split_list_last)
    show ?thesis
    proof (cases "h = []")
      case False
      with True c have "hd h \<noteq> CHR ''[''" by auto
      with False have "body_host b = h" using body_host_port [OF c(2)] c(1) by blast
      with c True show ?thesis by (intro port [of q]) auto
    next
      case h: True
      then have "body_host b = []" using rfind_char_last [OF c(2), of "[]"] by (simp add: c(1) body_host_def substr_def)
      then show ?thesis by (rule none)
    qed
  next
    case False
    then have "body_host b = b" using True body_host_plain by (cases "b = []") (simp_all add: body_host_def)
    with False True show ?thesis by (cases "b = []") (auto intro: none plain)
  qed
qed

lemma loopback_name_facts:
  assumes "loopback_name h"
  shows "h \<noteq> []" "hd h \<noteq> CHR ''/''" "hd h = CHR ''['' \<Longrightarrow> h = ''[::1]''" "hd h \<noteq> CHR ''['' \<Longrightarrow> CHR ''['' \<notin> set h"
proof -
  consider "map to_lower h = ''localhost''" | "h = ''::1''" | "h = ''[::1]''" | r where "h = ''127.'' @ r" "set r \<subseteq> set ''.0123456789''"
    using assms unfolding loopback_name_def by blast
  note cases_h = this
  have "h \<noteq> [] \<and> hd h \<noteq> CHR ''/'' \<and> (h = ''[::1]'' \<or> CHR ''['' \<notin> set h)"
    using cases_h
  proof cases
    case 1
    then have m: "to_lower c \<in> set ''localhost''" if "c \<in> set h" for c using that by (metis imageI set_map)
    have "to_lower CHR ''['' \<notin> set ''localhost''" "to_lower CHR ''/'' \<notin> set ''localhost''" by code_simp+
    with m have "CHR ''['' \<notin> set h" "CHR ''/'' \<notin> set h" by blast+
    moreover have "h \<noteq> []" using 1 by auto
    ultimately show ?thesis by (metis hd_in_set)
  next
    case (4 r)
    then have "CHR ''['' \<notin> set r" by auto
    then show ?thesis by (simp add: 4(1))
  qed simp_all
  then show "h \<noteq> []" "hd h \<noteq> CHR ''/''" "hd h = CHR ''['' \<Longrightarrow> h = ''[::1]''" "hd h \<noteq> CHR ''['' \<Longrightarrow> CHR ''['' \<notin> set h"
    by (metis hd_in_set list.sel(1))+
qed

lemma listener_host: "IsLoopbackHost (HostFromQuackUri uri) \<longleftrightarrow> local_listener uri"
  unfolding IsLoopbackHost_iff
proof
  assume l: "loopback_name (HostFromQuackUri uri)"
  note f = loopback_name_facts [OF l]
  obtain p b where p: "p \<in> {''quack:'', ''quack://''}" "uri = p @ b" "HostFromQuackUri uri = body_host b"
    using HostFromQuackUri_cases [of uri] f(1) by blast
  note l = l [unfolded p(3)] and f = f [unfolded p(3)]
  show "local_listener uri"
  proof (cases rule: body_host_forms [of b])
    case none
    with f(1) show ?thesis by blast
  next
    case (bracket r)
    with f(3) have "b = ''[::1]'' @ r" by metis
    with p(1,2) show ?thesis unfolding local_listener_def by blast
  next
    case (port q)
    then have "hd (body_host b) \<noteq> CHR ''[''" using f(1) by (metis hd_append2)
    with f(4) have "CHR ''['' \<notin> set (body_host b)" by blast
    with port(1,2) l have "\<exists>h port. b = h @ '':'' @ port \<and> loopback_name h \<and> CHR ''['' \<notin> set h \<and> CHR '':'' \<notin> set port" by blast
    with p(1,2) show ?thesis unfolding local_listener_def by blast
  next
    case plain
    with l have "loopback_name b" by simp
    with plain(2) p(1,2) show ?thesis unfolding local_listener_def by blast
  qed
next
  assume "local_listener uri"
  then obtain p b where p: "p \<in> {''quack:'', ''quack://''}" "uri = p @ b" and b: "loopback_name b \<and> CHR '':'' \<notin> set b \<or>
      (\<exists>h port. b = h @ '':'' @ port \<and> loopback_name h \<and> CHR ''['' \<notin> set h \<and> CHR '':'' \<notin> set port) \<or> (\<exists>r. b = ''[::1]'' @ r)"
    unfolding local_listener_def by blast
  have slash: "\<not> starts_with t ''//''" if "t \<noteq> []" "hd t \<noteq> CHR ''/''" for t using that by (cases t) (simp_all add: starts_with_def)
  from b consider (plain) "loopback_name b" "CHR '':'' \<notin> set b"
    | (port) h q where "b = h @ '':'' @ q" "loopback_name h" "CHR ''['' \<notin> set h" "CHR '':'' \<notin> set q"
    | (bracket) r where "b = ''[::1]'' @ r" by blast
  then have "\<not> starts_with b ''//'' \<and> loopback_name (body_host b)"
  proof cases
    case plain
    note f = loopback_name_facts [OF plain(1)]
    have "hd b \<noteq> CHR ''[''"
    proof
      assume "hd b = CHR ''[''"
      then have "b = ''[::1]''" by (rule f(3))
      with plain(2) show False by simp
    qed
    then show ?thesis using body_host_plain [OF plain(2)] plain(1) slash [OF f(1,2)] by simp
  next
    case (port h q)
    note f = loopback_name_facts [OF port(2)]
    have h: "hd h \<noteq> CHR ''[''" using port(3) f(1) by (metis hd_in_set)
    from f(1,2) have "b \<noteq> []" "hd b \<noteq> CHR ''/''" using port(1) by (simp_all add: hd_append)
    then show ?thesis using body_host_port [OF port(4) f(1) h] port(1,2) slash by simp
  next
    case (bracket r)
    have "body_host (CHR ''['' # ''::1'' @ CHR '']'' # r) = CHR ''['' # ''::1'' @ '']''" by (rule body_host_bracket) simp
    then have "body_host b = ''[::1]''" by (simp add: bracket)
    moreover have "loopback_name ''[::1]''" unfolding loopback_name_def by blast
    ultimately show ?thesis using slash [of b] bracket by simp
  qed
  then show "loopback_name (HostFromQuackUri uri)" using HostFromQuackUri_body [OF p(1)] p(2) by simp
qed

section \<open>Properties\<close>

lemma https_scheme:
  assumes "starts_with url ''https://''" "ParseUrl url = Some u"
  shows "up_scheme u = ''https''"
proof -
  from assms(1) have r: "url = ''https://'' @ drop (length ''https://'') url" by (rule starts_with_split)
  have "find_str url ''://'' 0 = Some 5" by (subst r) (rule find_scheme_https)
  moreover have "take 5 url = ''https''" by (subst r) simp
  ultimately show ?thesis using ParseUrl_parts(1) [OF _ assms(2) refl] by simp
qed

text \<open>On a plaintext URL without brackets, query and fragment, the screen and the client read the same host.\<close>

lemma localhost_url_scheme:
  assumes "IsLocalhostUrl url" "ParseUrl url = Some u"
  shows "up_scheme u = ''http''"
proof -
  have "starts_with url ''http://''" using assms(1) by (auto simp: IsLocalhostUrl_def split: if_splits)
  note url = starts_with_split [OF this]
  have "find_str url ''://'' 0 = Some 4" by (subst url) (rule find_scheme_http)
  moreover have "take 4 url = ''http''" by (subst url) simp
  ultimately show ?thesis using ParseUrl_parts(1) [OF _ assms(2) refl] by simp
qed

lemma blank_bound: "c \<noteq> CHR '' '' \<Longrightarrow> 32 \<le> uc c \<Longrightarrow> 33 \<le> uc c"
proof (rule ccontr)
  assume "c \<noteq> CHR '' ''" "32 \<le> uc c" "\<not> 33 \<le> uc c"
  then have "uc c = uc CHR '' ''" by (simp add: uc_def)
  then show False using \<open>c \<noteq> CHR '' ''\<close> by (simp only: uc_def of_char_eq_iff)
qed

lemma localhost_url_host:
  assumes "IsLocalhostUrl url" "ParseUrl url = Some u" "CHR ''['' \<notin> set url" "CHR ''?'' \<notin> set url" "CHR ''#'' \<notin> set url"
  shows "IsLoopbackHost (up_host u)"
proof -
  from assms(1) obtain host port where h: "split_authority (authority url 7) = Some (host, port)" "port_ok port" "IsLoopbackHost host"
    "authority url 7 \<noteq> []" "starts_with url ''http://''" by (rule IsLocalhostUrl_cases)
  note url = starts_with_split [OF h(5)]
  have auth: "takeWhile (\<lambda>c. c \<noteq> CHR ''/'') (drop 7 url) = authority url 7"
    unfolding authority_def
  proof (rule takeWhile_cong)
    fix x assume "x \<in> set (drop 7 url)"
    then have "x \<in> set url" by (rule in_set_dropD)
    then show "(x \<noteq> CHR ''/'') = (x \<noteq> CHR ''/'' \<and> x \<noteq> CHR ''?'' \<and> x \<noteq> CHR ''#'')" using assms(4,5) by auto
  qed simp
  have "CHR ''['' \<notin> set (authority url 7)"
    unfolding authority_def using assms(3) by (auto dest!: set_takeWhileD in_set_dropD)
  from authority_host_unique [OF h(1,2) this h(4)]
  have "case rfind_char (authority url 7) (CHR '':'') of None \<Rightarrow> authority url 7 = host | Some colon \<Rightarrow> take colon (authority url 7) = host" .
  moreover have "find_str url ''://'' 0 = Some 4" by (subst url) (rule find_scheme_http)
  ultimately have "up_host u = host"
    using ParseUrl_parts(2) [OF _ assms(2) refl, of 4] auth by (simp split: option.splits)
  then show ?thesis using h(3) by simp
qed


text \<open>A template with one placeholder.\<close>

lemma Substitute_once:
  assumes "find_str_from placeholder (a @ placeholder @ b) 0 = Some (length a)"
    and "find_str_from placeholder b (length a + length t) = None"
  shows "Substitute (a @ placeholder @ b) t = a @ t @ b"
proof -
  have 1: "find_str (a @ placeholder @ b) placeholder 0 = Some (length a)"
    using assms(1) by (simp add: find_str_def)
  have 2: "find_str (a @ t @ b) placeholder (length a + length t) = None"
    using assms(2) by (simp add: find_str_def)
  have 3: "substitute_loop t (a @ placeholder @ b) 0 = substitute_loop t (a @ t @ b) (length a + length t)"
    by (subst substitute_loop.simps) (simp add: 1)
  have 4: "substitute_loop t (a @ t @ b) (length a + length t) = a @ t @ b"
    by (subst substitute_loop.simps) (simp only: 2 option.case)
  show ?thesis by (simp only: Substitute_def 3 4)
qed

lemma find_str_from_shift: "find_str_from pat xs i = None \<longleftrightarrow> find_str_from pat xs j = None"
  by (induction xs arbitrary: i j) auto

lemma Substitute_constant: "find_str tmpl placeholder 0 = None \<Longrightarrow> Substitute tmpl t = tmpl"
  unfolding Substitute_def by (subst substitute_loop.simps) simp

lemma Substitute_template:
  assumes "tmpl = a @ placeholder @ b" "find_str_from placeholder tmpl 0 = Some (length a)" "find_str_from placeholder b 0 = None"
  shows "Substitute tmpl t = a @ t @ b"
  unfolding assms(1)
  by (rule Substitute_once) (use assms find_str_from_shift [of placeholder b 0] in auto)

text \<open>
  C39: The presets decide where keys and introspection go, not the tenant text. Whatever is configured as
  the tenant, the Entra, Google and GitHub presets yield \<open>https\<close> URLs whose authority is the provider's
  own host; the tenant only becomes a part of the path. The generic and Okta presets fill in nothing.
\<close>

theorem preset_authority_fixed:
  "prv_jwks_uri (ResolveProvider Entra t) = ''https://login.microsoftonline.com/'' @ t @ ''/discovery/v2.0/keys'' \<and>
   prv_issuer (ResolveProvider Entra t) = ''https://login.microsoftonline.com/'' @ t @ ''/v2.0'' \<and>
   authority (prv_jwks_uri (ResolveProvider Entra t)) 8 = ''login.microsoftonline.com'' \<and>
   prv_introspection_endpoint (ResolveProvider Github t) = ''https://api.github.com/applications/'' @ t @ ''/token'' \<and>
   authority (prv_introspection_endpoint (ResolveProvider Github t)) 8 = ''api.github.com'' \<and>
   authority (prv_jwks_uri (ResolveProvider Google t)) 8 = ''www.googleapis.com'' \<and>
   authority (prv_introspection_endpoint (ResolveProvider Google t)) 8 = ''oauth2.googleapis.com'' \<and>
   prv_jwks_uri (ResolveProvider Keycloak t) = t @ ''/protocol/openid-connect/certs'' \<and>
   prv_issuer (ResolveProvider Keycloak t) = t \<and>
   prv_jwks_uri (ResolveProvider Okta t) = [] \<and> prv_jwks_uri (ResolveProvider Generic t) = []"
proof -
  have S: "Substitute ''https://login.microsoftonline.com/{tenant}/discovery/v2.0/keys'' t =
      ''https://login.microsoftonline.com/'' @ t @ ''/discovery/v2.0/keys''"
    "Substitute ''https://login.microsoftonline.com/{tenant}/v2.0'' t = ''https://login.microsoftonline.com/'' @ t @ ''/v2.0''"
    "Substitute ''https://api.github.com/applications/{tenant}/token'' t = ''https://api.github.com/applications/'' @ t @ ''/token''"
    "Substitute ''{tenant}/protocol/openid-connect/certs'' t = [] @ t @ ''/protocol/openid-connect/certs''"
    "Substitute ''{tenant}'' t = [] @ t @ []"
    by (rule Substitute_template; code_simp)+
  have C: "Substitute ''https://www.googleapis.com/oauth2/v3/certs'' t = ''https://www.googleapis.com/oauth2/v3/certs''"
    "Substitute ''https://oauth2.googleapis.com/tokeninfo'' t = ''https://oauth2.googleapis.com/tokeninfo''"
    "Substitute [] t = []"
    by (rule Substitute_constant; code_simp)+
  show ?thesis
    by (simp add: ResolveProvider_def GetProviderConfig_def generic_config_def Let_def S C authority_def)
qed

text \<open>
  The URL check and the HTTP client do not split a URL the same way. \<open>ValidateHttpUrl\<close> ends the
  authority at \<open>?\<close> or \<open>#\<close>, the client only at \<open>/\<close>: a plaintext URL is accepted as local while the client
  connects to another host name. And a bracketed loopback address without a port is accepted but split at
  a colon inside the address, so the client uses the host \<open>[:\<close> on port 1.
\<close>

lemma url_readers_disagree:
  "ValidateHttpUrl ''jwks_uri'' ''http://localhost?.evil.example/keys'' = Inr () \<and>
   map_option up_host (ParseUrl ''http://localhost?.evil.example/keys'') = Some ''localhost?.evil.example'' \<and>
   \<not> IsLoopbackHost ''localhost?.evil.example'' \<and>
   ValidateHttpUrl ''jwks_uri'' ''http://[::1]/keys'' = Inr () \<and>
   ParseUrl ''http://[::1]/keys'' = Some \<lparr>up_scheme = ''http'', up_host = ''[:'', up_port = 1, up_path = ''/keys''\<rparr>"
  by code_simp


end
