(* ===== verification/Opaque_Tokens.thy ===== *)
theory Opaque_Tokens
  imports Validator
begin

text \<open>
  Validation of opaque tokens by asking the provider: Google tokeninfo and RFC 7662 introspection
  (validator.cpp) and GitHub's token check (github_check.cpp). All three look up the decision cache
  first, ask on a miss, and store a positive answer.

  A POST is a function of the request and of the decision cache, and returns the response with the
  cache as other threads left it. The result carries, besides the verdict and the cache, the principal
  written through \<open>out_principal\<close>.
\<close>

section \<open>Model\<close>

record IntrospectContext =
  ic_endpoint :: string
  ic_client_id :: string
  ic_client_secret :: string
  ic_expected_issuer :: string
  ic_expected_audience :: string

record TokeninfoContext =
  tc_endpoint :: string
  tc_expected_audience :: string

record GithubContext =
  gc_check_url :: string
  gc_client_id :: string
  gc_client_secret :: string

type_synonym decision = "VerifyResult \<times> DecisionCache \<times> Principal option"

definition tokeninfo_principal :: "TokeninfoResponse \<Rightarrow> Principal" where
  "tokeninfo_principal resp =
     \<lparr>subject = (if ti_subject resp = [] then ti_azp resp else ti_subject resp), issuer = [],
      scopes = (if ti_scope resp \<noteq> [] then split_scope (ti_scope resp) else []), exp = ti_exp resp\<rparr>"

definition ValidateTokenViaTokeninfo ::
    "Externals \<Rightarrow> DecisionCache http_post \<Rightarrow> string \<Rightarrow> VerifyOptions \<Rightarrow> TokeninfoContext \<Rightarrow> DecisionCache \<Rightarrow> decision" where
  "ValidateTokenViaTokeninfo X post token opts ctx dc =
     (if token = [] then (Malformed, dc, None)
      else
        let k = KeyOf (x_sha256 X) token in
        case Lookup dc k (vo_now_s opts) of
          (Some cached, dc1) \<Rightarrow> (Ok, dc1, Some cached)
        | (None, dc1) \<Rightarrow>
            (case QueryTokeninfo (x_json_parse X) post (tc_endpoint ctx) token dc1 of
               (None, dc2) \<Rightarrow> (JwksFetchFailed, dc2, None)
             | (Some resp, dc2) \<Rightarrow>
                 if \<not> ti_active resp then (InvalidSignature, dc2, None)
                 else if tc_expected_audience ctx \<noteq> [] \<and> ti_aud resp \<noteq> tc_expected_audience ctx \<and>
                         ti_azp resp \<noteq> tc_expected_audience ctx
                 then (WrongAudience, dc2, None)
                 else if 0 < ti_exp resp \<and> ti_exp resp + vo_clock_skew_s opts < vo_now_s opts then (Expired, dc2, None)
                 else
                   let p = tokeninfo_principal resp
                   in (Ok, Store dc2 k p (vo_now_s opts), Some p)))"

definition introspection_principal :: "IntrospectionResponse \<Rightarrow> Principal" where
  "introspection_principal resp =
     \<lparr>subject = ir_subject resp, issuer = ir_issuer resp,
      scopes = (if ir_scope resp \<noteq> [] then split_scope (ir_scope resp) else []) @ ir_scp resp, exp = ir_exp resp\<rparr>"

definition ValidateTokenViaIntrospection ::
    "Externals \<Rightarrow> DecisionCache http_post \<Rightarrow> string \<Rightarrow> VerifyOptions \<Rightarrow> IntrospectContext \<Rightarrow> DecisionCache \<Rightarrow> decision" where
  "ValidateTokenViaIntrospection X post token opts ctx dc =
     (if token = [] then (Malformed, dc, None)
      else
        let k = KeyOf (x_sha256 X) token in
        case Lookup dc k (vo_now_s opts) of
          (Some cached, dc1) \<Rightarrow> (Ok, dc1, Some cached)
        | (None, dc1) \<Rightarrow>
            (case IntrospectToken (x_json_parse X) post (ic_endpoint ctx) (ic_client_id ctx) (ic_client_secret ctx) token dc1 of
               (None, dc2) \<Rightarrow> (JwksFetchFailed, dc2, None)
             | (Some resp, dc2) \<Rightarrow>
                 if \<not> ir_active resp then (InvalidSignature, dc2, None)
                 else if ic_expected_issuer ctx \<noteq> [] \<and> ir_issuer resp \<noteq> [] \<and> ir_issuer resp \<noteq> ic_expected_issuer ctx
                 then (WrongIssuer, dc2, None)
                 else if ic_expected_audience ctx \<noteq> [] \<and> ir_audience resp \<noteq> [] \<and>
                         \<not> AudienceMatches (ir_audience resp) (ic_expected_audience ctx)
                 then (WrongAudience, dc2, None)
                 else
                   let p = introspection_principal resp
                   in (Ok, Store dc2 k p (vo_now_s opts), Some p)))"

subsection \<open>GitHub (github_check.cpp)\<close>

definition github_subject :: "json \<Rightarrow> string option" where
  "github_subject v =
     (case v of
        JInt i \<Rightarrow> Some (''gh:'' @ int_to_string i)
      | JDouble d \<Rightarrow> Some (''gh:'' @ int_to_string d)
      | JStr s \<Rightarrow> Some (''gh:'' @ s)
      | _ \<Rightarrow> None)"

definition ParseGithubCheckResponse :: "(string \<Rightarrow> json option) \<Rightarrow> string \<Rightarrow> Principal option" where
  "ParseGithubCheckResponse json_parse body =
     (case parse_object json_parse body of
        None \<Rightarrow> None
      | Some obj \<Rightarrow>
          (case map_of obj ''user'' of
             Some (JObj user) \<Rightarrow>
               (case map_of user ''id'' of
                  None \<Rightarrow> None
                | Some v \<Rightarrow>
                    (case github_subject v of
                       None \<Rightarrow> None
                     | Some sub \<Rightarrow>
                         Some \<lparr>subject = sub, issuer = ''https://api.github.com'',
                           scopes = (case map_of obj ''scopes'' of Some (JArr vs) \<Rightarrow> json_strings vs | _ \<Rightarrow> []), exp = 0\<rparr>))
           | _ \<Rightarrow> None))"

definition github_request :: "GithubContext \<Rightarrow> string \<Rightarrow> PostRequest" where
  "github_request ctx token =
     \<lparr>post_url = gc_check_url ctx,
      post_body = [CHR 0x7B, CHR 0x22] @ ''access_token'' @ [CHR 0x22, CHR '':'', CHR 0x22] @ JsonEscape token @ [CHR 0x22, CHR 0x7D],
      content_type = ''application/json'', basic_user = gc_client_id ctx, basic_pass = gc_client_secret ctx\<rparr>"

definition ValidateTokenViaGithubCheck ::
    "Externals \<Rightarrow> DecisionCache http_post \<Rightarrow> string \<Rightarrow> VerifyOptions \<Rightarrow> GithubContext \<Rightarrow> DecisionCache \<Rightarrow> decision" where
  "ValidateTokenViaGithubCheck X post token opts ctx dc =
     (if token = [] then (Malformed, dc, None)
      else
        let k = KeyOf (x_sha256 X) token in
        case Lookup dc k (vo_now_s opts) of
          (Some cached, dc1) \<Rightarrow> (Ok, dc1, Some cached)
        | (None, dc1) \<Rightarrow>
            (case post (github_request ctx token) dc1 of
               (None, dc2) \<Rightarrow> (JwksFetchFailed, dc2, None)
             | (Some resp, dc2) \<Rightarrow>
                 if 500 \<le> status_code resp then (JwksFetchFailed, dc2, None)
                 else if status_code resp = 404 then (InvalidSignature, dc2, None)
                 else if status_code resp \<noteq> 200 then (JwksFetchFailed, dc2, None)
                 else
                   (case ParseGithubCheckResponse (x_json_parse X) (resp_body resp) of
                      None \<Rightarrow> (Malformed, dc2, None)
                    | Some p \<Rightarrow> (Ok, Store dc2 k p (vo_now_s opts), Some p))))"

section \<open>The common shape\<close>

text \<open>
  All three are the same routine around a different question: answer from the store, or ask and store
  a positive answer. \<open>ask\<close> returns a verdict or a principal.
\<close>

definition cached_validation ::
    "('c \<Rightarrow> string \<Rightarrow> seconds \<Rightarrow> Principal option \<times> 'c) \<Rightarrow> ('c \<Rightarrow> string \<Rightarrow> Principal \<Rightarrow> seconds \<Rightarrow> 'c) \<Rightarrow>
     string \<Rightarrow> seconds \<Rightarrow> ('c \<Rightarrow> (VerifyResult + Principal) \<times> 'c) \<Rightarrow> 'c \<Rightarrow> VerifyResult \<times> 'c \<times> Principal option" where
  "cached_validation lookup store k now ask c =
     (case lookup c k now of
        (Some p, c1) \<Rightarrow> (Ok, c1, Some p)
      | (None, c1) \<Rightarrow>
          (case ask c1 of
             (Inl r, c2) \<Rightarrow> (r, c2, None)
           | (Inr p, c2) \<Rightarrow> (Ok, store c2 k p now, Some p)))"

definition ask_tokeninfo ::
    "Externals \<Rightarrow> DecisionCache http_post \<Rightarrow> string \<Rightarrow> VerifyOptions \<Rightarrow> TokeninfoContext \<Rightarrow> DecisionCache \<Rightarrow>
     (VerifyResult + Principal) \<times> DecisionCache" where
  "ask_tokeninfo X post token opts ctx dc =
     (case QueryTokeninfo (x_json_parse X) post (tc_endpoint ctx) token dc of
        (None, dc2) \<Rightarrow> (Inl JwksFetchFailed, dc2)
      | (Some resp, dc2) \<Rightarrow>
          if \<not> ti_active resp then (Inl InvalidSignature, dc2)
          else if tc_expected_audience ctx \<noteq> [] \<and> ti_aud resp \<noteq> tc_expected_audience ctx \<and>
                  ti_azp resp \<noteq> tc_expected_audience ctx
          then (Inl WrongAudience, dc2)
          else if 0 < ti_exp resp \<and> ti_exp resp + vo_clock_skew_s opts < vo_now_s opts then (Inl Expired, dc2)
          else (Inr (tokeninfo_principal resp), dc2))"

definition ask_introspection ::
    "Externals \<Rightarrow> DecisionCache http_post \<Rightarrow> string \<Rightarrow> IntrospectContext \<Rightarrow> DecisionCache \<Rightarrow>
     (VerifyResult + Principal) \<times> DecisionCache" where
  "ask_introspection X post token ctx dc =
     (case IntrospectToken (x_json_parse X) post (ic_endpoint ctx) (ic_client_id ctx) (ic_client_secret ctx) token dc of
        (None, dc2) \<Rightarrow> (Inl JwksFetchFailed, dc2)
      | (Some resp, dc2) \<Rightarrow>
          if \<not> ir_active resp then (Inl InvalidSignature, dc2)
          else if ic_expected_issuer ctx \<noteq> [] \<and> ir_issuer resp \<noteq> [] \<and> ir_issuer resp \<noteq> ic_expected_issuer ctx
          then (Inl WrongIssuer, dc2)
          else if ic_expected_audience ctx \<noteq> [] \<and> ir_audience resp \<noteq> [] \<and>
                  \<not> AudienceMatches (ir_audience resp) (ic_expected_audience ctx)
          then (Inl WrongAudience, dc2)
          else (Inr (introspection_principal resp), dc2))"

definition ask_github ::
    "Externals \<Rightarrow> DecisionCache http_post \<Rightarrow> string \<Rightarrow> GithubContext \<Rightarrow> DecisionCache \<Rightarrow>
     (VerifyResult + Principal) \<times> DecisionCache" where
  "ask_github X post token ctx dc =
     (case post (github_request ctx token) dc of
        (None, dc2) \<Rightarrow> (Inl JwksFetchFailed, dc2)
      | (Some resp, dc2) \<Rightarrow>
          if status_code resp = 404 then (Inl InvalidSignature, dc2)
          else if status_code resp \<noteq> 200 then (Inl JwksFetchFailed, dc2)
          else
            (case ParseGithubCheckResponse (x_json_parse X) (resp_body resp) of
               None \<Rightarrow> (Inl Malformed, dc2)
             | Some p \<Rightarrow> (Inr p, dc2)))"

lemma tokeninfo_shape:
  "token \<noteq> [] \<Longrightarrow> ValidateTokenViaTokeninfo X post token opts ctx dc =
     cached_validation Lookup Store (KeyOf (x_sha256 X) token) (vo_now_s opts) (ask_tokeninfo X post token opts ctx) dc"
  by (simp add: ValidateTokenViaTokeninfo_def cached_validation_def ask_tokeninfo_def Let_def
    split: prod.split option.split)

lemma introspection_shape:
  "token \<noteq> [] \<Longrightarrow> ValidateTokenViaIntrospection X post token opts ctx dc =
     cached_validation Lookup Store (KeyOf (x_sha256 X) token) (vo_now_s opts) (ask_introspection X post token ctx) dc"
  by (simp add: ValidateTokenViaIntrospection_def cached_validation_def ask_introspection_def Let_def
    split: prod.split option.split)

lemma github_shape:
  "token \<noteq> [] \<Longrightarrow> ValidateTokenViaGithubCheck X post token opts ctx dc =
     cached_validation Lookup Store (KeyOf (x_sha256 X) token) (vo_now_s opts) (ask_github X post token ctx) dc"
  by (simp add: ValidateTokenViaGithubCheck_def cached_validation_def ask_github_def Let_def
    split: prod.split option.split)

text \<open>What holds of the routine over any store that keeps the contract of the decision cache.\<close>

context decision_store
begin

lemma validation_Ok:
  assumes "ok c" "cached_validation lookup store k now ask c = (Ok, c', Some p)"
  shows "(\<exists>e. view c k = Some (p, e) \<and> now < e) \<or> fst (ask (snd (lookup c k now))) = Inr p"
  using assms lookup_result [OF assms(1), of k now p]
  by (auto simp: cached_validation_def split: prod.splits option.splits sum.splits)

lemma validation_rejected:
  assumes "cached_validation lookup store k now ask c = (r, c', None)"
  shows "fst (lookup c k now) = None \<and> ask (snd (lookup c k now)) = (Inl r, c')"
  using assms by (auto simp: cached_validation_def split: prod.splits option.splits sum.splits)

lemma validation_from_store:
  assumes "ok c" "view c k = Some (p, e)" "now < e"
  shows "\<exists>c'. cached_validation lookup store k now ask c = (Ok, c', Some p)"
proof -
  have "fst (lookup c k now) = Some p" using assms by (simp add: lookup_result)
  then show ?thesis by (auto simp: cached_validation_def split: prod.splits)
qed

lemma validation_stored:
  assumes "ok c" "\<And>c. ok c \<Longrightarrow> ok (snd (ask c)) \<and> ttl (snd (ask c)) = ttl c"
    "cached_validation lookup store k now ask c = (Ok, c1, Some p)" "fst (lookup c k now) = None" "0 < ttl c p now"
  shows "ok c1 \<and> view c1 k = Some (p, now + ttl c p now)"
proof -
  let ?l = "snd (lookup c k now)"
  from assms(3,4) obtain c0 where c0: "ask ?l = (Inr p, c0)" "c1 = store c0 k p now"
    by (auto simp: cached_validation_def split: prod.splits option.splits sum.splits)
  have "ok ?l" "ttl ?l = ttl c" using assms(1) by (simp_all add: ok_lookup ttl_lookup)
  with assms(2) [of ?l] c0(1) have "ok c0" "ttl c0 = ttl c" by simp_all
  with assms(5) c0(2) show ?thesis by (simp add: store_same ok_store)
qed

lemma validation_rejected_view:
  assumes "ok c" "\<And>c. snd (ask c) = c" "cached_validation lookup store k now ask c = (r, c', None)"
    "view c' k' = Some x"
  shows "view c k' = Some x"
proof -
  have "c' = snd (lookup c k now)"
    using validation_rejected [OF assms(3)] assms(2) by (metis snd_conv)
  then show ?thesis using lookup_view [OF assms(1)] assms(4) by blast
qed

text \<open>A store holds principals of a kind only, when storing and asking yield no others.\<close>

lemma validation_kind:
  assumes I: "\<And>c. I c \<longleftrightarrow> ok c \<and> (\<forall>k p e. view c k = Some (p, e) \<longrightarrow> Q p)"
    and ask: "\<And>c. I c \<Longrightarrow> I (snd (ask c)) \<and> (\<forall>p. fst (ask c) = Inr p \<longrightarrow> Q p)"
    and "I c" "cached_validation lookup store k now ask c = (r, c', q)"
  shows "I c' \<and> (\<forall>p. q = Some p \<longrightarrow> Q p)"
proof -
  obtain hit c1 where l: "lookup c k now = (hit, c1)" by fastforce
  have c: "ok c" "\<And>k p e. view c k = Some (p, e) \<Longrightarrow> Q p" using assms(3) I by blast+
  have c1: "I c1" using ok_lookup [OF c(1), of k now] lookup_view [OF c(1), of k now] c(2) l I by fastforce
  show ?thesis
  proof (cases hit)
    case (Some p)
    then have "Q p" using lookup_result [OF c(1), of k now p] l c(2) by auto
    with Some l c1 assms(4) show ?thesis by (auto simp: cached_validation_def)
  next
    case None
    obtain a c2 where a: "ask c1 = (a, c2)" by fastforce
    with ask [OF c1] have c2: "I c2" "\<And>p. a = Inr p \<Longrightarrow> Q p" by auto
    have "I (store c2 k p now)" if "Q p" for p
    proof -
      have ok2: "ok c2" and v: "\<And>k p e. view c2 k = Some (p, e) \<Longrightarrow> Q p" using c2(1) I by blast+
      have "Q p'" if "view (store c2 k p now) k' = Some (p', e)" for k' p' e
        using store_same [OF ok2, of p now k] store_skip [OF ok2, of p now k] store_other [OF ok2, of k' k p now "(p', e)"] v that \<open>Q p\<close>
        by (cases "k' = k"; cases "0 < ttl c2 p now") auto
      then show ?thesis using ok_store [OF ok2] I by blast
    qed
    with None l a c2 assms(4) show ?thesis by (auto simp: cached_validation_def split: sum.splits)
  qed
qed

lemma validation_None_iff:
  "cached_validation lookup store k now ask c = (r, c', q) \<Longrightarrow> q = None \<Longrightarrow> r = Ok \<Longrightarrow>
     fst (ask (snd (lookup c k now))) = Inl Ok"
  by (auto simp: cached_validation_def split: prod.splits option.splits sum.splits)

end

section \<open>Lemmas on the three questions\<close>

text \<open>A network during whose use no other thread touches the decision cache.\<close>

definition quiet_post :: "'s http_post \<Rightarrow> bool" where
  "quiet_post post \<longleftrightarrow> (\<forall>req w. snd (post req w) = w)"

lemma quiet_questions:
  assumes "quiet_post post"
  shows "snd (ask_tokeninfo X post token opts tctx dc) = dc" "snd (ask_introspection X post token ictx dc) = dc"
    "snd (ask_github X post token gctx dc) = dc"
proof -
  have q: "post req w = (fst (post req w), w)" for req w using assms by (simp add: quiet_post_def prod_eq_iff)
  have "snd (QueryTokeninfo jp post e token dc) = dc" "snd (IntrospectToken jp post e i sec token dc) = dc" for jp e i sec
    by (subst QueryTokeninfo_def, subst q, simp split: option.split)
      (subst IntrospectToken_def, subst q, simp split: option.split)
  then show "snd (ask_tokeninfo X post token opts tctx dc) = dc" "snd (ask_introspection X post token ictx dc) = dc"
    by (auto simp: ask_tokeninfo_def ask_introspection_def split_beta split: option.splits)
  show "snd (ask_github X post token gctx dc) = dc"
    by (subst ask_github_def, subst q) (simp split: option.split)
qed

lemma questions_not_Ok:
  "fst (ask_tokeninfo X post token opts tctx dc) \<noteq> Inl Ok" "fst (ask_introspection X post token ictx dc) \<noteq> Inl Ok"
  "fst (ask_github X post token gctx dc) \<noteq> Inl Ok"
  by (simp_all add: ask_tokeninfo_def ask_introspection_def ask_github_def split: prod.split option.split)

lemma ask_introspection_Inr:
  assumes "fst (ask_introspection X post token ctx dc) = Inr p"
  shows "\<exists>http resp. fst (post (introspect_request (ic_endpoint ctx) (ic_client_id ctx) (ic_client_secret ctx) token) dc) = Some http \<and>
    status_code http = 200 \<and> ParseIntrospectionResponse (x_json_parse X) (resp_body http) = Some resp \<and> ir_active resp \<and>
    (ic_expected_issuer ctx = [] \<or> ir_issuer resp = [] \<or> ir_issuer resp = ic_expected_issuer ctx) \<and>
    (ic_expected_audience ctx = [] \<or> ir_audience resp = [] \<or> ic_expected_audience ctx \<in> set (ir_audience resp)) \<and>
    p = introspection_principal resp"
  using assms
  by (auto simp: ask_introspection_def IntrospectToken_def AudienceMatches_def split: prod.splits option.splits if_splits)

lemma ask_tokeninfo_Inr:
  assumes "fst (ask_tokeninfo X post token opts ctx dc) = Inr p"
  shows "\<exists>http resp. fst (post (tokeninfo_request (tc_endpoint ctx) token) dc) = Some http \<and>
    status_code http = 200 \<and> ParseTokeninfoResponse (x_json_parse X) (resp_body http) True = Some resp \<and>
    (tc_expected_audience ctx = [] \<or> tc_expected_audience ctx \<in> {ti_aud resp, ti_azp resp}) \<and>
    (ti_exp resp \<le> 0 \<or> vo_now_s opts \<le> ti_exp resp + vo_clock_skew_s opts) \<and> p = tokeninfo_principal resp"
  using assms
  by (auto simp: ask_tokeninfo_def QueryTokeninfo_def not_less split: prod.splits option.splits if_splits)

lemma ask_github_Inr:
  assumes "fst (ask_github X post token ctx dc) = Inr p"
  shows "\<exists>http. fst (post (github_request ctx token) dc) = Some http \<and> status_code http = 200 \<and>
    ParseGithubCheckResponse (x_json_parse X) (resp_body http) = Some p"
  using assms by (auto simp: ask_github_def split: prod.splits option.splits if_splits)

section \<open>What a provider vouches for\<close>

text \<open>
  \<open>A req http\<close> says that the provider gives the answer \<open>http\<close> to the request \<open>req\<close>. A principal is vouched for
  when an answer about a token says so, in the terms of each mode.
\<close>

definition introspection_vouches :: "Externals \<Rightarrow> (PostRequest \<Rightarrow> HttpResponse \<Rightarrow> bool) \<Rightarrow> IntrospectContext \<Rightarrow> string \<Rightarrow> Principal \<Rightarrow> bool" where
  "introspection_vouches X A ctx token p \<longleftrightarrow>
     (\<exists>http resp. A (introspect_request (ic_endpoint ctx) (ic_client_id ctx) (ic_client_secret ctx) token) http \<and>
        status_code http = 200 \<and> ParseIntrospectionResponse (x_json_parse X) (resp_body http) = Some resp \<and> ir_active resp \<and>
        (ic_expected_issuer ctx = [] \<or> ir_issuer resp = [] \<or> ir_issuer resp = ic_expected_issuer ctx) \<and>
        (ic_expected_audience ctx = [] \<or> ir_audience resp = [] \<or> ic_expected_audience ctx \<in> set (ir_audience resp)) \<and>
        p = introspection_principal resp)"

definition tokeninfo_vouches ::
    "Externals \<Rightarrow> (PostRequest \<Rightarrow> HttpResponse \<Rightarrow> bool) \<Rightarrow> VerifyOptions \<Rightarrow> TokeninfoContext \<Rightarrow> string \<Rightarrow> Principal \<Rightarrow> bool" where
  "tokeninfo_vouches X A opts ctx token p \<longleftrightarrow>
     (\<exists>http resp. A (tokeninfo_request (tc_endpoint ctx) token) http \<and>
        status_code http = 200 \<and> ParseTokeninfoResponse (x_json_parse X) (resp_body http) True = Some resp \<and>
        (tc_expected_audience ctx = [] \<or> tc_expected_audience ctx \<in> {ti_aud resp, ti_azp resp}) \<and>
        (ti_exp resp \<le> 0 \<or> vo_now_s opts \<le> ti_exp resp + vo_clock_skew_s opts) \<and> p = tokeninfo_principal resp)"

definition github_vouches :: "Externals \<Rightarrow> (PostRequest \<Rightarrow> HttpResponse \<Rightarrow> bool) \<Rightarrow> GithubContext \<Rightarrow> string \<Rightarrow> Principal \<Rightarrow> bool" where
  "github_vouches X A ctx token p \<longleftrightarrow>
     (\<exists>http. A (github_request ctx token) http \<and> status_code http = 200 \<and>
        ParseGithubCheckResponse (x_json_parse X) (resp_body http) = Some p)"

text \<open>The network passes on answers of the provider, and leaves \<open>I\<close> of the shared state while it waits.\<close>

definition honest_post :: "('s \<Rightarrow> bool) \<Rightarrow> (PostRequest \<Rightarrow> HttpResponse \<Rightarrow> bool) \<Rightarrow> 's http_post \<Rightarrow> bool" where
  "honest_post I A post \<longleftrightarrow>
     (\<forall>req w. I w \<longrightarrow> I (snd (post req w)) \<and> (\<forall>http. fst (post req w) = Some http \<longrightarrow> A req http))"

lemma honest_questions:
  assumes "honest_post I A post" "I dc"
  shows "I (snd (ask_introspection X post token ictx dc)) \<and>
      (\<forall>p. fst (ask_introspection X post token ictx dc) = Inr p \<longrightarrow> introspection_vouches X A ictx token p)"
    and "I (snd (ask_tokeninfo X post token opts tctx dc)) \<and>
      (\<forall>p. fst (ask_tokeninfo X post token opts tctx dc) = Inr p \<longrightarrow> tokeninfo_vouches X A opts tctx token p)"
    and "I (snd (ask_github X post token gctx dc)) \<and>
      (\<forall>p. fst (ask_github X post token gctx dc) = Inr p \<longrightarrow> github_vouches X A gctx token p)"
proof -
  have I: "I w'" if "post req dc = (r, w')" for req r w'
    using assms that unfolding honest_post_def by (metis snd_conv)
  have A: "A req http" if "fst (post req dc) = Some http" for req http
    using assms that unfolding honest_post_def by blast
  have "I (snd (ask_introspection X post token ictx dc))"
    using assms(2) I by (auto simp: ask_introspection_def IntrospectToken_def split: prod.split option.split)
  moreover have "introspection_vouches X A ictx token p" if "fst (ask_introspection X post token ictx dc) = Inr p" for p
    unfolding introspection_vouches_def using ask_introspection_Inr [OF that] A by blast
  ultimately show "I (snd (ask_introspection X post token ictx dc)) \<and>
      (\<forall>p. fst (ask_introspection X post token ictx dc) = Inr p \<longrightarrow> introspection_vouches X A ictx token p)" by blast
  have "I (snd (ask_tokeninfo X post token opts tctx dc))"
    using assms(2) I by (auto simp: ask_tokeninfo_def QueryTokeninfo_def split: prod.split option.split)
  moreover have "tokeninfo_vouches X A opts tctx token p" if "fst (ask_tokeninfo X post token opts tctx dc) = Inr p" for p
    unfolding tokeninfo_vouches_def using ask_tokeninfo_Inr [OF that] A by blast
  ultimately show "I (snd (ask_tokeninfo X post token opts tctx dc)) \<and>
      (\<forall>p. fst (ask_tokeninfo X post token opts tctx dc) = Inr p \<longrightarrow> tokeninfo_vouches X A opts tctx token p)" by blast
  have "I (snd (ask_github X post token gctx dc))"
    using I by (auto simp: ask_github_def split: prod.split option.split)
  moreover have "github_vouches X A gctx token p" if "fst (ask_github X post token gctx dc) = Inr p" for p
    unfolding github_vouches_def using ask_github_Inr [OF that] A by blast
  ultimately show "I (snd (ask_github X post token gctx dc)) \<and>
      (\<forall>p. fst (ask_github X post token gctx dc) = Inr p \<longrightarrow> github_vouches X A gctx token p)" by blast
qed

section \<open>Properties\<close>

text \<open>
  C22: introspection accepts a token only when the provider vouches for it. An \<open>Ok\<close> with
  principal \<open>p\<close> means that the decision cache held \<open>p\<close> for this token, not yet expired, or that the
  introspection endpoint answered 200 with \<open>active\<close> true, an issuer and an audience that match the
  configured ones where it reports them, and \<open>p\<close> is the principal of that answer.
\<close>

theorem introspection_accepts:
  assumes ok: "cache_ok dc"
    and r: "ValidateTokenViaIntrospection X post token opts ctx dc = (Ok, dc', out_principal)"
  shows "\<exists>p. out_principal = Some p \<and>
    ((\<exists>e. cache_view dc (KeyOf (x_sha256 X) token) = Some (p, e) \<and> vo_now_s opts < e) \<or>
     (\<exists>w http resp. fst (post (introspect_request (ic_endpoint ctx) (ic_client_id ctx) (ic_client_secret ctx) token) w) = Some http \<and>
       status_code http = 200 \<and> ParseIntrospectionResponse (x_json_parse X) (resp_body http) = Some resp \<and> ir_active resp \<and>
       (ic_expected_issuer ctx = [] \<or> ir_issuer resp = [] \<or> ir_issuer resp = ic_expected_issuer ctx) \<and>
       (ic_expected_audience ctx = [] \<or> ir_audience resp = [] \<or> ic_expected_audience ctx \<in> set (ir_audience resp)) \<and>
       p = introspection_principal resp))"
proof -
  have "token \<noteq> []" using r by (auto simp: ValidateTokenViaIntrospection_def)
  note v = r [unfolded introspection_shape [OF this]]
  obtain p where p: "out_principal = Some p"
    using dcache.validation_None_iff [OF v] questions_not_Ok by (cases out_principal) auto
  from dcache.validation_Ok [OF ok v [unfolded p]] ask_introspection_Inr [of X post token ctx _ p] p show ?thesis by blast
qed

definition sample_post :: "string \<Rightarrow> 's http_post" where
  "sample_post doc = (\<lambda>req w. (Some \<lparr>status_code = 200, resp_body = doc\<rparr>, w))"

definition sample_ictx :: IntrospectContext where
  "sample_ictx = \<lparr>ic_endpoint = ''https://idp/introspect'', ic_client_id = ''c'', ic_client_secret = ''s'',
     ic_expected_issuer = ''https://idp'', ic_expected_audience = []\<rparr>"

definition sample_dc :: DecisionCache where
  "sample_dc = new_DecisionCache 10 30"

definition sample_alice :: Principal where
  "sample_alice = \<lparr>subject = ''alice'', issuer = [], scopes = [''read'', ''write''], exp = 0\<rparr>"

lemma sample_introspection:
  "fst (ValidateTokenViaIntrospection sample_ext (sample_post ''active'') ''opaque'' sample_opts sample_ictx sample_dc) = Ok"
  "snd (snd (ValidateTokenViaIntrospection sample_ext (sample_post ''active'') ''opaque'' sample_opts sample_ictx sample_dc)) = Some sample_alice"
  by code_simp+

lemma introspection_accepts_witness:
  "\<exists>p. snd (snd (ValidateTokenViaIntrospection sample_ext (sample_post ''active'') ''opaque'' sample_opts sample_ictx sample_dc)) = Some p \<and>
     (\<exists>resp. ParseIntrospectionResponse (x_json_parse sample_ext) ''active'' = Some resp \<and> ir_active resp \<and>
        p = introspection_principal resp)"
proof -
  let ?r = "ValidateTokenViaIntrospection sample_ext (sample_post ''active'') ''opaque'' sample_opts sample_ictx sample_dc"
  have r: "?r = (Ok, fst (snd ?r), snd (snd ?r))" using sample_introspection(1) by (simp add: prod_eq_iff)
  have ok: "cache_ok sample_dc" and empty: "cache_view sample_dc k = None" for k
    by (simp_all add: sample_dc_def new_DecisionCache_ok)
  show ?thesis using introspection_accepts [OF ok r] empty by (auto simp: sample_post_def)
qed

text \<open>
  C32: a rejection is never remembered. When tokeninfo, introspection or the GitHub check
  reject a token (or cannot be asked), the decision cache holds nothing under any key that it did not
  hold before.
\<close>

theorem rejections_not_cached:
  assumes quiet: "quiet_post post" and ok: "cache_ok dc"
    and r: "d \<in> {ValidateTokenViaTokeninfo X post token opts tctx dc,
      ValidateTokenViaIntrospection X post token opts ictx dc,
      ValidateTokenViaGithubCheck X post token opts gctx dc}" "fst d \<noteq> Ok"
    and v: "cache_view (fst (snd d)) k = Some x"
  shows "cache_view dc k = Some x"
proof (cases "token = []")
  case True
  with r v show ?thesis
    by (auto simp: ValidateTokenViaTokeninfo_def ValidateTokenViaIntrospection_def ValidateTokenViaGithubCheck_def)
next
  case False
  from r(1) obtain ask where d: "d = cached_validation Lookup Store (KeyOf (x_sha256 X) token) (vo_now_s opts) ask dc"
      and q: "\<And>dc. snd (ask dc) = dc"
    using tokeninfo_shape [OF False, of X post opts tctx dc] introspection_shape [OF False, of X post opts ictx dc]
      github_shape [OF False, of X post opts gctx dc] quiet_questions [OF quiet] by auto
  obtain res c' pr where d': "d = (res, c', pr)" by (cases d) auto
  have "pr = None" using d r(2) d' by (auto simp: cached_validation_def split: prod.splits option.splits sum.splits)
  then have "cached_validation Lookup Store (KeyOf (x_sha256 X) token) (vo_now_s opts) ask dc = (res, c', None)"
    using d d' by simp
  moreover have "cache_view c' k = Some x" using v d' by simp
  ultimately show ?thesis by (rule dcache.validation_rejected_view [OF ok q])
qed

lemma rejections_not_cached_witness:
  "let d = ValidateTokenViaIntrospection sample_ext (sample_post ''nonsense'') ''opaque'' sample_opts sample_ictx sample_dc
   in fst d = JwksFetchFailed \<and> (\<nexists>k x. cache_view (fst (snd d)) k = Some x)"
proof -
  let ?d = "ValidateTokenViaIntrospection sample_ext (sample_post ''nonsense'') ''opaque'' sample_opts sample_ictx sample_dc"
  have f: "fst ?d = JwksFetchFailed" by code_simp
  have ok: "cache_ok sample_dc" and empty: "cache_view sample_dc k = None" for k
    by (simp_all add: sample_dc_def new_DecisionCache_ok)
  have q: "quiet_post (sample_post ''nonsense'')" by (simp add: quiet_post_def sample_post_def)
  have "cache_view (fst (snd ?d)) k \<noteq> Some x" for k x
    using rejections_not_cached [OF q ok, of ?d sample_ext "''opaque''" sample_opts _ sample_ictx _ k x] f empty by auto
  with f show ?thesis by (simp add: Let_def)
qed

text \<open>
  A positive decision is reused without asking again. After an introspection that had to
  ask and accepted \<open>p\<close>, validating the same token again before the entry expires (the configured lifetime,
  or the token's expiry when that is sooner) accepts \<open>p\<close> again, whatever the network would answer.
\<close>

lemma introspection_decision_reused:
  assumes quiet: "quiet_post post" and ok: "cache_ok dc"
    and r: "ValidateTokenViaIntrospection X post token opts ctx dc = (Ok, dc1, Some p)"
    and asked: "fst (Lookup dc (KeyOf (x_sha256 X) token) (vo_now_s opts)) = None"
    and ttl: "0 < effective_ttl dc p (vo_now_s opts)"
    and soon: "vo_now_s opts' < vo_now_s opts + effective_ttl dc p (vo_now_s opts)"
  shows "\<exists>dc2. ValidateTokenViaIntrospection X post' token opts' ctx' dc1 = (Ok, dc2, Some p)"
proof -
  have t: "token \<noteq> []" using r by (auto simp: ValidateTokenViaIntrospection_def)
  have q: "cache_ok (snd (ask_introspection X post token ctx c)) \<and>
      effective_ttl (snd (ask_introspection X post token ctx c)) = effective_ttl c" if "cache_ok c" for c
    using that quiet_questions(2) [OF quiet] by simp
  from dcache.validation_stored [OF ok q r [unfolded introspection_shape [OF t]] asked ttl]
  show ?thesis unfolding introspection_shape [OF t] using dcache.validation_from_store soon by blast
qed

lemma introspection_decision_reused_witness:
  "let dc1 = fst (snd (ValidateTokenViaIntrospection sample_ext (sample_post ''active'') ''opaque'' sample_opts sample_ictx sample_dc))
   in \<exists>dc2. ValidateTokenViaIntrospection sample_ext (\<lambda>req w. (None, w)) ''opaque'' (sample_opts\<lparr>vo_now_s := 520\<rparr>) sample_ictx dc1 =
     (Ok, dc2, Some sample_alice)"
proof -
  let ?r = "ValidateTokenViaIntrospection sample_ext (sample_post ''active'') ''opaque'' sample_opts sample_ictx sample_dc"
  have r: "?r = (Ok, fst (snd ?r), Some sample_alice)" using sample_introspection by (simp add: prod_eq_iff)
  have "cache_ok sample_dc" by (simp add: sample_dc_def new_DecisionCache_ok)
  moreover have "quiet_post (sample_post ''active'')" by (simp add: quiet_post_def sample_post_def)
  moreover have "fst (Lookup sample_dc (KeyOf (x_sha256 sample_ext) ''opaque'') (vo_now_s sample_opts)) = None" by code_simp
  moreover have "effective_ttl sample_dc sample_alice (vo_now_s sample_opts) = 30" "vo_now_s sample_opts = 500" by code_simp+
  ultimately show ?thesis
    using introspection_decision_reused [OF _ _ r, of "sample_opts\<lparr>vo_now_s := 520\<rparr>" "\<lambda>req w. (None, w)" sample_ictx]
    by (simp add: Let_def)
qed

end
