(* ===== verification/Check_Token.thy ===== *)
theory Check_Token
  imports Authorization Endpoints Opaque_Tokens "HOL-Library.Char_ord" "HOL-Library.List_Lexorder"
    "HOL-Library.Product_Lexorder"
begin

text \<open>
  The check of tokens (check_token_function.cpp) and the retrying HTTP client (retry_http_client.cpp):
  the server configuration from settings, secret and provider preset; the refusal of plaintext
  listeners; the validation of a chunk of tokens in one of four modes, with the session table, the
  audit trail and the throttled warnings.

  \<^item> \<open>Deps\<close> gathers what the code depends on from outside: the libraries, the transport (\<open>d_get\<close>,
    \<open>d_post\<close>, \<open>d_sleep_jwks\<close>, \<open>d_sleep_dc\<close>, each with the cache as other threads leave it while the
    mutex is dropped) and the iteration orders of unordered maps.
  \<^item> \<open>others i j\<close> is what other threads do to the rest of the state at the \<open>j\<close>-th point of row \<open>i\<close>
    where the mutex is free.
  \<^item> A \<open>NULL\<close> in a row is \<open>None\<close>.
\<close>

section \<open>Retries (retry_http_client.cpp)\<close>

definition ShouldRetry :: "HttpResponse option \<Rightarrow> bool" where
  "ShouldRetry r = (case r of None \<Rightarrow> True | Some resp \<Rightarrow> 500 \<le> status_code resp \<and> status_code resp \<le> 599)"

fun retry_loop ::
    "nat \<Rightarrow> ('s \<Rightarrow> HttpResponse option \<times> 's) \<Rightarrow> (int \<Rightarrow> 's \<Rightarrow> 's) \<Rightarrow> int \<Rightarrow> HttpResponse option \<times> 's \<Rightarrow>
     HttpResponse option \<times> 's" where
  "retry_loop 0 call sleep delay res = res"
| "retry_loop (Suc n) call sleep delay res =
     (if \<not> ShouldRetry (fst res) then res
      else retry_loop n call sleep (delay * 2) (call (sleep delay (snd res))))"

definition RunWithRetries ::
    "int \<Rightarrow> int \<Rightarrow> (int \<Rightarrow> 's \<Rightarrow> 's) \<Rightarrow> ('s \<Rightarrow> HttpResponse option \<times> 's) \<Rightarrow> 's \<Rightarrow> HttpResponse option \<times> 's" where
  "RunWithRetries max_retries initial_delay sleep call s = retry_loop (nat max_retries) call sleep initial_delay (call s)"

section \<open>Configuration\<close>

record ServerConfig =
  sc_mode :: string
  sc_issuer :: string
  sc_audience :: string
  sc_clock_skew_s :: int
  sc_jwks_uri :: string
  sc_introspection_endpoint :: string
  sc_introspect_client_id :: string
  sc_introspect_client_secret :: string

definition ReadServerConfigCore :: "'v Host \<Rightarrow> 'v KeyValueSecret option \<Rightarrow> ServerConfig" where
  "ReadServerConfigCore H accessor =
     (let m = ReadStringSetting H ''quack_oauth_validation_mode''
      in \<lparr>sc_mode = (if m = [] then ''jwks'' else m),
          sc_issuer = secret_get H accessor ''issuer'',
          sc_audience = secret_get H accessor ''audience'',
          sc_clock_skew_s = clamp (ReadIntSetting H ''quack_oauth_clock_skew_s'' 60) 0 3600,
          sc_jwks_uri = secret_get H accessor ''jwks_uri'',
          sc_introspection_endpoint = secret_get H accessor ''introspection_endpoint'',
          sc_introspect_client_id = secret_get H accessor ''introspect_client_id'',
          sc_introspect_client_secret = secret_get H accessor ''introspect_client_secret''\<rparr>)"

definition fill :: "string \<Rightarrow> string \<Rightarrow> string" where
  "fill explicit preset = (if explicit = [] then preset else explicit)"

definition ApplyProviderPreset :: "'v Host \<Rightarrow> 'v KeyValueSecret option \<Rightarrow> ServerConfig \<Rightarrow> ServerConfig throws" where
  "ApplyProviderPreset H accessor cfg =
     (let provider_name = ReadStringSetting H ''quack_oauth_provider''
      in if provider_name = [] \<or> provider_name = ''generic'' then Inr cfg
         else
           let provider_id = ProviderFromString provider_name
           in if provider_id = Okta \<and> (sc_issuer cfg = [] \<or> sc_jwks_uri cfg = []) then Inl OktaReserved
              else
                let tenant_or_realm = secret_get H accessor ''tenant_or_realm''
                in if provider_id \<noteq> Google \<and> tenant_or_realm = [] then Inl (TenantRequired provider_name)
                   else
                     let resolved = ResolveProvider provider_id tenant_or_realm;
                         cfg1 = cfg\<lparr>sc_issuer := fill (sc_issuer cfg) (prv_issuer resolved),
                                    sc_jwks_uri := fill (sc_jwks_uri cfg) (prv_jwks_uri resolved),
                                    sc_introspection_endpoint :=
                                      fill (sc_introspection_endpoint cfg) (prv_introspection_endpoint resolved)\<rparr>
                     in if provider_id = Github
                        then Inr (cfg1\<lparr>sc_introspect_client_id := fill (sc_introspect_client_id cfg1) tenant_or_realm,
                                       sc_mode := if sc_mode cfg1 = ''jwks'' then ''github_check'' else sc_mode cfg1\<rparr>)
                        else Inr cfg1)"

definition ValidateServerConfig :: "ServerConfig \<Rightarrow> string \<Rightarrow> unit throws" where
  "ValidateServerConfig cfg secret_name =
     (if sc_mode cfg = ''jwks'' then
        (if sc_jwks_uri cfg = [] then Inl (MissingField secret_name ''jwks_uri'')
         else ValidateHttpUrl ''jwks_uri'' (sc_jwks_uri cfg))
      else if sc_mode cfg = ''introspect'' then
        (if sc_introspection_endpoint cfg = [] then Inl (MissingField secret_name ''introspection_endpoint'')
         else ValidateHttpUrl ''introspection_endpoint'' (sc_introspection_endpoint cfg))
      else if sc_mode cfg = ''tokeninfo'' then
        (if sc_introspection_endpoint cfg = [] then Inl (MissingField secret_name ''introspection_endpoint'')
         else ValidateHttpUrl ''introspection_endpoint'' (sc_introspection_endpoint cfg))
      else if sc_mode cfg = ''github_check'' then
        (if sc_introspection_endpoint cfg = [] then Inl (MissingField secret_name ''introspection_endpoint'')
         else if sc_introspect_client_id cfg = [] \<or> sc_introspect_client_secret cfg = []
         then Inl (MissingField secret_name ''introspect_client_id'')
         else ValidateHttpUrl ''introspection_endpoint'' (sc_introspection_endpoint cfg))
      else Inl (UnknownMode (sc_mode cfg)))"

definition LoadServerConfig :: "'v Host \<Rightarrow> ServerConfig throws" where
  "LoadServerConfig H =
     (let secret_name = ReadStringSetting H ''quack_oauth_server_secret_name''
      in if secret_name = [] then Inl ServerSecretUnset
         else case OpenSecret H secret_name None ''quack_oauth_check_token'' of
           Inl e \<Rightarrow> Inl e
         | Inr accessor \<Rightarrow>
             (case ApplyProviderPreset H accessor (ReadServerConfigCore H accessor) of
                Inl e \<Rightarrow> Inl e
              | Inr cfg \<Rightarrow>
                  (case ValidateServerConfig cfg secret_name of
                     Inl e \<Rightarrow> Inl e
                   | Inr _ \<Rightarrow> Inr cfg)))"

section \<open>Rows\<close>

definition PrincipalFromJwt :: "JwtParsed \<Rightarrow> Principal" where
  "PrincipalFromJwt jwt =
     \<lparr>subject = jp_subject jwt, issuer = jp_issuer jwt,
      scopes = (if jp_scope jwt \<noteq> [] then split_scope (jp_scope jwt) else []) @ jp_scp jwt @ jp_roles jwt,
      exp = jp_exp jwt\<rparr>"

definition VerifyResultReason :: "VerifyResult \<Rightarrow> string" where
  "VerifyResultReason r =
     (case r of
        Ok \<Rightarrow> ''ok'' | Malformed \<Rightarrow> ''malformed'' | DisallowedAlgorithm \<Rightarrow> ''disallowed_algorithm''
      | InvalidSignature \<Rightarrow> ''invalid_signature'' | Expired \<Rightarrow> ''expired'' | NotYetValid \<Rightarrow> ''not_yet_valid''
      | WrongIssuer \<Rightarrow> ''wrong_issuer'' | WrongAudience \<Rightarrow> ''wrong_audience''
      | UnsupportedKeyType \<Rightarrow> ''unsupported_key_type'' | UnusableKey \<Rightarrow> ''unusable_key''
      | UnknownKid \<Rightarrow> ''unknown_kid'' | JwksFetchFailed \<Rightarrow> ''jwks_fetch_failed''
      | JwksThrottled \<Rightarrow> ''jwks_throttled'' | NoMatchingKey \<Rightarrow> ''no_matching_key'')"

record RowValidation =
  rv_outcome :: VerifyResult
  rv_principal :: "Principal option"
  rv_refresh_kid :: string
  rv_refresh_reason :: string
  rv_refresh_reason_enum :: RefreshReason

text \<open>\<open>principal\<close> with \<open>have_principal\<close> is the option \<open>rv_principal\<close>.\<close>

definition token_event ::
    "(string \<Rightarrow> bytes option) \<Rightarrow> string \<Rightarrow> VerifyResult \<Rightarrow> string \<Rightarrow> seconds \<Rightarrow> Principal option \<Rightarrow> AuditEvent" where
  "token_event sha token outcome reason now_s principal_on_success =
     (let e = new_AuditEvent\<lparr>ae_timestamp_unix_s := now_s,
                ae_event_type := if outcome = Ok then TokenAccepted else TokenRejected,
                ae_token_hash := RedactSensitive sha token, ae_reason := reason\<rparr>
      in case principal_on_success of
           Some p \<Rightarrow> if outcome = Ok then e\<lparr>ae_subject := subject p, ae_issuer := issuer p\<rparr> else e
         | None \<Rightarrow> e)"

definition EmitTokenAudit ::
    "'v Host \<Rightarrow> (string \<Rightarrow> bytes option) \<Rightarrow> string \<Rightarrow> VerifyResult \<Rightarrow> string \<Rightarrow> seconds \<Rightarrow> Principal option \<Rightarrow>
     'v Server \<Rightarrow> 'v Server" where
  "EmitTokenAudit H sha token outcome reason now_s p s = EmitAuditEvent H (token_event sha token outcome reason now_s p) s"

record ThrottledLogEvent =
  tl_kid :: string
  tl_reason :: string
  tl_jwks_uri :: string

definition throttled :: "RefreshReason \<Rightarrow> bool" where
  "throttled r \<longleftrightarrow> r = Throttled \<or> r = BudgetThrottled"

text \<open>The token is scrubbed at the end; the model has no memory to scrub.\<close>

definition EmitAuditsAndScrub ::
    "'v Host \<Rightarrow> (string \<Rightarrow> bytes option) \<Rightarrow> (nat \<Rightarrow> 'v Server \<Rightarrow> 'v Server) \<Rightarrow> string \<Rightarrow> RowValidation \<Rightarrow> seconds \<Rightarrow>
     string \<Rightarrow> ThrottledLogEvent list \<Rightarrow> 'v Server \<Rightarrow> ThrottledLogEvent list \<times> 'v Server" where
  "EmitAuditsAndScrub H sha others token row now_s jwks_uri events s =
     (let ok = (rv_outcome row = Ok);
          s1 = others 1 s;
          audit_reason = (if \<not> ok \<and> throttled (rv_refresh_reason_enum row) then ''jwks_throttled''
                          else VerifyResultReason (rv_outcome row));
          s2 = EmitTokenAudit H sha token (rv_outcome row) audit_reason now_s (if ok then rv_principal row else None) s1;
          s3 = others 2 s2
      in if rv_refresh_kid row \<noteq> [] then
           let events' = (if throttled (rv_refresh_reason_enum row)
                          then events @ [\<lparr>tl_kid = rv_refresh_kid row, tl_reason = rv_refresh_reason row, tl_jwks_uri = jwks_uri\<rparr>]
                          else events)
           in if ShouldAudit (rv_refresh_reason_enum row) then
                (events', others 3 (EmitAuditEvent H
                   (new_AuditEvent\<lparr>ae_timestamp_unix_s := now_s, ae_event_type := JwksRefresh, ae_kid := rv_refresh_kid row,
                      ae_reason := rv_refresh_reason row, ae_token_hash := RedactSensitive sha token\<rparr>) s3))
              else (events', s3)
         else (events, s3))"

section \<open>Throttled warnings\<close>

definition SanitizeLogField :: "string \<Rightarrow> nat \<Rightarrow> string" where
  "SanitizeLogField str max_len =
     take max_len (filter (\<lambda>c. 32 \<le> uc c \<and> uc c < 127 \<and> c \<noteq> CHR 0x22 \<and> c \<noteq> CHR 0x27 \<and> c \<noteq> CHR 0x5C) str)"

definition throttle_key :: "ThrottledLogEvent \<Rightarrow> string" where
  "throttle_key item =
     SanitizeLogField (tl_kid item) 256 @ '':'' @ tl_reason item @ '':'' @ SanitizeLogField (tl_jwks_uri item) 512"

definition throttle_warning :: "ThrottledLogEvent \<Rightarrow> string" where
  "throttle_warning item =
     (let safe_kid = SanitizeLogField (tl_kid item) 256;
          safe_uri = SanitizeLogField (tl_jwks_uri item) 512;
          uri_suffix = (if safe_uri = [] then [] else '' jwks_uri='' @ [CHR 0x27] @ safe_uri @ [CHR 0x27])
      in (if tl_reason item = RefreshReason_ToString Throttled
          then ''quack_oauth: JWKS refresh rate-limited by min_refresh_s for kid=''
          else ''quack_oauth: JWKS refresh throttled by global fetch budget (2s window) for kid='') @
         [CHR 0x27] @ safe_kid @ [CHR 0x27] @ uri_suffix)"

type_synonym throttle_log = "(string \<times> seconds) list"

definition log_throttled_one :: "seconds \<Rightarrow> 'v Server \<Rightarrow> ThrottledLogEvent \<Rightarrow> 'v Server" where
  "log_throttled_one now_s s item =
     (let logged = sv_last_throttle_logged_s s; k = throttle_key item
      in case map_of logged k of
           Some t \<Rightarrow>
             if t \<le> now_s \<and> now_s - t < 30 then s
             else s\<lparr>sv_last_throttle_logged_s := AList.update k now_s logged,
                    as_log := as_log s @ [(WARNING, throttle_warning item)]\<rparr>
         | None \<Rightarrow>
             s\<lparr>sv_last_throttle_logged_s := AList.update k now_s logged,
               as_log := as_log s @ [(WARNING, throttle_warning item)]\<rparr>)"

definition trim_throttle_log :: "(throttle_log \<Rightarrow> throttle_log) \<Rightarrow> seconds \<Rightarrow> throttle_log \<Rightarrow> throttle_log" where
  "trim_throttle_log iter now_s m =
     (if 1000 < length m then
        let m1 = filter (\<lambda>(k, t). \<not> (now_s < t \<or> now_s - t > 30)) m
        in if 1000 < length m1 then
             let sorted_entries = sort_key snd (iter m1)
             in foldl (\<lambda>a (k, t). AList.delete k a) m1 (take (length m1 - 800) sorted_entries)
           else m1
      else m)"

definition LogThrottledEvents ::
    "(throttle_log \<Rightarrow> throttle_log) \<Rightarrow> ThrottledLogEvent list \<Rightarrow> seconds \<Rightarrow> 'v Server \<Rightarrow> 'v Server" where
  "LogThrottledEvents iter events now_s s =
     (if events = [] then s
      else
        let unique_events = remdups_adj (sort_key (\<lambda>e. (tl_kid e, tl_reason e, tl_jwks_uri e)) events);
            s1 = foldl (log_throttled_one now_s) s unique_events
        in s1\<lparr>sv_last_throttle_logged_s := trim_throttle_log iter now_s (sv_last_throttle_logged_s s1)\<rparr>)"

section \<open>The validation loop\<close>

record Deps =
  d_ext :: Externals
  d_get :: http_get
  d_post :: "DecisionCache http_post"
  d_sleep_jwks :: "int \<Rightarrow> JwksCache \<Rightarrow> JwksCache"
  d_sleep_dc :: "int \<Rightarrow> DecisionCache \<Rightarrow> DecisionCache"
  d_iter_keys :: "keys_by_kid \<Rightarrow> keys_by_kid"
  d_iter_sessions :: "sessions \<Rightarrow> sessions"
  d_iter_throttle :: "throttle_log \<Rightarrow> throttle_log"

text \<open>The client of a chunk: one retry after a second.\<close>

definition retrying_get :: "Deps \<Rightarrow> http_get" where
  "retrying_get D url c = RunWithRetries 1 1000 (d_sleep_jwks D) (d_get D url) c"

definition retrying_post :: "Deps \<Rightarrow> DecisionCache http_post" where
  "retrying_post D req c = RunWithRetries 1 1000 (d_sleep_dc D) (d_post D req) c"

definition jwks_row ::
    "Deps \<Rightarrow> VerifyOptions \<Rightarrow> string \<Rightarrow> (nat \<Rightarrow> 'v Server \<Rightarrow> 'v Server) \<Rightarrow> string \<Rightarrow> 'v Server \<Rightarrow> RowValidation \<times> 'v Server" where
  "jwks_row D opts jwks_uri others token s =
     (case ValidateToken (d_ext D) (d_iter_keys D) (retrying_get D) token opts jwks_uri (sv_jwks_cache s)
             (Some new_RefreshEvent) of
        (res, c', out_refresh) \<Rightarrow>
          let ev = (case out_refresh of Some ev \<Rightarrow> ev | None \<Rightarrow> new_RefreshEvent)
          in (\<lparr>rv_outcome = res,
               rv_principal = (if res = Ok then map_option PrincipalFromJwt (ParseJwt (d_ext D) token) else None),
               rv_refresh_kid = (if re_reason ev \<noteq> [] then re_kid ev else []),
               rv_refresh_reason = (if re_reason ev \<noteq> [] then re_reason ev else []),
               rv_refresh_reason_enum = (if re_reason ev \<noteq> [] then re_reason_enum ev else NoReason)\<rparr>,
              (others 0 s)\<lparr>sv_jwks_cache := c'\<rparr>))"

definition decision_row ::
    "(DecisionCache \<Rightarrow> decision) \<Rightarrow> (nat \<Rightarrow> 'v Server \<Rightarrow> 'v Server) \<Rightarrow> 'v Server \<Rightarrow> RowValidation \<times> 'v Server" where
  "decision_row validate others s =
     (case validate (sv_decision_cache s) of
        (res, dc, p) \<Rightarrow>
          (\<lparr>rv_outcome = res, rv_principal = (if res = Ok then p else None), rv_refresh_kid = [], rv_refresh_reason = [],
            rv_refresh_reason_enum = NoReason\<rparr>,
           (others 0 s)\<lparr>sv_decision_cache := dc\<rparr>))"

text \<open>The row validator of the configured mode.\<close>

definition validate_row ::
    "Deps \<Rightarrow> ServerConfig \<Rightarrow> VerifyOptions \<Rightarrow> (nat \<Rightarrow> 'v Server \<Rightarrow> 'v Server) \<Rightarrow> string \<Rightarrow> 'v Server \<Rightarrow>
     RowValidation \<times> 'v Server" where
  "validate_row D cfg opts others token s =
     (if sc_mode cfg = ''introspect'' then
        decision_row (ValidateTokenViaIntrospection (d_ext D) (retrying_post D) token opts
          \<lparr>ic_endpoint = sc_introspection_endpoint cfg, ic_client_id = sc_introspect_client_id cfg,
           ic_client_secret = sc_introspect_client_secret cfg, ic_expected_issuer = sc_issuer cfg,
           ic_expected_audience = sc_audience cfg\<rparr>) others s
      else if sc_mode cfg = ''tokeninfo'' then
        decision_row (ValidateTokenViaTokeninfo (d_ext D) (retrying_post D) token opts
          \<lparr>tc_endpoint = sc_introspection_endpoint cfg, tc_expected_audience = sc_audience cfg\<rparr>) others s
      else if sc_mode cfg = ''github_check'' then
        decision_row (ValidateTokenViaGithubCheck (d_ext D) (retrying_post D) token opts
          \<lparr>gc_check_url = sc_introspection_endpoint cfg, gc_client_id = sc_introspect_client_id cfg,
           gc_client_secret = sc_introspect_client_secret cfg\<rparr>) others s
      else jwks_row D opts (sc_jwks_uri cfg) others token s)"

text \<open>A row: the token, and the session identifier in the three-argument form.\<close>

type_synonym token_row = "string option \<times> string option"

definition remember_principal ::
    "Deps \<Rightarrow> bool \<Rightarrow> RowValidation \<Rightarrow> string option \<Rightarrow> seconds \<Rightarrow> 'v Server \<Rightarrow> 'v Server" where
  "remember_principal D with_sessions row sid now_s s =
     (case (rv_principal row, sid) of
        (Some p, Some session_id) \<Rightarrow>
          if with_sessions \<and> rv_outcome row = Ok \<and> session_id \<noteq> []
          then StoreSessionPrincipal (d_iter_sessions D) session_id p now_s s else s
      | _ \<Rightarrow> s)"

definition one_row ::
    "'v Host \<Rightarrow> Deps \<Rightarrow> ServerConfig \<Rightarrow> VerifyOptions \<Rightarrow> bool \<Rightarrow> (nat \<Rightarrow> 'v Server \<Rightarrow> 'v Server) \<Rightarrow> string \<Rightarrow> string option \<Rightarrow>
     ThrottledLogEvent list \<Rightarrow> 'v Server \<Rightarrow> bool \<times> ThrottledLogEvent list \<times> 'v Server" where
  "one_row H D cfg opts with_sessions others raw_token sid events s =
     (let token_str = StripBearerPrefix raw_token;
          jwks_uri = (if sc_mode cfg \<in> {''introspect'', ''tokeninfo'', ''github_check''} then [] else sc_jwks_uri cfg)
      in case validate_row D cfg opts others token_str s of
           (row, s1) \<Rightarrow>
             let ok = (rv_outcome row = Ok);
                 s2 = remember_principal D with_sessions row sid (vo_now_s opts) s1
             in case EmitAuditsAndScrub H (x_sha256 (d_ext D)) others token_str row (vo_now_s opts) jwks_uri events s2 of
                  (events', s3) \<Rightarrow> (ok, events', s3))"

fun validation_rows ::
    "'v Host \<Rightarrow> Deps \<Rightarrow> ServerConfig \<Rightarrow> VerifyOptions \<Rightarrow> bool \<Rightarrow> (nat \<Rightarrow> nat \<Rightarrow> 'v Server \<Rightarrow> 'v Server) \<Rightarrow> nat \<Rightarrow> token_row list \<Rightarrow>
     ThrottledLogEvent list \<Rightarrow> 'v Server \<Rightarrow> bool option list \<times> ThrottledLogEvent list \<times> 'v Server" where
  "validation_rows H D cfg opts ws others i [] events s = ([], events, s)"
| "validation_rows H D cfg opts ws others i ((tok, sid) # rows) events s =
     (case tok of
        None \<Rightarrow>
          (case validation_rows H D cfg opts ws others (Suc i) rows events s of
             (rs, events', s') \<Rightarrow> ((if ws then Some False else None) # rs, events', s'))
      | Some raw_token \<Rightarrow>
          (case one_row H D cfg opts ws (others i) raw_token sid events s of
             (ok, events1, s1) \<Rightarrow>
               (case validation_rows H D cfg opts ws others (Suc i) rows events1 s1 of
                  (rs, events2, s2) \<Rightarrow> (Some ok # rs, events2, s2))))"

definition RunValidationLoop ::
    "'v Host \<Rightarrow> Deps \<Rightarrow> ServerConfig \<Rightarrow> VerifyOptions \<Rightarrow> bool \<Rightarrow> (nat \<Rightarrow> nat \<Rightarrow> 'v Server \<Rightarrow> 'v Server) \<Rightarrow> token_row list \<Rightarrow>
     'v Server \<Rightarrow> bool option list \<times> 'v Server" where
  "RunValidationLoop H D cfg opts with_sessions others rows s =
     (case validation_rows H D cfg opts with_sessions others 0 rows [] s of
        (rs, events, s1) \<Rightarrow> (rs, LogThrottledEvents (d_iter_throttle D) events (vo_now_s opts) s1))"

definition chunk_options :: "ServerConfig \<Rightarrow> seconds \<Rightarrow> VerifyOptions" where
  "chunk_options cfg now_s =
     \<lparr>vo_expected_issuer = sc_issuer cfg, vo_expected_audience = sc_audience cfg, vo_clock_skew_s = sc_clock_skew_s cfg,
      vo_now_s = now_s, vo_allowed_algorithms = []\<rparr>"

definition ValidateChunk ::
    "'v Host \<Rightarrow> Deps \<Rightarrow> bool \<Rightarrow> (nat \<Rightarrow> nat \<Rightarrow> 'v Server \<Rightarrow> 'v Server) \<Rightarrow> seconds \<Rightarrow> token_row list \<Rightarrow> 'v Server \<Rightarrow>
     (bool option list \<times> 'v Server) throws" where
  "ValidateChunk H D with_sessions others now_s rows s =
     (case LoadServerConfig H of
        Inl e \<Rightarrow> Inl e
      | Inr cfg \<Rightarrow> Inr (RunValidationLoop H D cfg (chunk_options cfg now_s) with_sessions others rows s))"

section \<open>The plaintext guard and the entry points\<close>

fun guard_rows :: "'v Host \<Rightarrow> 'v list list \<Rightarrow> unit throws" where
  "guard_rows H [] = Inr ()"
| "guard_rows H (row # rows) =
     (let uri_v = row ! 0
      in if h_IsNull H uri_v then guard_rows H rows
         else
           let uri = h_String H uri_v
           in if \<not> IsLoopbackHost (HostFromQuackUri uri) then Inl (PlaintextListener uri) else guard_rows H rows)"

definition EnforcePlaintextGuard :: "'v Host \<Rightarrow> unit throws" where
  "EnforcePlaintextGuard H =
     (case setting H ''quack_oauth_trust_plaintext'' of
        Some v \<Rightarrow> if h_Bool H v then Inr () else
          (case h_query H ''SELECT listen_uri FROM quack_server_list()'' of None \<Rightarrow> Inr () | Some rows \<Rightarrow> guard_rows H rows)
      | None \<Rightarrow>
          (case h_query H ''SELECT listen_uri FROM quack_server_list()'' of None \<Rightarrow> Inr () | Some rows \<Rightarrow> guard_rows H rows))"

definition CheckTokenScalarFun1 ::
    "'v Host \<Rightarrow> Deps \<Rightarrow> (nat \<Rightarrow> nat \<Rightarrow> 'v Server \<Rightarrow> 'v Server) \<Rightarrow> seconds \<Rightarrow> string option list \<Rightarrow> 'v Server \<Rightarrow>
     (bool option list \<times> 'v Server) throws" where
  "CheckTokenScalarFun1 H D others now_s tokens s =
     (case EnforcePlaintextGuard H of
        Inl e \<Rightarrow> Inl e
      | Inr _ \<Rightarrow> ValidateChunk H D False others now_s (map (\<lambda>t. (t, None)) tokens) s)"

text \<open>The arguments are session identifier, authorization header, and the server's own key, which is ignored.\<close>

definition CheckTokenScalarFun3 ::
    "'v Host \<Rightarrow> Deps \<Rightarrow> (nat \<Rightarrow> nat \<Rightarrow> 'v Server \<Rightarrow> 'v Server) \<Rightarrow> seconds \<Rightarrow> (string option \<times> string option \<times> string option) list \<Rightarrow>
     'v Server \<Rightarrow> (bool option list \<times> 'v Server) throws" where
  "CheckTokenScalarFun3 H D others now_s args s =
     (case EnforcePlaintextGuard H of
        Inl e \<Rightarrow> Inl e
      | Inr _ \<Rightarrow> ValidateChunk H D True others now_s (map (\<lambda>(sid, auth, psk). (auth, sid)) args) s)"

section \<open>Lemmas on the loop\<close>

lemma retry_loop_inv:
  assumes "\<And>s. I s \<Longrightarrow> I (snd (call s)) \<and> R (fst (call s))" "\<And>d s. I s \<Longrightarrow> I (sleep d s)"
  shows "I (snd res) \<Longrightarrow> R (fst res) \<Longrightarrow> I (snd (retry_loop n call sleep d res)) \<and> R (fst (retry_loop n call sleep d res))"
proof (induction n arbitrary: d res)
  case (Suc n)
  from assms(1) [OF assms(2) [OF Suc.prems(1), of d]]
  have "I (snd (call (sleep d (snd res))))" "R (fst (call (sleep d (snd res))))" by auto
  from Suc.IH [OF this] Suc.prems show ?case by simp
qed simp

lemma RunWithRetries_inv:
  assumes "\<And>s. I s \<Longrightarrow> I (snd (call s)) \<and> R (fst (call s))" "\<And>d s. I s \<Longrightarrow> I (sleep d s)" "I s"
  shows "I (snd (RunWithRetries m d sleep call s)) \<and> R (fst (RunWithRetries m d sleep call s))"
  unfolding RunWithRetries_def by (rule retry_loop_inv) (use assms in blast)+

text \<open>
  What holds of the shared state across a chunk: \<open>I\<close> is kept by the other threads, by the audit trail,
  by the row validator, and by storing a principal the validator vouches for (\<open>Q\<close>).
\<close>

lemma EmitAuditsAndScrub_inv:
  assumes "\<And>j s. I s \<Longrightarrow> I (others j s)" "\<And>e s. I s \<Longrightarrow> I (EmitAuditEvent H e s)" "I s"
  shows "I (snd (EmitAuditsAndScrub H sha others token row now_s uri events s))"
  using assms by (simp add: EmitAuditsAndScrub_def EmitTokenAudit_def Let_def)

lemma one_row_inv:
  assumes others: "\<And>j s. I s \<Longrightarrow> I (others j s)" and emit: "\<And>e s. I s \<Longrightarrow> I (EmitAuditEvent H e s)"
    and row: "\<And>token s row s1. I s \<Longrightarrow> validate_row D cfg opts others token s = (row, s1) \<Longrightarrow>
      I s1 \<and> (\<forall>p. rv_outcome row = Ok \<longrightarrow> rv_principal row = Some p \<longrightarrow> Q p)"
    and store: "\<And>sid p s. I s \<Longrightarrow> Q p \<Longrightarrow> I (StoreSessionPrincipal (d_iter_sessions D) sid p (vo_now_s opts) s)"
    and "I s"
  shows "I (snd (snd (one_row H D cfg opts ws others raw sid events s)))"
proof -
  obtain row s1 where r: "validate_row D cfg opts others (StripBearerPrefix raw) s = (row, s1)" by fastforce
  note R = row [OF \<open>I s\<close> r]
  have "I (remember_principal D ws row sid (vo_now_s opts) s1)"
    using R store by (simp add: remember_principal_def split: option.split)
  from EmitAuditsAndScrub_inv [of I others H, OF others emit this] show ?thesis
    unfolding one_row_def Let_def r prod.case by (simp add: split_beta)
qed

lemma validation_rows_inv:
  assumes others: "\<And>i j s. I s \<Longrightarrow> I (others i j s)" and emit: "\<And>e s. I s \<Longrightarrow> I (EmitAuditEvent H e s)"
    and row: "\<And>i token s row s1. I s \<Longrightarrow> validate_row D cfg opts (others i) token s = (row, s1) \<Longrightarrow>
      I s1 \<and> (\<forall>p. rv_outcome row = Ok \<longrightarrow> rv_principal row = Some p \<longrightarrow> Q p)"
    and store: "\<And>sid p s. I s \<Longrightarrow> Q p \<Longrightarrow> I (StoreSessionPrincipal (d_iter_sessions D) sid p (vo_now_s opts) s)"
  shows "I s \<Longrightarrow> I (snd (snd (validation_rows H D cfg opts ws others i rows events s)))"
proof (induction rows arbitrary: i events s)
  case (Cons r rows)
  obtain tok sid where r: "r = (tok, sid)" by (cases r)
  show ?case
  proof (cases tok)
    case None
    then show ?thesis using Cons by (simp add: r split_beta)
  next
    case (Some raw)
    have "I (snd (snd (one_row H D cfg opts ws (others i) raw sid events s)))"
      by (rule one_row_inv [of I "others i" H D cfg opts Q, OF others emit row store Cons.prems])
    then show ?thesis using Cons.IH Some by (simp add: r split_beta)
  qed
qed simp

lemma log_throttled_frame:
  "sv_sessions (LogThrottledEvents iter events now_s s) = sv_sessions s"
  "sv_jwks_cache (LogThrottledEvents iter events now_s s) = sv_jwks_cache s"
  "sv_decision_cache (LogThrottledEvents iter events now_s s) = sv_decision_cache s"
  "as_ring (LogThrottledEvents iter events now_s s) = as_ring s"
proof -
  have "sv_sessions (foldl (log_throttled_one now_s) t xs) = sv_sessions t \<and>
      sv_jwks_cache (foldl (log_throttled_one now_s) t xs) = sv_jwks_cache t \<and>
      sv_decision_cache (foldl (log_throttled_one now_s) t xs) = sv_decision_cache t \<and>
      as_ring (foldl (log_throttled_one now_s) t xs) = as_ring t" for t :: "'a Server" and xs
    by (induction xs arbitrary: t) (simp_all add: log_throttled_one_def Let_def split: option.split)
  then show "sv_sessions (LogThrottledEvents iter events now_s s) = sv_sessions s"
    "sv_jwks_cache (LogThrottledEvents iter events now_s s) = sv_jwks_cache s"
    "sv_decision_cache (LogThrottledEvents iter events now_s s) = sv_decision_cache s"
    "as_ring (LogThrottledEvents iter events now_s s) = as_ring s"
    by (simp_all add: LogThrottledEvents_def Let_def)
qed

section \<open>Sessions stand for validated tokens\<close>

text \<open>
  A principal is vouched for under a configuration when it is what the configured mode established for
  some token at some time: a key trusted for the provider verified a JWT under the configured issuer, audience
  and skew, or the provider answered in its favour. \<open>T\<close> says which keys are trusted, \<open>A\<close> which answers the provider gives.
\<close>

definition vouched_by ::
    "Externals \<Rightarrow> (string \<Rightarrow> Jwk \<Rightarrow> bool) \<Rightarrow> (PostRequest \<Rightarrow> HttpResponse \<Rightarrow> bool) \<Rightarrow> ServerConfig \<Rightarrow> seconds \<Rightarrow> string \<Rightarrow>
     Principal \<Rightarrow> bool" where
  "vouched_by X T A cfg now_s token p \<longleftrightarrow>
     (if sc_mode cfg = ''introspect'' then
        introspection_vouches X A
          \<lparr>ic_endpoint = sc_introspection_endpoint cfg, ic_client_id = sc_introspect_client_id cfg,
           ic_client_secret = sc_introspect_client_secret cfg, ic_expected_issuer = sc_issuer cfg,
           ic_expected_audience = sc_audience cfg\<rparr> token p
      else if sc_mode cfg = ''tokeninfo'' then
        tokeninfo_vouches X A (chunk_options cfg now_s)
          \<lparr>tc_endpoint = sc_introspection_endpoint cfg, tc_expected_audience = sc_audience cfg\<rparr> token p
      else if sc_mode cfg = ''github_check'' then
        github_vouches X A
          \<lparr>gc_check_url = sc_introspection_endpoint cfg, gc_client_id = sc_introspect_client_id cfg,
           gc_client_secret = sc_introspect_client_secret cfg\<rparr> token p
      else
        (\<exists>parsed jwk. ParseJwt X token = Some parsed \<and> p = PrincipalFromJwt parsed \<and>
           T (CacheKey (sc_jwks_uri cfg) (jp_kid parsed)) jwk \<and> JwkMatchesTokenHeader jwk (jp_alg parsed) \<and>
           VerifyJwt X token jwk (chunk_options cfg now_s) = Some Ok))"

lemma vouched_by_jwt:
  assumes "sc_mode cfg \<notin> {''introspect'', ''tokeninfo'', ''github_check''}" "vouched_by X T A cfg t token p"
  shows "\<exists>parsed jwk. ParseJwt X token = Some parsed \<and> p = PrincipalFromJwt parsed \<and>
    T (CacheKey (sc_jwks_uri cfg) (jp_kid parsed)) jwk \<and> VerifyJwt X token jwk (chunk_options cfg t) = Some Ok"
proof -
  have m: "sc_mode cfg \<noteq> ''introspect''" "sc_mode cfg \<noteq> ''tokeninfo''" "sc_mode cfg \<noteq> ''github_check''" using assms(1) by blast+
  show ?thesis using assms(2) unfolding vouched_by_def if_not_P [OF m(1)] if_not_P [OF m(2)] if_not_P [OF m(3)] by blast
qed

text \<open>\<open>C\<close> says which configurations the server ever runs with.\<close>

definition vouched ::
    "Externals \<Rightarrow> (string \<Rightarrow> Jwk \<Rightarrow> bool) \<Rightarrow> (PostRequest \<Rightarrow> HttpResponse \<Rightarrow> bool) \<Rightarrow> (ServerConfig \<Rightarrow> bool) \<Rightarrow> Principal \<Rightarrow> bool" where
  "vouched X T A C p \<longleftrightarrow> (\<exists>cfg now_s token. C cfg \<and> vouched_by X T A cfg now_s token p)"

definition decisions_ok :: "(Principal \<Rightarrow> bool) \<Rightarrow> DecisionCache \<Rightarrow> bool" where
  "decisions_ok Q dc \<longleftrightarrow> cache_ok dc \<and> (\<forall>k p e. cache_view dc k = Some (p, e) \<longrightarrow> Q p)"

definition server_ok ::
    "Externals \<Rightarrow> (string \<Rightarrow> Jwk \<Rightarrow> bool) \<Rightarrow> (PostRequest \<Rightarrow> HttpResponse \<Rightarrow> bool) \<Rightarrow> (ServerConfig \<Rightarrow> bool) \<Rightarrow> 'v Server \<Rightarrow> bool" where
  "server_ok X T A C s \<longleftrightarrow>
     trusted_cache T (sv_jwks_cache s) \<and> decisions_ok (vouched X T A C) (sv_decision_cache s) \<and> sessions_ok (sv_sessions s) \<and>
     (\<forall>(sid, sp) \<in> set (sv_sessions s). vouched X T A C (sp_principal sp))"

text \<open>The transport brings trusted keys and real answers, and waiting threads leave both caches as they should be.\<close>

definition honest_deps ::
    "(string \<Rightarrow> Jwk \<Rightarrow> bool) \<Rightarrow> (PostRequest \<Rightarrow> HttpResponse \<Rightarrow> bool) \<Rightarrow> (ServerConfig \<Rightarrow> bool) \<Rightarrow> Deps \<Rightarrow> bool" where
  "honest_deps T A C D \<longleftrightarrow>
     enumerates (d_iter_keys D) \<and> enumerates (d_iter_sessions D) \<and> (\<forall>uri. honest_get (d_ext D) T uri (d_get D)) \<and>
     (\<forall>ms c. trusted_cache T c \<longrightarrow> trusted_cache T (d_sleep_jwks D ms c)) \<and>
     honest_post (decisions_ok (vouched (d_ext D) T A C)) A (d_post D) \<and>
     (\<forall>ms dc. decisions_ok (vouched (d_ext D) T A C) dc \<longrightarrow> decisions_ok (vouched (d_ext D) T A C) (d_sleep_dc D ms dc))"

lemma retrying_get_honest:
  assumes "honest_deps T A C D"
  shows "honest_get (d_ext D) T uri (retrying_get D)"
proof -
  let ?R = "\<lambda>r. \<forall>resp. r = Some resp \<longrightarrow> status_code resp = 200 \<longrightarrow>
      trusted_keys T uri (ParseJwksJson (x_json_parse (d_ext D)) (resp_body resp))"
  have "trusted_cache T (snd (RunWithRetries 1 1000 (d_sleep_jwks D) (d_get D uri) c)) \<and>
      ?R (fst (RunWithRetries 1 1000 (d_sleep_jwks D) (d_get D uri) c))" if "trusted_cache T c" for c
    by (rule RunWithRetries_inv [where I = "trusted_cache T" and R = ?R])
      (use assms that in \<open>auto simp: honest_deps_def honest_get_def\<close>)
  then show ?thesis by (simp add: honest_get_def retrying_get_def)
qed

lemma retrying_post_honest:
  assumes "honest_deps T A C D"
  shows "honest_post (decisions_ok (vouched (d_ext D) T A C)) A (retrying_post D)"
proof -
  let ?I = "decisions_ok (vouched (d_ext D) T A C)"
  have "?I (snd (RunWithRetries 1 1000 (d_sleep_dc D) (d_post D req) c)) \<and>
      (\<forall>http. fst (RunWithRetries 1 1000 (d_sleep_dc D) (d_post D req) c) = Some http \<longrightarrow> A req http)" if "?I c" for req c
    by (rule RunWithRetries_inv [where I = ?I and R = "\<lambda>r. \<forall>http. r = Some http \<longrightarrow> A req http"])
      (use assms that in \<open>auto simp: honest_deps_def honest_post_def\<close>)
  then show ?thesis by (simp add: honest_post_def retrying_post_def)
qed

lemma server_ok_Emit [qo_inv]: "server_ok X T A C s \<Longrightarrow> server_ok X T A C (EmitAuditEvent H e s)"
  by (simp add: server_ok_def)

lemma server_ok_Log [qo_inv]:
  "server_ok X T A C s \<Longrightarrow> server_ok X T A C (LogThrottledEvents iter events now_s s)"
  by (simp add: server_ok_def log_throttled_frame)

lemma server_ok_Store [qo_inv]:
  assumes "enumerates iter" "server_ok X T A C s" "vouched X T A C p"
  shows "server_ok X T A C (StoreSessionPrincipal iter sid p now_s s)"
proof -
  have d: "distinct (map fst (sv_sessions s))" "sessions_ok (sv_sessions s)"
    and v: "\<And>k sp. (k, sp) \<in> set (sv_sessions s) \<Longrightarrow> vouched X T A C (sp_principal sp)"
    using assms(2) by (auto simp: server_ok_def sessions_ok_def)
  have "vouched X T A C (sp_principal sp)" if "(k, sp) \<in> set (store_session iter sid p now_s (sv_sessions s))" for k sp
    using store_session_entries [OF d(1) that] v [of k sp] assms(3) by auto
  then show ?thesis
    using assms(2) store_session_ok [OF assms(1) d(2)] by (auto simp: server_ok_def StoreSessionPrincipal_def)
qed

lemma jwks_row_ok:
  assumes "honest_deps T A C D" "server_ok (d_ext D) T A C s" "server_ok (d_ext D) T A C (others 0 s)"
    and "C cfg" "sc_mode cfg \<notin> {''introspect'', ''tokeninfo'', ''github_check''}"
    and "jwks_row D (chunk_options cfg now_s) (sc_jwks_uri cfg) others token s = (row, s1)"
  shows "server_ok (d_ext D) T A C s1 \<and>
    (\<forall>p. rv_outcome row = Ok \<longrightarrow> rv_principal row = Some p \<longrightarrow> vouched (d_ext D) T A C p)"
proof -
  obtain res c' ev where v: "ValidateToken (d_ext D) (d_iter_keys D) (retrying_get D) token (chunk_options cfg now_s) (sc_jwks_uri cfg)
      (sv_jwks_cache s) (Some new_RefreshEvent) = (res, c', ev)" by (rule prod_cases3)
  have "\<forall>m. mset (d_iter_keys D m) = mset m" using assms(1) by (simp add: honest_deps_def enumerates_def)
  moreover have "trusted_cache T (sv_jwks_cache s)" using assms(2) by (simp add: server_ok_def)
  ultimately have V: "trusted_cache T c'" "res = Ok \<Longrightarrow> \<exists>parsed jwk. ParseJwt (d_ext D) token = Some parsed \<and>
      T (CacheKey (sc_jwks_uri cfg) (jp_kid parsed)) jwk \<and> JwkMatchesTokenHeader jwk (jp_alg parsed) \<and>
      VerifyJwt (d_ext D) token jwk (chunk_options cfg now_s) = Some Ok"
    using ValidateToken_trusted [OF _ retrying_get_honest [OF assms(1)] _ v] by auto
  have s1: "s1 = (others 0 s)\<lparr>sv_jwks_cache := c'\<rparr>" and row: "rv_outcome row = res"
      "rv_principal row = (if res = Ok then map_option PrincipalFromJwt (ParseJwt (d_ext D) token) else None)"
    using assms(6) by (auto simp: jwks_row_def v Let_def)
  have "server_ok (d_ext D) T A C s1" using assms(3) V(1) by (simp add: s1 server_ok_def)
  moreover have "vouched (d_ext D) T A C p" if "rv_outcome row = Ok" "rv_principal row = Some p" for p
  proof -
    have m: "sc_mode cfg \<noteq> ''introspect''" "sc_mode cfg \<noteq> ''tokeninfo''" "sc_mode cfg \<noteq> ''github_check''" using assms(5) by blast+
    have "res = Ok" "map_option PrincipalFromJwt (ParseJwt (d_ext D) token) = Some p" using that row by (auto split: if_splits)
    then have "vouched_by (d_ext D) T A cfg now_s token p"
      unfolding vouched_by_def if_not_P [OF m(1)] if_not_P [OF m(2)] if_not_P [OF m(3)] using V(2) by auto
    with assms(4) show ?thesis unfolding vouched_def by blast
  qed
  ultimately show ?thesis by blast
qed

text \<open>The three modes that ask the provider go through the decision cache in the same way.\<close>

lemma cached_decision_ok:
  assumes ask: "\<And>dc. decisions_ok Q dc \<Longrightarrow> decisions_ok Q (snd (ask dc)) \<and> (\<forall>p. fst (ask dc) = Inr p \<longrightarrow> Q p)"
    and "decisions_ok Q dc" "cached_validation Lookup Store k now_s ask dc = (res, dc', q)"
  shows "decisions_ok Q dc' \<and> (\<forall>p. q = Some p \<longrightarrow> Q p)"
  using dcache.validation_kind [where I = "decisions_ok Q" and Q = Q, OF decisions_ok_def ask assms(2,3)] by blast

lemma decision_row_ok:
  assumes "server_ok X T A C s" "server_ok X T A C (others 0 s)" "decision_row validate others s = (row, s1)"
    and "\<And>dc res dc' q. decisions_ok (vouched X T A C) dc \<Longrightarrow> validate dc = (res, dc', q) \<Longrightarrow>
      decisions_ok (vouched X T A C) dc' \<and> (\<forall>p. q = Some p \<longrightarrow> vouched X T A C p)"
  shows "server_ok X T A C s1 \<and> (\<forall>p. rv_outcome row = Ok \<longrightarrow> rv_principal row = Some p \<longrightarrow> vouched X T A C p)"
proof -
  obtain res dc q where v: "validate (sv_decision_cache s) = (res, dc, q)" by (rule prod_cases3)
  have "decisions_ok (vouched X T A C) (sv_decision_cache s)" using assms(1) by (simp add: server_ok_def)
  from assms(4) [OF this v] assms(2,3) show ?thesis by (auto simp: decision_row_def v server_ok_def)
qed

lemma opaque_validators_ok:
  assumes D: "honest_deps T A C D" and C: "C cfg"
    and d: "decisions_ok (vouched (d_ext D) T A C) dc"
  shows "sc_mode cfg = ''introspect'' \<Longrightarrow> ValidateTokenViaIntrospection (d_ext D) (retrying_post D) token opts
      \<lparr>ic_endpoint = sc_introspection_endpoint cfg, ic_client_id = sc_introspect_client_id cfg,
       ic_client_secret = sc_introspect_client_secret cfg, ic_expected_issuer = sc_issuer cfg,
       ic_expected_audience = sc_audience cfg\<rparr> dc = (res, dc', q) \<Longrightarrow>
      decisions_ok (vouched (d_ext D) T A C) dc' \<and> (\<forall>p. q = Some p \<longrightarrow> vouched (d_ext D) T A C p)"
    and "sc_mode cfg = ''tokeninfo'' \<Longrightarrow> ValidateTokenViaTokeninfo (d_ext D) (retrying_post D) token (chunk_options cfg now_s)
      \<lparr>tc_endpoint = sc_introspection_endpoint cfg, tc_expected_audience = sc_audience cfg\<rparr> dc = (res, dc', q) \<Longrightarrow>
      decisions_ok (vouched (d_ext D) T A C) dc' \<and> (\<forall>p. q = Some p \<longrightarrow> vouched (d_ext D) T A C p)"
    and "sc_mode cfg = ''github_check'' \<Longrightarrow> ValidateTokenViaGithubCheck (d_ext D) (retrying_post D) token opts
      \<lparr>gc_check_url = sc_introspection_endpoint cfg, gc_client_id = sc_introspect_client_id cfg,
       gc_client_secret = sc_introspect_client_secret cfg\<rparr> dc = (res, dc', q) \<Longrightarrow>
      decisions_ok (vouched (d_ext D) T A C) dc' \<and> (\<forall>p. q = Some p \<longrightarrow> vouched (d_ext D) T A C p)"
proof -
  note ask = honest_questions [OF retrying_post_honest [OF D], where token = token]
  have v: "vouched (d_ext D) T A C p" if "vouched_by (d_ext D) T A cfg now_s token p" for now_s p
    using C that unfolding vouched_def by blast
  show "decisions_ok (vouched (d_ext D) T A C) dc' \<and> (\<forall>p. q = Some p \<longrightarrow> vouched (d_ext D) T A C p)"
    if m: "sc_mode cfg = ''introspect''" and e: "ValidateTokenViaIntrospection (d_ext D) (retrying_post D) token opts
      \<lparr>ic_endpoint = sc_introspection_endpoint cfg, ic_client_id = sc_introspect_client_id cfg,
       ic_client_secret = sc_introspect_client_secret cfg, ic_expected_issuer = sc_issuer cfg,
       ic_expected_audience = sc_audience cfg\<rparr> dc = (res, dc', q)"
  proof (cases "token = []")
    case True
    with e d show ?thesis by (simp add: ValidateTokenViaIntrospection_def)
  next
    case False
    show ?thesis
      by (rule cached_decision_ok [OF _ d e [unfolded introspection_shape [OF False]]])
        (use ask(1) v m in \<open>fastforce simp: vouched_by_def\<close>)
  qed
  show "decisions_ok (vouched (d_ext D) T A C) dc' \<and> (\<forall>p. q = Some p \<longrightarrow> vouched (d_ext D) T A C p)"
    if m: "sc_mode cfg = ''tokeninfo''" and e: "ValidateTokenViaTokeninfo (d_ext D) (retrying_post D) token (chunk_options cfg now_s)
      \<lparr>tc_endpoint = sc_introspection_endpoint cfg, tc_expected_audience = sc_audience cfg\<rparr> dc = (res, dc', q)"
  proof (cases "token = []")
    case True
    with e d show ?thesis by (simp add: ValidateTokenViaTokeninfo_def)
  next
    case False
    show ?thesis
      by (rule cached_decision_ok [OF _ d e [unfolded tokeninfo_shape [OF False]]])
        (use ask(2) v m in \<open>fastforce simp: vouched_by_def\<close>)
  qed
  show "decisions_ok (vouched (d_ext D) T A C) dc' \<and> (\<forall>p. q = Some p \<longrightarrow> vouched (d_ext D) T A C p)"
    if m: "sc_mode cfg = ''github_check''" and e: "ValidateTokenViaGithubCheck (d_ext D) (retrying_post D) token opts
      \<lparr>gc_check_url = sc_introspection_endpoint cfg, gc_client_id = sc_introspect_client_id cfg,
       gc_client_secret = sc_introspect_client_secret cfg\<rparr> dc = (res, dc', q)"
  proof (cases "token = []")
    case True
    with e d show ?thesis by (simp add: ValidateTokenViaGithubCheck_def)
  next
    case False
    show ?thesis
      by (rule cached_decision_ok [OF _ d e [unfolded github_shape [OF False]]])
        (use ask(3) v m in \<open>fastforce simp: vouched_by_def\<close>)
  qed
qed

lemma validate_row_ok:
  assumes "honest_deps T A C D" "server_ok (d_ext D) T A C s" "server_ok (d_ext D) T A C (others 0 s)" "C cfg"
    and "validate_row D cfg (chunk_options cfg now_s) others token s = (row, s1)"
  shows "server_ok (d_ext D) T A C s1 \<and>
    (\<forall>p. rv_outcome row = Ok \<longrightarrow> rv_principal row = Some p \<longrightarrow> vouched (d_ext D) T A C p)"
proof -
  note opaque = opaque_validators_ok [OF assms(1,4)]
  consider "sc_mode cfg = ''introspect''" | "sc_mode cfg = ''tokeninfo''" | "sc_mode cfg = ''github_check''"
    | "sc_mode cfg \<notin> {''introspect'', ''tokeninfo'', ''github_check''}" by blast
  then show ?thesis
  proof cases
    case 1
    with assms(5) have "decision_row (ValidateTokenViaIntrospection (d_ext D) (retrying_post D) token (chunk_options cfg now_s)
        \<lparr>ic_endpoint = sc_introspection_endpoint cfg, ic_client_id = sc_introspect_client_id cfg,
         ic_client_secret = sc_introspect_client_secret cfg, ic_expected_issuer = sc_issuer cfg,
         ic_expected_audience = sc_audience cfg\<rparr>) others s = (row, s1)" by (simp add: validate_row_def)
    then show ?thesis by (rule decision_row_ok [where others = others, OF assms(2,3)]) (rule opaque(1) [OF _ 1])
  next
    case 2
    with assms(5) have "decision_row (ValidateTokenViaTokeninfo (d_ext D) (retrying_post D) token (chunk_options cfg now_s)
        \<lparr>tc_endpoint = sc_introspection_endpoint cfg, tc_expected_audience = sc_audience cfg\<rparr>) others s = (row, s1)"
      by (simp add: validate_row_def)
    then show ?thesis by (rule decision_row_ok [where others = others, OF assms(2,3)]) (rule opaque(2) [OF _ 2])
  next
    case 3
    with assms(5) have "decision_row (ValidateTokenViaGithubCheck (d_ext D) (retrying_post D) token (chunk_options cfg now_s)
        \<lparr>gc_check_url = sc_introspection_endpoint cfg, gc_client_id = sc_introspect_client_id cfg,
         gc_client_secret = sc_introspect_client_secret cfg\<rparr>) others s = (row, s1)" by (simp add: validate_row_def)
    then show ?thesis by (rule decision_row_ok [where others = others, OF assms(2,3)]) (rule opaque(3) [OF _ 3])
  next
    case 4
    with assms(5) have "jwks_row D (chunk_options cfg now_s) (sc_jwks_uri cfg) others token s = (row, s1)" by (simp add: validate_row_def)
    then show ?thesis by (rule jwks_row_ok [where others = others, OF assms(1-4) 4])
  qed
qed

lemma RunValidationLoop_ok:
  assumes "honest_deps T A C D" "server_ok (d_ext D) T A C s"
    and others: "\<And>i j s. server_ok (d_ext D) T A C s \<Longrightarrow> server_ok (d_ext D) T A C (others i j s)"
    and "C cfg"
  shows "server_ok (d_ext D) T A C (snd (RunValidationLoop H D cfg (chunk_options cfg now_s) ws others rows s))"
proof -
  have row: "server_ok (d_ext D) T A C s1 \<and>
      (\<forall>p. rv_outcome row = Ok \<longrightarrow> rv_principal row = Some p \<longrightarrow> vouched (d_ext D) T A C p)"
    if "server_ok (d_ext D) T A C s" "validate_row D cfg (chunk_options cfg now_s) (others i) token s = (row, s1)" for i token s row s1
    by (rule validate_row_ok [where others = "others i", OF assms(1) that(1) others [OF that(1)] assms(4) that(2)])
  have "server_ok (d_ext D) T A C (snd (snd (validation_rows H D cfg (chunk_options cfg now_s) ws others 0 rows [] s)))"
    by (rule validation_rows_inv [where Q = "vouched (d_ext D) T A C", OF others server_ok_Emit row server_ok_Store assms(2)])
      (use assms(1) in \<open>auto simp: honest_deps_def\<close>)
  then show ?thesis by (simp add: RunValidationLoop_def split_beta server_ok_Log)
qed

section \<open>Lemmas on warnings\<close>

lemma length_delete_keys:
  assumes "distinct (map fst m)" "distinct (map fst xs)" "set xs \<subseteq> set m"
  shows "length (foldl (\<lambda>a (k, t). AList.delete k a) m xs) = length m - length xs"
  using assms
proof (induction xs arbitrary: m)
  case (Cons x xs)
  obtain k t where x: "x = (k, t)" by (cases x)
  have "Suc (length (AList.delete k m)) = length m"
    using Cons.prems x by (intro length_delete_mem) (auto intro!: image_eqI [of _ _ "(k, t)"])
  moreover have "set xs \<subseteq> set (AList.delete k m)"
    using Cons.prems x by (auto simp: AList.delete_eq image_iff)
  ultimately show ?case
    using Cons.IH [of "AList.delete k m"] Cons.prems x by (simp add: distinct_delete)
qed simp

lemma trim_throttle_log_bound:
  assumes "enumerates iter" "distinct (map fst m)"
  shows "length (trim_throttle_log iter now_s m) \<le> 1000"
proof (cases "1000 < length (filter (\<lambda>(k, t). \<not> (now_s < t \<or> now_s - t > 30)) m) \<and> 1000 < length m")
  case True
  let ?m = "filter (\<lambda>(k, t). \<not> (now_s < t \<or> now_s - t > 30)) m"
  let ?xs = "take (length ?m - 800) (sort_key snd (iter ?m))"
  have d: "distinct (map fst ?m)" using assms(2) by (rule distinct_map_filter)
  have "mset (sort_key snd (iter ?m)) = mset ?m" using assms(1) by (simp add: enumerates_def)
  then have m: "mset (sort_key snd (iter ?m)) = mset ?m" .
  have set: "set (sort_key snd (iter ?m)) = set ?m" using m by (rule mset_eq_setD)
  have len: "length (sort_key snd (iter ?m)) = length ?m" using m by (rule mset_eq_length)
  have "mset (map fst (sort_key snd (iter ?m))) = mset (map fst ?m)" unfolding mset_map m ..
  from mset_eq_imp_distinct_iff [OF this] d have "distinct (map fst (sort_key snd (iter ?m)))" by (rule iffD2)
  then have "distinct (map fst ?xs)" by (simp add: take_map [symmetric])
  moreover have "set ?xs \<subseteq> set ?m" using set_take_subset [of _ "sort_key snd (iter ?m)"] set by blast
  ultimately have "length (foldl (\<lambda>a (k, t). AList.delete k a) ?m ?xs) = length ?m - length ?xs"
    by (rule length_delete_keys [OF d])
  then show ?thesis using True len by (simp add: trim_throttle_log_def Let_def)
next
  case False
  then show ?thesis by (auto simp: trim_throttle_log_def Let_def intro: order_trans [OF length_filter_le])
qed

lemma log_throttled_distinct:
  "distinct (map fst (sv_last_throttle_logged_s s)) \<Longrightarrow>
   distinct (map fst (sv_last_throttle_logged_s (foldl (log_throttled_one now_s) s xs)))"
proof (induction xs arbitrary: s)
  case (Cons x xs)
  have "distinct (map fst (sv_last_throttle_logged_s (log_throttled_one now_s s x)))"
    using Cons.prems by (simp add: log_throttled_one_def Let_def distinct_update split: option.split)
  with Cons.IH show ?case by simp
qed simp

definition printable :: "string \<Rightarrow> bool" where
  "printable = list_all (\<lambda>c. 32 \<le> uc c \<and> uc c < 127)"

lemma printable_literals:
  "printable '' jwks_uri=''" "printable [CHR 0x27]" "printable []"
  "printable ''quack_oauth: JWKS refresh rate-limited by min_refresh_s for kid=''"
  "printable ''quack_oauth: JWKS refresh throttled by global fetch budget (2s window) for kid=''"
  by code_simp+

lemma printable_append: "printable (a @ b) \<longleftrightarrow> printable a \<and> printable b"
  by (simp add: printable_def)

lemma printable_SanitizeLogField: "printable (SanitizeLogField str n)"
  by (auto simp: printable_def list_all_iff SanitizeLogField_def dest!: in_set_takeD)

lemma throttle_warning_printable: "printable (throttle_warning e)"
proof -
  have if_printable: "printable a \<Longrightarrow> printable b \<Longrightarrow> printable (if P then a else b)" for P a b by simp
  show ?thesis
    unfolding throttle_warning_def Let_def printable_append
    by (intro conjI if_printable) (simp_all only: printable_append printable_literals printable_SanitizeLogField simp_thms)
qed

lemma SanitizeLogField_clean: "c \<in> set (SanitizeLogField str n) \<Longrightarrow> \<not> control_char c \<and> c \<noteq> CHR 0x27"
  by (auto simp: SanitizeLogField_def control_char_def dest!: in_set_takeD)

section \<open>Lemmas on audited rows\<close>

definition token_events :: "AuditEvent list \<Rightarrow> bool list" where
  "token_events es = map (\<lambda>e. ae_event_type e = TokenAccepted)
     (filter (\<lambda>e. ae_event_type e = TokenAccepted \<or> ae_event_type e = TokenRejected) es)"

text \<open>
  All that an event may say of a token, its verdict and its principal: four bytes of the token's digest in
  hexadecimal, the name of the verdict, the key id of a refresh, and the subject and issuer once the token is accepted.
\<close>

definition digest_prefix :: "(string \<Rightarrow> bytes option) \<Rightarrow> string \<Rightarrow> string \<Rightarrow> bool" where
  "digest_prefix sha token h \<longleftrightarrow>
     (case sha token of
        Some digest \<Rightarrow> if token \<noteq> [] \<and> 4 \<le> length digest then hex_decode h = Some (take 4 digest) else h = []
      | None \<Rightarrow> h = [])"

definition row_event :: "seconds \<Rightarrow> (string \<Rightarrow> bytes option) \<Rightarrow> string \<Rightarrow> RowValidation \<Rightarrow> AuditEvent \<Rightarrow> bool" where
  "row_event now_s sha token row e \<longleftrightarrow>
     ae_timestamp_unix_s e = now_s \<and> ae_action e = [] \<and> digest_prefix sha token (ae_token_hash e) \<and>
     (if ae_event_type e = JwksRefresh
      then ae_subject e = [] \<and> ae_issuer e = [] \<and> ae_kid e = rv_refresh_kid row \<and> ae_reason e = rv_refresh_reason row
      else ae_event_type e = (if rv_outcome row = Ok then TokenAccepted else TokenRejected) \<and> ae_kid e = [] \<and>
        ae_reason e =
          (if rv_outcome row \<noteq> Ok \<and> rv_refresh_reason_enum row \<in> {Throttled, BudgetThrottled} then ''jwks_throttled''
           else VerifyResultReason (rv_outcome row)) \<and>
        (case rv_principal row of
           Some p \<Rightarrow> if rv_outcome row = Ok then ae_subject e = subject p \<and> ae_issuer e = issuer p else ae_subject e = [] \<and> ae_issuer e = []
         | None \<Rightarrow> ae_subject e = [] \<and> ae_issuer e = []))"

lemma RedactSensitive_digest: "digest_prefix sha token (RedactSensitive sha token)"
  by (simp add: digest_prefix_def RedactSensitive_def kRedactedPrefixBytes_def hex_decode_HexEncode split: option.split)

lemma validate_row_ring: "as_ring (snd (validate_row D cfg opts (\<lambda>_ s. s) token s)) = as_ring s"
  by (simp add: validate_row_def jwks_row_def decision_row_def Let_def split_beta)

lemma remember_principal_ring: "as_ring (remember_principal D ws row sid now_s s) = as_ring s"
  by (simp add: remember_principal_def StoreSessionPrincipal_def split: option.split)

lemma token_event_fields:
  "ae_timestamp_unix_s (token_event sha token outcome reason now_s p) = now_s" "ae_action (token_event sha token outcome reason now_s p) = []"
  "ae_kid (token_event sha token outcome reason now_s p) = []" "ae_reason (token_event sha token outcome reason now_s p) = reason"
  "ae_token_hash (token_event sha token outcome reason now_s p) = RedactSensitive sha token"
  "ae_event_type (token_event sha token outcome reason now_s p) = (if outcome = Ok then TokenAccepted else TokenRejected)"
  "ae_subject (token_event sha token outcome reason now_s p) = (case p of Some q \<Rightarrow> if outcome = Ok then subject q else [] | None \<Rightarrow> [])"
  "ae_issuer (token_event sha token outcome reason now_s p) = (case p of Some q \<Rightarrow> if outcome = Ok then issuer q else [] | None \<Rightarrow> [])"
  by (simp_all add: token_event_def new_AuditEvent_def Let_def split: option.split)

lemma EmitAuditsAndScrub_ring:
  "\<exists>es. as_ring (snd (EmitAuditsAndScrub H sha (\<lambda>_ s. s) token row now_s uri events s)) = foldl Push (as_ring s) es \<and>
     token_events es = [rv_outcome row = Ok] \<and> list_all (row_event now_s sha token row) es"
proof -
  let ?r = "if rv_outcome row \<noteq> Ok \<and> throttled (rv_refresh_reason_enum row) then ''jwks_throttled'' else VerifyResultReason (rv_outcome row)"
  let ?e = "token_event sha token (rv_outcome row) ?r now_s (if rv_outcome row = Ok then rv_principal row else None)"
  let ?j = "new_AuditEvent\<lparr>ae_timestamp_unix_s := now_s, ae_event_type := JwksRefresh, ae_kid := rv_refresh_kid row,
      ae_reason := rv_refresh_reason row, ae_token_hash := RedactSensitive sha token\<rparr>"
  have e: "row_event now_s sha token row ?e"
    unfolding row_event_def by (simp add: token_event_fields RedactSensitive_digest throttled_def split: option.split)
  have j: "row_event now_s sha token row ?j"
    unfolding row_event_def by (simp add: new_AuditEvent_def RedactSensitive_digest)
  have h: "token_events [?e] = [rv_outcome row = Ok]" "token_events [?e, ?j] = [rv_outcome row = Ok]"
      "list_all (row_event now_s sha token row) [?e]" "list_all (row_event now_s sha token row) [?e, ?j]"
    using e j by (simp_all add: token_events_def token_event_fields)
  show ?thesis
  proof (cases "rv_refresh_kid row \<noteq> [] \<and> ShouldAudit (rv_refresh_reason_enum row)")
    case True
    then show ?thesis by (intro exI [of _ "[?e, ?j]"] conjI h) (simp add: EmitAuditsAndScrub_def EmitTokenAudit_def Let_def)
  next
    case False
    then show ?thesis by (intro exI [of _ "[?e]"] conjI h) (auto simp: EmitAuditsAndScrub_def EmitTokenAudit_def Let_def)
  qed
qed

text \<open>An event of the validation of some row of a chunk.\<close>

definition chunk_event :: "Deps \<Rightarrow> ServerConfig \<Rightarrow> VerifyOptions \<Rightarrow> 'v Server itself \<Rightarrow> token_row list \<Rightarrow> AuditEvent \<Rightarrow> bool" where
  "chunk_event D cfg opts T rows e \<longleftrightarrow>
     (\<exists>raw sid (s :: 'v Server) row s1. (Some raw, sid) \<in> set rows \<and> validate_row D cfg opts (\<lambda>_ s. s) (StripBearerPrefix raw) s = (row, s1) \<and>
        row_event (vo_now_s opts) (x_sha256 (d_ext D)) (StripBearerPrefix raw) row e)"

lemma one_row_ring:
  fixes s :: "'v Server"
  shows "\<exists>es. as_ring (snd (snd (one_row H D cfg opts ws (\<lambda>_ s. s) raw sid events s))) = foldl Push (as_ring s) es \<and>
     token_events es = [fst (one_row H D cfg opts ws (\<lambda>_ s. s) raw sid events s)] \<and>
     list_all (chunk_event D cfg opts TYPE('v Server) [(Some raw, sid)]) es"
proof -
  obtain row s1 where r: "validate_row D cfg opts (\<lambda>_ s. s) (StripBearerPrefix raw) s = (row, s1)" by fastforce
  then have s1: "as_ring (remember_principal D ws row sid now s1) = as_ring s" for now
    using validate_row_ring [of D cfg opts "StripBearerPrefix raw" s] by (simp add: remember_principal_ring)
  have "chunk_event D cfg opts TYPE('v Server) [(Some raw, sid)] e"
    if "row_event (vo_now_s opts) (x_sha256 (d_ext D)) (StripBearerPrefix raw) row e" for e
    unfolding chunk_event_def using r that by auto
  then have "list_all (row_event (vo_now_s opts) (x_sha256 (d_ext D)) (StripBearerPrefix raw) row) es \<Longrightarrow>
      list_all (chunk_event D cfg opts TYPE('v Server) [(Some raw, sid)]) es" for es
    by (simp add: list_all_iff)
  then show ?thesis
    unfolding one_row_def Let_def r prod.case
    using EmitAuditsAndScrub_ring [of H "x_sha256 (d_ext D)" "StripBearerPrefix raw" row "vo_now_s opts" _ events
      "remember_principal D ws row sid (vo_now_s opts) s1"]
    by (simp add: s1 split_beta) blast
qed

lemma chunk_event_mono: "chunk_event D cfg opts T rows e \<Longrightarrow> set rows \<subseteq> set rows' \<Longrightarrow> chunk_event D cfg opts T rows' e"
  unfolding chunk_event_def by blast

lemma validation_rows_ring:
  fixes s :: "'v Server"
  shows "\<exists>es. as_ring (snd (snd (validation_rows H D cfg opts ws (\<lambda>_ _ s. s) i rows events s))) = foldl Push (as_ring s) es \<and>
     map Some (token_events es) =
       map snd (filter (\<lambda>((tok, sid), r). tok \<noteq> None) (zip rows (fst (validation_rows H D cfg opts ws (\<lambda>_ _ s. s) i rows events s)))) \<and>
     list_all (chunk_event D cfg opts TYPE('v Server) rows) es"
proof (induction rows arbitrary: i events s)
  case Nil
  show ?case by (intro exI [of _ "[]"]) (simp add: token_events_def)
next
  case (Cons r rows)
  obtain tok sid where r: "r = (tok, sid)" by (cases r)
  have later: "list_all (chunk_event D cfg opts TYPE('v Server) (r # rows)) es" if "list_all (chunk_event D cfg opts TYPE('v Server) rows) es" for es
    using that chunk_event_mono [of D cfg opts "TYPE('v Server)" rows _ "r # rows"] by (auto simp: list_all_iff)
  show ?case
  proof (cases tok)
    case None
    then show ?thesis using Cons.IH [of "Suc i" events s] later by (simp add: r split_beta) blast
  next
    case (Some raw)
    obtain ok ev1 s1 where o: "one_row H D cfg opts ws (\<lambda>_ s. s) raw sid events s = (ok, ev1, s1)" by (rule prod_cases3)
    obtain es1 where 1: "as_ring s1 = foldl Push (as_ring s) es1" "token_events es1 = [ok]"
        "list_all (chunk_event D cfg opts TYPE('v Server) [r]) es1"
      using one_row_ring [of H D cfg opts ws raw sid events s] unfolding o r Some by auto
    then have first: "list_all (chunk_event D cfg opts TYPE('v Server) (r # rows)) es1"
      using chunk_event_mono [of D cfg opts "TYPE('v Server)" "[r]" _ "r # rows"] by (auto simp: list_all_iff)
    obtain rs ev2 s2 where v: "validation_rows H D cfg opts ws (\<lambda>_ _ s. s) (Suc i) rows ev1 s1 = (rs, ev2, s2)" by (rule prod_cases3)
    obtain es2 where 2: "as_ring s2 = foldl Push (as_ring s1) es2"
        "map Some (token_events es2) = map snd (filter (\<lambda>((tok, sid), r). tok \<noteq> None) (zip rows rs))"
        "list_all (chunk_event D cfg opts TYPE('v Server) rows) es2"
      using Cons.IH [of "Suc i" ev1 s1] unfolding v by auto
    show ?thesis
      using 1(1,2) 2(1,2) first later [OF 2(3)] by (intro exI [of _ "es1 @ es2"]) (simp add: r Some o v token_events_def)
  qed
qed

text \<open>A key is quiet when a warning for it was logged in the last 30 seconds.\<close>

definition quiet :: "seconds \<Rightarrow> throttle_log \<Rightarrow> string \<Rightarrow> bool" where
  "quiet now_s logged k \<longleftrightarrow> (case map_of logged k of Some t \<Rightarrow> t \<le> now_s \<and> now_s - t < 30 | None \<Rightarrow> False)"

lemma quiet_iff: "quiet now_s logged k \<longleftrightarrow> (\<exists>t. map_of logged k = Some t \<and> t \<le> now_s \<and> now_s - t < 30)"
  by (simp add: quiet_def split: option.split)

lemma log_throttled_one_quiet:
  "log_throttled_one now_s s x =
     (if quiet now_s (sv_last_throttle_logged_s s) (throttle_key x) then s
      else s\<lparr>sv_last_throttle_logged_s := AList.update (throttle_key x) now_s (sv_last_throttle_logged_s s),
             as_log := as_log s @ [(WARNING, throttle_warning x)]\<rparr>)"
  by (simp add: log_throttled_one_def quiet_def Let_def split: option.split)

lemma log_throttled_fold:
  "\<exists>ws. as_log (foldl (log_throttled_one now_s) s xs) = as_log s @ map (\<lambda>e. (WARNING, throttle_warning e)) ws \<and>
     set ws \<subseteq> set xs \<and> distinct (map throttle_key ws) \<and>
     throttle_key ` set ws = {k \<in> throttle_key ` set xs. \<not> quiet now_s (sv_last_throttle_logged_s s) k}"
proof (induction xs arbitrary: s)
  case (Cons x xs)
  let ?s = "log_throttled_one now_s s x"
  obtain ws where w: "as_log (foldl (log_throttled_one now_s) ?s xs) = as_log ?s @ map (\<lambda>e. (WARNING, throttle_warning e)) ws"
      "set ws \<subseteq> set xs" "distinct (map throttle_key ws)"
      "throttle_key ` set ws = {k \<in> throttle_key ` set xs. \<not> quiet now_s (sv_last_throttle_logged_s ?s) k}"
    using Cons.IH [of ?s] by blast
  show ?case
  proof (cases "quiet now_s (sv_last_throttle_logged_s s) (throttle_key x)")
    case True
    then have "?s = s" by (simp add: log_throttled_one_quiet [of now_s s x])
    then show ?thesis using w True by (intro exI [of _ ws]) auto
  next
    case False
    let ?l = "AList.update (throttle_key x) now_s (sv_last_throttle_logged_s s)"
    have q: "quiet now_s ?l k \<longleftrightarrow> k = throttle_key x \<or> quiet now_s (sv_last_throttle_logged_s s) k" for k
      by (simp add: quiet_def)
    have "throttle_key ` set ws = {k \<in> throttle_key ` set xs. k \<noteq> throttle_key x \<and> \<not> quiet now_s (sv_last_throttle_logged_s s) k}"
      using w(4) False by (simp add: log_throttled_one_quiet [of now_s s x] q)
    moreover have "as_log ?s = as_log s @ [(WARNING, throttle_warning x)]"
      using False by (simp add: log_throttled_one_quiet [of now_s s x])
    ultimately show ?thesis
      using w(1-3) False by (intro exI [of _ "x # ws"]) auto
  qed
qed simp

section \<open>Lemmas on the plaintext guard\<close>

lemma guard_rows_Cons:
  "guard_rows H (row # rows) =
     (if h_IsNull H (row ! 0) \<or> local_listener (h_String H (row ! 0)) then guard_rows H rows
      else Inl (PlaintextListener (h_String H (row ! 0))))"
  by (simp add: Let_def listener_host)

lemma guard_rows_local:
  "list_all (\<lambda>row. h_IsNull H (row ! 0) \<or> local_listener (h_String H (row ! 0))) rows \<Longrightarrow> guard_rows H rows = Inr ()"
  by (induction rows) (simp, simp only: guard_rows_Cons list.pred_inject if_True simp_thms)

lemma guard_rows_refuses:
  "\<not> list_all (\<lambda>row. h_IsNull H (row ! 0) \<or> local_listener (h_String H (row ! 0))) rows \<Longrightarrow>
   \<exists>row \<in> set rows. \<not> h_IsNull H (row ! 0) \<and> \<not> local_listener (h_String H (row ! 0)) \<and>
     guard_rows H rows = Inl (PlaintextListener (h_String H (row ! 0)))"
proof (induction rows)
  case (Cons r rows)
  then show ?case unfolding guard_rows_Cons by (cases "h_IsNull H (r ! 0) \<or> local_listener (h_String H (r ! 0))") auto
qed simp

section \<open>Properties\<close>


text \<open>
  C34: Tokens are refused while a listener is reachable from outside. When the operator trusts plaintext, or
  the listeners cannot be listed (the query of the host fails), or every listed address is local, both token functions go on to
  validate; otherwise both raise an error that names a listed address that is not local, whatever
  the tokens, and no token is validated. An address is local when it reads as \<open>quack:\<close> or \<open>quack://\<close>,
  a name of the loopback interface and possibly a port (whatever follows a bracketed address is not read);
  an unlisted (null) address does not count.
\<close>

theorem plaintext_guard_correct:
  "if (\<exists>v. setting H ''quack_oauth_trust_plaintext'' = Some v \<and> h_Bool H v) \<or>
      h_query H ''SELECT listen_uri FROM quack_server_list()'' = None \<or>
      list_all (\<lambda>row. h_IsNull H (row ! 0) \<or> local_listener (h_String H (row ! 0)))
        (the (h_query H ''SELECT listen_uri FROM quack_server_list()''))
   then CheckTokenScalarFun1 H D others now_s tokens s = ValidateChunk H D False others now_s (map (\<lambda>t. (t, None)) tokens) s \<and>
     CheckTokenScalarFun3 H D others now_s args s = ValidateChunk H D True others now_s (map (\<lambda>(sid, auth, psk). (auth, sid)) args) s
   else \<exists>row \<in> set (the (h_query H ''SELECT listen_uri FROM quack_server_list()'')).
     \<not> h_IsNull H (row ! 0) \<and> \<not> local_listener (h_String H (row ! 0)) \<and>
     CheckTokenScalarFun1 H D others now_s tokens s = Inl (PlaintextListener (h_String H (row ! 0))) \<and>
     CheckTokenScalarFun3 H D others now_s args s = Inl (PlaintextListener (h_String H (row ! 0)))"
    (is "if ?trusted \<or> h_query H ?sql = None \<or> ?local then ?go else ?refuse")
proof -
  have guard: "EnforcePlaintextGuard H =
      (if ?trusted \<or> h_query H ?sql = None then Inr () else guard_rows H (the (h_query H ?sql)))"
    by (auto simp: EnforcePlaintextGuard_def split: option.split)
  have go: ?go if "EnforcePlaintextGuard H = Inr ()"
    by (simp only: CheckTokenScalarFun1_def CheckTokenScalarFun3_def that sum.case)
  show ?thesis
  proof (cases "?trusted \<or> h_query H ?sql = None")
    case True
    then have free: "?trusted \<or> h_query H ?sql = None \<or> ?local" by blast
    have "EnforcePlaintextGuard H = Inr ()" unfolding guard by (rule if_P [OF True])
    from go [OF this] show ?thesis unfolding if_P [OF free] .
  next
    case False
    then have g: "EnforcePlaintextGuard H = guard_rows H (the (h_query H ?sql))" unfolding guard by (rule if_not_P)
    show ?thesis
    proof (cases ?local)
      case True
      then have free: "?trusted \<or> h_query H ?sql = None \<or> ?local" by blast
      from go [OF g [unfolded guard_rows_local [OF True]]] show ?thesis unfolding if_P [OF free] .
    next
      case no: False
      then obtain row where row: "row \<in> set (the (h_query H ?sql))" "\<not> h_IsNull H (row ! 0)" "\<not> local_listener (h_String H (row ! 0))"
          "EnforcePlaintextGuard H = Inl (PlaintextListener (h_String H (row ! 0)))"
        unfolding g using guard_rows_refuses by blast
      then have ?refuse by (intro bexI [of _ row]) (simp_all add: CheckTokenScalarFun1_def CheckTokenScalarFun3_def)
      moreover have "\<not> (?trusted \<or> h_query H ?sql = None \<or> ?local)" using False no by blast
      ultimately show ?thesis by (simp only: if_False)
    qed
  qed
qed

text \<open>
  C7: A configuration that loads is usable and safe. Its mode is one of the four, the endpoint the mode
  asks is present, short, free of control characters and either \<open>https\<close> or a loopback URL, the
  credentials a GitHub check needs are present, and the clock skew is between zero and one hour.
\<close>

theorem server_config_safe:
  assumes "LoadServerConfig H = Inr cfg"
  shows "sc_mode cfg \<in> {''jwks'', ''introspect'', ''tokeninfo'', ''github_check''} \<and>
    0 \<le> sc_clock_skew_s cfg \<and> sc_clock_skew_s cfg \<le> 3600 \<and>
    (sc_mode cfg = ''github_check'' \<longrightarrow> sc_introspect_client_id cfg \<noteq> [] \<and> sc_introspect_client_secret cfg \<noteq> []) \<and>
    (let url = (if sc_mode cfg = ''jwks'' then sc_jwks_uri cfg else sc_introspection_endpoint cfg)
     in url \<noteq> [] \<and> length url \<le> 2048 \<and> list_all (\<lambda>c. \<not> url_char_bad c) url \<and>
        (starts_with url ''https://'' \<or> starts_with url ''http://'' \<and> IsLocalhostUrl url))"
proof -
  obtain accessor secret_name where p: "ApplyProviderPreset H accessor (ReadServerConfigCore H accessor) = Inr cfg"
      and v: "ValidateServerConfig cfg secret_name = Inr ()"
    using assms by (auto simp: LoadServerConfig_def Let_def split: if_splits sum.splits)
  have "sc_clock_skew_s cfg = sc_clock_skew_s (ReadServerConfigCore H accessor)"
    using p by (auto simp: ApplyProviderPreset_def Let_def split: if_splits)
  then have skew: "0 \<le> sc_clock_skew_s cfg" "sc_clock_skew_s cfg \<le> 3600"
    using clamp_bounds [of 0 3600] by (simp_all add: ReadServerConfigCore_def Let_def)
  let ?url = "if sc_mode cfg = ''jwks'' then sc_jwks_uri cfg else sc_introspection_endpoint cfg"
  have m: "sc_mode cfg \<in> {''jwks'', ''introspect'', ''tokeninfo'', ''github_check''}" "?url \<noteq> []"
      "\<exists>f. ValidateHttpUrl f ?url = Inr ()"
      "sc_mode cfg = ''github_check'' \<Longrightarrow> sc_introspect_client_id cfg \<noteq> [] \<and> sc_introspect_client_secret cfg \<noteq> []"
    using v by (auto simp: ValidateServerConfig_def split: if_splits)
  then obtain f where "ValidateHttpUrl f ?url = Inr ()" by blast
  from ValidateHttpUrl_Inr [OF this m(2)] show ?thesis
    using m(1,2,4) skew by (simp add: Let_def list_all_iff)
qed

text \<open>
  C40: Throttled refreshes cannot flood the log or the memory, nor forge log lines. The table of logged warnings keeps
  at most 1000 entries. The warnings of a chunk are for events of the chunk, exactly one for each key
  (sanitised kid, reason and sanitised provider) that was not logged in the last 30 seconds and none for another, and
  every character of a warning is printable ASCII, whatever the bytes of the kid.
\<close>

theorem throttled_warnings_bounded:
  assumes "enumerates iter" "distinct (map fst (sv_last_throttle_logged_s s))" "length (sv_last_throttle_logged_s s) \<le> 1000"
  shows "length (sv_last_throttle_logged_s (LogThrottledEvents iter events now_s s)) \<le> 1000 \<and>
    (\<exists>ws. as_log (LogThrottledEvents iter events now_s s) = as_log s @ map (\<lambda>e. (WARNING, throttle_warning e)) ws \<and>
       set ws \<subseteq> set events \<and> distinct (map throttle_key ws) \<and>
       throttle_key ` set ws =
         {k \<in> throttle_key ` set events.
            \<not> (\<exists>t. map_of (sv_last_throttle_logged_s s) k = Some t \<and> t \<le> now_s \<and> now_s - t < 30)} \<and>
       list_all (\<lambda>e. printable (throttle_warning e)) ws)"
proof (cases "events = []")
  case False
  let ?u = "remdups_adj (sort_key (\<lambda>e. (tl_kid e, tl_reason e, tl_jwks_uri e)) events)"
  have "length (trim_throttle_log iter now_s (sv_last_throttle_logged_s (foldl (log_throttled_one now_s) s ?u))) \<le> 1000"
    using assms(1) log_throttled_distinct [OF assms(2)] by (rule trim_throttle_log_bound)
  with False log_throttled_fold [of now_s s ?u] throttle_warning_printable show ?thesis
    unfolding quiet_iff by (simp add: LogThrottledEvents_def Let_def list_all_iff)
qed (use assms(3) in \<open>simp add: LogThrottledEvents_def exI [of _ "[]"]\<close>)

section \<open>Witnesses\<close>

definition sample_host :: "dbval Host" where
  "sample_host =
     plain_host
       [(''quack_oauth_server_secret_name'', StrV ''srv''), (''quack_oauth_clock_skew_s'', IntV 9999)]
       [(''srv'', \<lparr>sec_type = ''quack_oauth_server'',
          sec_map = [(''issuer'', StrV ''https://idp.example''), (''audience'', StrV ''api''),
                     (''jwks_uri'', StrV ''https://idp.example/keys'')],
          sec_redact_keys = []\<rparr>)]
       []"

definition sample_config :: ServerConfig where
  "sample_config = \<lparr>sc_mode = ''jwks'', sc_issuer = ''https://idp.example'', sc_audience = ''api'', sc_clock_skew_s = 3600,
     sc_jwks_uri = ''https://idp.example/keys'', sc_introspection_endpoint = [], sc_introspect_client_id = [],
     sc_introspect_client_secret = []\<rparr>"

definition sample_throttled :: ThrottledLogEvent where
  "sample_throttled = \<lparr>tl_kid = ''k1'', tl_reason = ''refresh_throttled'', tl_jwks_uri = []\<rparr>"

lemma sample_config_loads: "LoadServerConfig sample_host = Inr sample_config"
  by code_simp

lemma server_config_safe_witness:
  "LoadServerConfig sample_host = Inr sample_config \<and> sc_clock_skew_s sample_config \<le> 3600 \<and>
   starts_with (sc_jwks_uri sample_config) ''https://''"
proof -
  have m: "sc_mode sample_config = ''jwks''" "\<not> starts_with (sc_jwks_uri sample_config) ''http://''" by code_simp+
  show ?thesis
    using server_config_safe [OF sample_config_loads] sample_config_loads m by (simp add: Let_def)
qed

lemma throttled_warnings_bounded_witness:
  "length (sv_last_throttle_logged_s (LogThrottledEvents (\<lambda>m. m) [sample_throttled, sample_throttled] 100 (sample_server 0 0))) \<le> 1000 \<and>
   as_log (LogThrottledEvents (\<lambda>m. m) [sample_throttled, sample_throttled] 100 (sample_server 0 0)) =
     as_log (sample_server 0 0) @ [(WARNING, throttle_warning sample_throttled)]"
proof -
  have s: "sv_last_throttle_logged_s (sample_server 0 0) = []" by (simp add: sample_server_def new_QuackOauthState_def)
  obtain ws where w: "as_log (LogThrottledEvents (\<lambda>m. m) [sample_throttled, sample_throttled] 100 (sample_server 0 0)) =
        as_log (sample_server 0 0) @ map (\<lambda>e. (WARNING, throttle_warning e)) ws"
      "set ws \<subseteq> {sample_throttled}" "distinct (map throttle_key ws)" "throttle_key ` set ws = {throttle_key sample_throttled}"
      "length (sv_last_throttle_logged_s (LogThrottledEvents (\<lambda>m. m) [sample_throttled, sample_throttled] 100 (sample_server 0 0))) \<le> 1000"
    using throttled_warnings_bounded [OF enumerates_id, of "sample_server 0 0" "[sample_throttled, sample_throttled]" 100] s by auto
  have "ws = [sample_throttled]"
    using w(2-4) by (cases ws; cases "tl ws") auto
  with w(1,5) show ?thesis by simp
qed

end
