(* ===== verification/Iso_Time.thy ===== *)
theory Iso_Time
  imports Http_Json "HOL-Library.Signed_Division"
begin

text \<open>
  The time stamps on client secrets: \<open>FormatUtcIso8601\<close> (platform_time.cpp) prints one,
  \<open>ParseIso8601ToUnixSeconds\<close> (acquire_function.cpp) reads it back.

  \<^item> \<open>gmtime_r\<close> is the C library's: the calendar is counted day by day from the epoch, four centuries
    (146097 days) at a time. It fails when the year does not fit an \<open>int\<close>, and then leaves the zeroed
    \<open>tm\<close> of the caller in place.
  \<^item> \<open>put_time\<close> writes the year without padding and the other fields with two digits.
  \<^item> The reader's divisions are those of C++, towards zero.
\<close>

record tm =
  tm_year :: int
  tm_mon :: int
  tm_mday :: int
  tm_hour :: int
  tm_min :: int
  tm_sec :: int

definition zero_tm :: tm where
  "zero_tm = \<lparr>tm_year = 0, tm_mon = 0, tm_mday = 0, tm_hour = 0, tm_min = 0, tm_sec = 0\<rparr>"

section \<open>The calendar\<close>

definition leap_year :: "int \<Rightarrow> bool" where
  "leap_year y \<longleftrightarrow> (4 dvd y \<and> \<not> 100 dvd y) \<or> 400 dvd y"

definition year_length :: "int \<Rightarrow> nat" where
  "year_length y = (if leap_year y then 366 else 365)"

definition month_lengths :: "int \<Rightarrow> nat list" where
  "month_lengths y = [31, if leap_year y then 29 else 28, 31, 30, 31, 30, 31, 31, 30, 31, 30, 31]"

text \<open>Day \<open>d\<close> from the start of year \<open>y\<close> falls into which year, and on which day of it.\<close>

function find_year :: "int \<Rightarrow> nat \<Rightarrow> int \<times> nat" where
  "find_year y d = (if d < year_length y then (y, d) else find_year (y + 1) (d - year_length y))"
  by pat_completeness auto
termination
  by (relation "measure snd") (auto simp: year_length_def split: if_splits)

declare find_year.simps [simp del]

fun find_month :: "nat list \<Rightarrow> nat \<Rightarrow> nat \<times> nat" where
  "find_month [] d = (0, d)"
| "find_month (l # ls) d = (if d < l then (0, d) else (case find_month ls (d - l) of (m, r) \<Rightarrow> (Suc m, r)))"

definition civil_date :: "int \<Rightarrow> int \<times> nat \<times> nat" where
  "civil_date days =
     (let (y, yd) = find_year (1970 + 400 * (days div 146097)) (nat (days mod 146097));
          (m, md) = find_month (month_lengths y) yd
      in (y, m, md))"

definition gmtime_r :: "seconds \<Rightarrow> tm option" where
  "gmtime_r t =
     (let secs = t mod 86400; (y, m, md) = civil_date (t div 86400)
      in if y - 1900 < - (2 ^ 31) \<or> 2 ^ 31 \<le> y - 1900 then None
         else Some \<lparr>tm_year = y - 1900, tm_mon = int m, tm_mday = int md + 1, tm_hour = secs div 3600,
                    tm_min = secs mod 3600 div 60, tm_sec = secs mod 60\<rparr>)"

section \<open>Printing (platform_time.cpp)\<close>

definition two_digits :: "int \<Rightarrow> string" where
  "two_digits n = [char_of (48 + nat (n div 10)), char_of (48 + nat (n mod 10))]"

definition put_time :: "tm \<Rightarrow> string" where
  "put_time b =
     int_to_string (tm_year b + 1900) @ ''-'' @ two_digits (tm_mon b + 1) @ ''-'' @ two_digits (tm_mday b) @ ''T'' @
     two_digits (tm_hour b) @ '':'' @ two_digits (tm_min b) @ '':'' @ two_digits (tm_sec b) @ ''Z''"

definition FormatUtcIso8601 :: "seconds \<Rightarrow> string" where
  "FormatUtcIso8601 unix_seconds = put_time (case gmtime_r unix_seconds of Some b \<Rightarrow> b | None \<Rightarrow> zero_tm)"

section \<open>Reading (acquire_function.cpp)\<close>

definition kDaysBeforeMonth :: "int list" where
  "kDaysBeforeMonth = [0, 31, 59, 90, 120, 151, 181, 212, 243, 273, 304, 334]"

definition iso_tm :: "string \<Rightarrow> tm option" where
  "iso_tm str =
     (let field = (\<lambda>pos n. stoi (take n (drop pos str)))
      in case (field 0 4, field 5 2, field 8 2, field 11 2, field 14 2, field 17 2) of
           (Some y, Some mo, Some d, Some h, Some mi, Some sec) \<Rightarrow>
             Some \<lparr>tm_year = y - 1900, tm_mon = mo - 1, tm_mday = d, tm_hour = h, tm_min = mi, tm_sec = sec\<rparr>
         | _ \<Rightarrow> None)"

definition days_before_year :: "int \<Rightarrow> int" where
  "days_before_year year =
     365 * (year - 1970) + (year - 1969) sdiv 4 - (year - 1901) sdiv 100 + (year - 1601) sdiv 400"

definition tm_seconds :: "tm \<Rightarrow> seconds" where
  "tm_seconds b =
     (let year = tm_year b + 1900;
          leap = (4 dvd year \<and> \<not> 100 dvd year \<or> 400 dvd year);
          yday = kDaysBeforeMonth ! nat (tm_mon b) + (tm_mday b - 1) + (if 1 < tm_mon b \<and> leap then 1 else 0)
      in (days_before_year year + yday) * 86400 + tm_hour b * 3600 + tm_min b * 60 + tm_sec b)"

definition tm_out_of_range :: "tm \<Rightarrow> bool" where
  "tm_out_of_range b \<longleftrightarrow>
     tm_mon b < 0 \<or> 11 < tm_mon b \<or> tm_mday b < 1 \<or> 31 < tm_mday b \<or> tm_hour b < 0 \<or> 23 < tm_hour b \<or>
     tm_min b < 0 \<or> 59 < tm_min b \<or> tm_sec b < 0 \<or> 60 < tm_sec b"

definition ParseIso8601ToUnixSeconds :: "string \<Rightarrow> seconds" where
  "ParseIso8601ToUnixSeconds str =
     (if length str < 20 \<or> str ! 10 \<noteq> CHR ''T'' \<or> str ! 19 \<noteq> CHR ''Z'' then 0
      else case iso_tm str of
        None \<Rightarrow> 0
      | Some b \<Rightarrow> if tm_out_of_range b then 0 else tm_seconds b)"

section \<open>Counting days\<close>

lemma sdiv_nonneg: "0 \<le> a \<Longrightarrow> 0 < b \<Longrightarrow> a sdiv b = a div b" for a b :: int
  by (cases "a = 0") (simp_all add: signed_divide_int_def)

lemma div_succ: "0 < n \<Longrightarrow> (a + 1) div n = a div n + of_bool (n dvd a + 1)" for a n :: int
proof -
  assume n: "0 < n"
  have "a + 1 = (a mod n + 1) + a div n * n" by simp
  then have "(a + 1) div n = a div n + (a mod n + 1) div n" "n dvd a + 1 \<longleftrightarrow> n dvd a mod n + 1"
    using n by (metis div_mult_self1 less_irrefl add.commute, simp add: dvd_eq_mod_eq_0 mod_add_left_eq)
  moreover have "a mod n + 1 = n \<or> 0 < a mod n + 1 \<and> a mod n + 1 < n"
    using pos_mod_bound [OF n, of a] pos_mod_sign [OF n, of a] by linarith
  ultimately show ?thesis using n zdvd_imp_le [of n "a mod n + 1"] by auto
qed

lemma dvd_shift: "n dvd m \<Longrightarrow> n dvd y - m \<longleftrightarrow> n dvd y" for n m y :: int
  by (metis diff_add_cancel dvd_add dvd_diff)

lemma days_before_year_div:
  "1970 \<le> y \<Longrightarrow> days_before_year y = 365 * (y - 1970) + (y - 1969) div 4 - (y - 1901) div 100 + (y - 1601) div 400"
  by (simp add: days_before_year_def sdiv_nonneg)

lemma year_length_dvd: "int (year_length y) = 365 + of_bool (4 dvd y) - of_bool (100 dvd y) + of_bool (400 dvd y)"
proof -
  have "100 dvd y \<Longrightarrow> 4 dvd y" "400 dvd y \<Longrightarrow> 100 dvd y"
    using dvd_trans [of 4 100 y] dvd_trans [of 100 400 y] by simp_all
  then show ?thesis
    unfolding year_length_def leap_year_def by (cases "4 dvd y"; cases "100 dvd y"; cases "400 dvd y") simp_all
qed

lemma div_year:
  fixes n m y :: int
  assumes "0 < n" "n dvd m"
  shows "(y + 1 - (m + 1)) div n = (y - (m + 1)) div n + of_bool (n dvd y)"
proof -
  have e: "y + 1 - (m + 1) = (y - (m + 1)) + 1" by simp
  have "(y - (m + 1)) + 1 = y - m" by simp
  then have d: "n dvd (y - (m + 1)) + 1 \<longleftrightarrow> n dvd y" using dvd_shift [OF assms(2), of y] by simp
  show ?thesis unfolding e div_succ [OF assms(1)] d ..
qed

lemma days_before_year_succ:
  assumes "1970 \<le> y"
  shows "days_before_year (y + 1) = days_before_year y + int (year_length y)"
proof -
  have y1: "1970 \<le> y + 1" using assms by simp
  have "(y + 1 - 1969) div 4 = (y - 1969) div 4 + of_bool (4 dvd y)" using div_year [of 4 1968 y] by simp
  moreover have "(y + 1 - 1901) div 100 = (y - 1901) div 100 + of_bool (100 dvd y)" using div_year [of 100 1900 y] by simp
  moreover have "(y + 1 - 1601) div 400 = (y - 1601) div 400 + of_bool (400 dvd y)" using div_year [of 400 1600 y] by simp
  ultimately show ?thesis
    unfolding days_before_year_div [OF assms] days_before_year_div [OF y1] year_length_dvd by (simp only: algebra_simps)
qed

lemma days_before_year_mono:
  assumes "1970 \<le> y" "y \<le> z"
  shows "days_before_year y \<le> days_before_year z"
  using assms(2) by (induction z rule: int_ge_induct) (use assms(1) in \<open>auto simp: days_before_year_succ\<close>)

lemma days_before_cycle: "0 \<le> k \<Longrightarrow> days_before_year (1970 + 400 * k) = 146097 * k"
proof -
  have "(1 + 400 * k) div 4 = 100 * k" "(69 + 400 * k) div 100 = 4 * k" "(369 + 400 * k) div 400 = k"
    using div_mult_self2 [of 4 1 "100 * k"] div_mult_self2 [of 100 69 "4 * k"] div_mult_self2 [of 400 369 k] by simp_all
  then show "0 \<le> k \<Longrightarrow> ?thesis" by (simp add: days_before_year_div)
qed

lemma find_year_correct:
  "1970 \<le> y \<Longrightarrow> find_year y d = (z, yd) \<Longrightarrow>
   y \<le> z \<and> yd < year_length z \<and> days_before_year z + int yd = days_before_year y + int d"
proof (induction y d rule: find_year.induct)
  case (1 y d)
  show ?case
  proof (cases "d < year_length y")
    case True
    then show ?thesis using 1 by (simp add: find_year.simps [of y d])
  next
    case False
    then show ?thesis using 1 by (auto simp: find_year.simps [of y d] days_before_year_succ)
  qed
qed

lemma find_month_correct:
  "find_month ls d = (m, r) \<Longrightarrow> d < sum_list ls \<Longrightarrow> m < length ls \<and> r < ls ! m \<and> d = sum_list (take m ls) + r"
proof (induction ls arbitrary: d m r)
  case (Cons l ls)
  show ?case
  proof (cases "d < l")
    case False
    obtain m' r' where "find_month ls (d - l) = (m', r')" by fastforce
    moreover from False Cons.prems have "d - l < sum_list ls" by simp
    ultimately show ?thesis using Cons.IH [of "d - l" m' r'] Cons.prems False by auto
  qed (use Cons.prems in auto)
qed simp

lemma sum_month_lengths: "sum_list (month_lengths y) = year_length y"
  by (simp add: month_lengths_def year_length_def)

lemma less_12_cases: "m < 12 \<Longrightarrow> m \<in> set [0 ..< 12]" for m :: nat
  by simp

lemma days_before_month:
  assumes "m < 12"
  shows "int (sum_list (take m (month_lengths y))) = kDaysBeforeMonth ! m + (if 1 < m \<and> leap_year y then 1 else 0)"
    and "month_lengths y ! m \<le> 31"
  using less_12_cases [OF assms] by (auto simp: upt_rec month_lengths_def kDaysBeforeMonth_def)

text \<open>The calendar and the reader's count agree from the epoch on.\<close>

lemma civil_date_correct:
  assumes "0 \<le> days" "civil_date days = (y, m, md)"
  shows "1970 \<le> y" "m < 12" "md < 31"
    and "days = days_before_year y + (kDaysBeforeMonth ! m + int md + (if 1 < m \<and> leap_year y then 1 else 0))"
    and "y < 10000 \<longleftrightarrow> days < 2932897"
proof -
  obtain yd where y: "find_year (1970 + 400 * (days div 146097)) (nat (days mod 146097)) = (y, yd)"
      "find_month (month_lengths y) yd = (m, md)"
    using assms(2) by (auto simp: civil_date_def Let_def split: prod.splits)
  have c: "0 \<le> days div 146097" using assms(1) by (simp add: pos_imp_zdiv_nonneg_iff)
  have "1970 + 400 * (days div 146097) \<le> y \<and> yd < year_length y \<and>
      days_before_year y + int yd = 146097 * (days div 146097) + int (nat (days mod 146097))"
    using find_year_correct [OF _ y(1)] days_before_cycle [of "days div 146097"] c by simp
  then have fy: "1970 \<le> y" "yd < year_length y" "days_before_year y + int yd = days" using c by simp_all
  have fm: "m < 12" "md < month_lengths y ! m" "yd = sum_list (take m (month_lengths y)) + md"
    using find_month_correct [OF y(2)] fy(2) by (simp_all add: sum_month_lengths) (simp add: month_lengths_def)
  show "1970 \<le> y" "m < 12" "md < 31" using fy(1) fm days_before_month(2) [OF fm(1), of y] by simp_all
  show "days = days_before_year y + (kDaysBeforeMonth ! m + int md + (if 1 < m \<and> leap_year y then 1 else 0))"
    using fy(3) fm(3) days_before_month(1) [OF fm(1), of y] by simp
  have "days_before_year 10000 = 2932897" by (simp add: days_before_year_div)
  then have "y < 10000 \<Longrightarrow> days_before_year (y + 1) \<le> 2932897" "\<not> y < 10000 \<Longrightarrow> 2932897 \<le> days_before_year y"
    using days_before_year_mono [of "y + 1" 10000] days_before_year_mono [of 10000 y] fy(1) by simp_all
  with fy days_before_year_succ [OF fy(1)] show "y < 10000 \<longleftrightarrow> days < 2932897" by linarith
qed

lemma hours_minutes_seconds:
  fixes secs :: int
  assumes "0 \<le> secs" "secs < 86400"
  shows "secs div 3600 * 3600 + secs mod 3600 div 60 * 60 + secs mod 60 = secs"
    and "0 \<le> secs div 3600" "secs div 3600 \<le> 23" "0 \<le> secs mod 3600 div 60" "secs mod 3600 div 60 \<le> 59"
      "0 \<le> secs mod 60" "secs mod 60 \<le> 60"
proof -
  have "secs mod 3600 mod 60 = secs mod 60" by (simp add: mod_mod_cancel)
  then show "secs div 3600 * 3600 + secs mod 3600 div 60 * 60 + secs mod 60 = secs"
    using div_mult_mod_eq [of secs 3600] div_mult_mod_eq [of "secs mod 3600" 60] by linarith
qed (use assms in \<open>simp_all add: pos_imp_zdiv_nonneg_iff\<close>)

lemma gmtime_r_correct:
  assumes "0 \<le> t"
  shows "(case gmtime_r t of
      None \<Rightarrow> 253402300800 \<le> t
    | Some b \<Rightarrow> tm_seconds b = t \<and> \<not> tm_out_of_range b \<and> 1970 \<le> tm_year b + 1900 \<and>
        (tm_year b + 1900 < 10000 \<longleftrightarrow> t < 253402300800))"
proof -
  define days secs where d: "days = t div 86400" "secs = t mod 86400"
  obtain y m md where c: "civil_date days = (y, m, md)" by (cases "civil_date days")
  have t: "t = days * 86400 + secs" "0 \<le> days" "0 \<le> secs" "secs < 86400" using assms by (simp_all add: d)
  note civil = civil_date_correct [OF t(2) c]
  note hms = hours_minutes_seconds [OF t(3,4)]
  have lt: "y < 10000 \<longleftrightarrow> t < 253402300800" using civil(5) t by linarith
  let ?b = "\<lparr>tm_year = y - 1900, tm_mon = int m, tm_mday = int md + 1, tm_hour = secs div 3600,
      tm_min = secs mod 3600 div 60, tm_sec = secs mod 60\<rparr>"
  have g: "gmtime_r t = (if y - 1900 < - (2 ^ 31) \<or> 2 ^ 31 \<le> y - 1900 then None else Some ?b)"
    using c by (simp add: gmtime_r_def Let_def d)
  have "tm_seconds ?b = (days_before_year y + (kDaysBeforeMonth ! m + int md + (if 1 < m \<and> leap_year y then 1 else 0))) * 86400 +
      secs div 3600 * 3600 + secs mod 3600 div 60 * 60 + secs mod 60"
    by (simp add: tm_seconds_def leap_year_def Let_def)
  then have "tm_seconds ?b = t" unfolding civil(4) [symmetric] using t(1) hms(1) by linarith
  moreover have "\<not> tm_out_of_range ?b" using civil(2,3) hms(2-7) by (simp add: tm_out_of_range_def not_less)
  ultimately show ?thesis unfolding g using lt civil(1) by auto
qed

section \<open>Reading what was printed\<close>

lemma digits_value_snoc: "digits_value (ds @ [c]) = digits_value ds * 10 + (int (uc c) - 48)"
  by (simp add: digits_value_def)

lemma digits_value_nat_digits: "digits_value (nat_digits n) = int n"
proof (induction n rule: nat_digits.induct)
  case (1 n)
  show ?case
  proof (cases "n < 10")
    case True
    then show ?thesis by (simp add: nat_digits.simps [of n] digits_value_def uc_char_of)
  next
    case False
    then have "digits_value (nat_digits n) = int (n div 10) * 10 + int (n mod 10)"
      using 1 by (simp add: nat_digits.simps [of n] digits_value_snoc uc_char_of)
    also have "\<dots> = int n" by presburger
    finally show ?thesis .
  qed
qed

lemma length_nat_digits_less: "n < 10 ^ k \<Longrightarrow> 0 < k \<Longrightarrow> length (nat_digits n) \<le> k"
proof (induction k arbitrary: n)
  case (Suc k)
  then show ?case by (cases "n < 10"; cases "k = 0") (auto simp: nat_digits.simps [of n] less_mult_imp_div_less mult.commute)
qed simp

lemma length_nat_digits_ge: "10 ^ k \<le> n \<Longrightarrow> k < length (nat_digits n)"
proof (induction k arbitrary: n)
  case (Suc k)
  have "10 ^ k \<le> n div 10" using Suc.prems by (simp add: less_eq_div_iff_mult_less_eq mult.commute)
  moreover from Suc.prems have "10 * 10 ^ k \<le> n" by simp
  then have "\<not> n < 10" using one_le_power [of "10::nat" k] by linarith
  ultimately show ?case using Suc.IH by (simp add: nat_digits.simps [of n])
qed simp

lemma stoi_digits:
  assumes "ds \<noteq> []" "\<And>c. c \<in> set ds \<Longrightarrow> digit_char c" "0 \<le> digits_value ds" "digits_value ds < 2 ^ 31"
  shows "stoi ds = Some (digits_value ds)"
proof -
  obtain c cs where c: "ds = c # cs" using assms(1) by (cases ds) auto
  have "\<not> is_space c" "c \<noteq> CHR ''-''" "c \<noteq> CHR ''+''"
    using assms(2) [of c] c by (auto simp: digit_char_def is_space_def uc_def)
  moreover have "takeWhile is_digit ds = ds"
    using assms(2) by (auto simp: takeWhile_eq_all_conv digit_char_def is_digit_def)
  ultimately show ?thesis using assms(3,4) c by (simp add: stoi_def stoll_def)
qed

lemma two_digits_digits: "0 \<le> n \<Longrightarrow> n < 100 \<Longrightarrow> c \<in> set (two_digits n) \<Longrightarrow> digit_char c"
  by (auto simp: two_digits_def digit_char_def uc_char_of)

lemma stoi_two_digits:
  assumes "0 \<le> n" "n < 100"
  shows "stoi (two_digits n) = Some n"
proof -
  have "digits_value (two_digits n) = n" using assms
    by (simp add: two_digits_def digits_value_def uc_char_of pos_imp_zdiv_nonneg_iff)
  then show ?thesis using stoi_digits [of "two_digits n"] two_digits_digits assms by (simp add: two_digits_def)
qed

lemma length_two_digits [simp]: "length (two_digits n) = 2"
  by (simp add: two_digits_def)

lemma take_drop_mid: "length xs = p \<Longrightarrow> length ys = n \<Longrightarrow> take n (drop p (xs @ ys @ zs)) = ys"
  by simp

lemma int_to_string_year:
  assumes "1000 \<le> y" "y < 10000"
  shows "length (int_to_string y) = 4" "stoi (int_to_string y) = Some y"
proof -
  have "length (nat_digits (nat y)) = 4"
    using assms length_nat_digits_less [of "nat y" 4] length_nat_digits_ge [of 3 "nat y"] by (simp add: nat_less_iff le_nat_iff)
  moreover have "stoi (nat_digits (nat y)) = Some y"
    using stoi_digits [of "nat_digits (nat y)"] nat_digits_digits [of _ "nat y"] assms by (simp add: digits_value_nat_digits)
  ultimately show "length (int_to_string y) = 4" "stoi (int_to_string y) = Some y" using assms by (simp_all add: int_to_string_def)
qed

lemma iso_tm_put_time:
  assumes "1000 \<le> tm_year b + 1900" "tm_year b + 1900 < 10000" "\<not> tm_out_of_range b"
  shows "iso_tm (put_time b) = Some b" "length (put_time b) = 20" "put_time b ! 10 = CHR ''T''" "put_time b ! 19 = CHR ''Z''"
proof -
  obtain y1 y2 y3 y4 where y: "int_to_string (tm_year b + 1900) = [y1, y2, y3, y4]"
    using int_to_string_year(1) [OF assms(1,2)] by (auto simp: numeral_eq_Suc length_Suc_conv)
  note p = put_time_def y two_digits_def
  show "length (put_time b) = 20" "put_time b ! 10 = CHR ''T''" "put_time b ! 19 = CHR ''Z''" by (simp_all add: p)
  have "take 4 (drop 0 (put_time b)) = int_to_string (tm_year b + 1900)" "take 2 (drop 5 (put_time b)) = two_digits (tm_mon b + 1)"
      "take 2 (drop 8 (put_time b)) = two_digits (tm_mday b)" "take 2 (drop 11 (put_time b)) = two_digits (tm_hour b)"
      "take 2 (drop 14 (put_time b)) = two_digits (tm_min b)" "take 2 (drop 17 (put_time b)) = two_digits (tm_sec b)"
    by (simp_all add: p)
  then show "iso_tm (put_time b) = Some b"
    using assms by (simp add: iso_tm_def int_to_string_year stoi_two_digits tm_out_of_range_def del: drop0)
qed

lemma long_year_not_read:
  assumes "10000 \<le> tm_year b + 1900" "\<not> tm_out_of_range b"
  shows "ParseIso8601ToUnixSeconds (put_time b) = 0"
proof -
  define pre where "pre = int_to_string (tm_year b + 1900) @ ''-'' @ two_digits (tm_mon b + 1) @ ''-'' @ two_digits (tm_mday b)"
  have "10 < length pre"
    using assms(1) length_nat_digits_ge [of 4 "nat (tm_year b + 1900)"] by (simp add: pre_def int_to_string_def)
  moreover have "put_time b = pre @ ''T'' @ two_digits (tm_hour b) @ '':'' @ two_digits (tm_min b) @ '':'' @ two_digits (tm_sec b) @ ''Z''"
    by (simp add: put_time_def pre_def)
  ultimately have "put_time b ! 10 \<in> set pre" by (simp add: nth_append)
  moreover have "c \<noteq> CHR ''T''" if "c \<in> set pre" for c
    using that assms two_digits_digits [of "tm_mon b + 1" c] two_digits_digits [of "tm_mday b" c] nat_digits_digits [of c "nat (tm_year b + 1900)"]
    by (auto simp: pre_def int_to_string_def tm_out_of_range_def digit_char_def uc_def)
  ultimately show ?thesis by (auto simp: ParseIso8601ToUnixSeconds_def)
qed

lemma Parse_FormatUtcIso8601:
  assumes "0 \<le> t"
  shows "ParseIso8601ToUnixSeconds (FormatUtcIso8601 t) = (if t < 253402300800 then t else 0)"
proof (cases "gmtime_r t")
  case None
  have "ParseIso8601ToUnixSeconds (put_time zero_tm) = 0" by code_simp
  then show ?thesis using gmtime_r_correct [OF assms] by (simp add: FormatUtcIso8601_def None)
next
  case (Some b)
  have g: "tm_seconds b = t" "\<not> tm_out_of_range b" "1970 \<le> tm_year b + 1900" "tm_year b + 1900 < 10000 \<longleftrightarrow> t < 253402300800"
    using gmtime_r_correct [OF assms] Some by simp_all
  show ?thesis
    using iso_tm_put_time [of b] long_year_not_read [of b] g
    by (cases "t < 253402300800") (simp_all add: FormatUtcIso8601_def Some ParseIso8601ToUnixSeconds_def)
qed

text \<open>
  C14: Expiry times survive being stored. From the epoch to the end of the year 9999 the reader of an
  \<open>expires_at\<close> field returns exactly the time that was printed; later times, which print with a
  longer year or not at all, read as 0, which stands for unknown.
\<close>

theorem FormatUtcIso8601_roundtrip:
  assumes "0 \<le> t"
  shows "ParseIso8601ToUnixSeconds (FormatUtcIso8601 t) = (if t < 253402300800 then t else 0)"
  using assms by (rule Parse_FormatUtcIso8601)

lemma FormatUtcIso8601_roundtrip_witness: "ParseIso8601ToUnixSeconds (FormatUtcIso8601 1715000000) = 1715000000"
  using FormatUtcIso8601_roundtrip [of 1715000000] by simp

end
