(* ===== verification/Token_Flows.thy ===== *)
theory Token_Flows
  imports Check_Token Iso_Time
begin

text \<open>
  The client side: token endpoint (token_endpoint.cpp), device flow (device_code.cpp), choice of a flow
  (acquire_flow.cpp) and the functions login, refresh, device_login, logout and acquire.

  \<^item> \<open>ClientEnv\<close> is the world of a call: the transport, the clocks, sleeping, standard error and the
    secret manager. \<open>'w\<close> is the state of that world; the secrets are part of the \<open>Host\<close>, which
    \<open>RegisterSecret\<close> changes.
  \<^item> \<open>steady_clock\<close> counts nanoseconds. Sums of a clock and a lifetime that a provider sends are assumed to
    stay within 64 bits, that is, below 292 years of nanoseconds.
  \<^item> A flow that never returns is \<open>None\<close>; the device flow is shown to return.
\<close>

record ('v, 'w) ClientEnv =
  ce_json :: "string \<Rightarrow> json option"
  ce_post :: "'w http_post"
  ce_sleep :: "int \<Rightarrow> 'w \<Rightarrow> 'w"
  ce_now :: "'w \<Rightarrow> seconds"
  ce_steady :: "'w \<Rightarrow> int"
  ce_cerr :: "string \<Rightarrow> 'w \<Rightarrow> 'w"
  ce_register :: "string \<Rightarrow> 'v KeyValueSecret \<Rightarrow> 'v Host \<Rightarrow> 'v Host throws"

text \<open>The client of a flow: one retry after a second.\<close>

definition flow_post :: "('v, 'w) ClientEnv \<Rightarrow> 'w http_post" where
  "flow_post E req w = RunWithRetries 1 1000 (ce_sleep E) (ce_post E req) w"

section \<open>The token endpoint (token_endpoint.cpp)\<close>

record TokenResponse =
  tr_access_token :: string
  tr_refresh_token :: string
  tr_token_type :: string
  tr_scope :: string
  tr_expires_in :: int

definition AsInt :: "json_object \<Rightarrow> string \<Rightarrow> int" where
  "AsInt obj field = (case map_of obj field of Some (JInt i) \<Rightarrow> i | Some (JDouble d) \<Rightarrow> d | _ \<Rightarrow> 0)"

definition ParseTokenResponse :: "(string \<Rightarrow> json option) \<Rightarrow> string \<Rightarrow> TokenResponse option" where
  "ParseTokenResponse json_parse body =
     (case parse_object json_parse body of
        None \<Rightarrow> None
      | Some obj \<Rightarrow>
          (case AsString obj ''access_token'' of
             None \<Rightarrow> None
           | Some at \<Rightarrow>
               if at = [] then None
               else Some \<lparr>tr_access_token = at, tr_refresh_token = GetStringOrEmpty obj ''refresh_token'',
                          tr_token_type = GetStringOrEmpty obj ''token_type'', tr_scope = GetStringOrEmpty obj ''scope'',
                          tr_expires_in = AsInt obj ''expires_in''\<rparr>))"

definition scope_param :: "string \<Rightarrow> string" where
  "scope_param scope = (if scope = [] then [] else ''&scope='' @ UrlEncode scope)"

definition client_credentials_request :: "string \<Rightarrow> string \<Rightarrow> string \<Rightarrow> string \<Rightarrow> PostRequest" where
  "client_credentials_request token_endpoint client_id client_secret scope =
     \<lparr>post_url = token_endpoint, post_body = ''grant_type=client_credentials'' @ scope_param scope,
      content_type = form_urlencoded, basic_user = client_id, basic_pass = client_secret\<rparr>"

definition token_answer :: "(string \<Rightarrow> json option) \<Rightarrow> HttpResponse option \<times> 'w \<Rightarrow> TokenResponse option \<times> 'w" where
  "token_answer json_parse res =
     (case res of
        (None, w) \<Rightarrow> (None, w)
      | (Some resp, w) \<Rightarrow> if status_code resp \<noteq> 200 then (None, w) else (ParseTokenResponse json_parse (resp_body resp), w))"

definition AcquireTokenClientCredentials ::
    "('v, 'w) ClientEnv \<Rightarrow> string \<Rightarrow> string \<Rightarrow> string \<Rightarrow> string \<Rightarrow> 'w \<Rightarrow> TokenResponse option \<times> 'w" where
  "AcquireTokenClientCredentials E token_endpoint client_id client_secret scope w =
     (if token_endpoint = [] \<or> client_id = [] then (None, w)
      else token_answer (ce_json E)
             (flow_post E (client_credentials_request token_endpoint client_id client_secret scope) w))"

definition refresh_request :: "string \<Rightarrow> string \<Rightarrow> string \<Rightarrow> string \<Rightarrow> string \<Rightarrow> PostRequest" where
  "refresh_request token_endpoint client_id client_secret refresh_token scope =
     \<lparr>post_url = token_endpoint,
      post_body = ''grant_type=refresh_token&refresh_token='' @ UrlEncode refresh_token @ scope_param scope @
        (if client_id = [] then [] else ''&client_id='' @ UrlEncode client_id),
      content_type = form_urlencoded,
      basic_user = (if client_secret = [] then [] else client_id), basic_pass = client_secret\<rparr>"

definition AcquireTokenRefreshToken ::
    "('v, 'w) ClientEnv \<Rightarrow> string \<Rightarrow> string \<Rightarrow> string \<Rightarrow> string \<Rightarrow> string \<Rightarrow> 'w \<Rightarrow> TokenResponse option \<times> 'w" where
  "AcquireTokenRefreshToken E token_endpoint client_id client_secret refresh_token scope w =
     (if token_endpoint = [] \<or> refresh_token = [] then (None, w)
      else token_answer (ce_json E)
             (flow_post E (refresh_request token_endpoint client_id client_secret refresh_token scope) w))"

section \<open>The device flow (device_code.cpp)\<close>

record DeviceAuthorizationResponse =
  da_device_code :: string
  da_user_code :: string
  da_verification_uri :: string
  da_verification_uri_complete :: string
  da_expires_in :: int
  da_interval :: int

datatype DevicePollOutcome = Pending | SlowDown | Success | Denied | DeviceCodeExpired | PollError

record DevicePollResult =
  dp_outcome :: DevicePollOutcome
  dp_tokens :: "TokenResponse option"

definition AsIntOr :: "json_object \<Rightarrow> string \<Rightarrow> int \<Rightarrow> int" where
  "AsIntOr obj field fallback = (case map_of obj field of Some (JInt i) \<Rightarrow> i | Some (JDouble d) \<Rightarrow> d | _ \<Rightarrow> fallback)"

definition ParseDeviceAuthorizationResponse :: "(string \<Rightarrow> json option) \<Rightarrow> string \<Rightarrow> DeviceAuthorizationResponse option" where
  "ParseDeviceAuthorizationResponse json_parse body =
     (case parse_object json_parse body of
        None \<Rightarrow> None
      | Some obj \<Rightarrow>
          (case (AsString obj ''device_code'', AsString obj ''user_code'', AsString obj ''verification_uri'') of
             (Some device_code, Some user_code, Some verification_uri) \<Rightarrow>
               Some \<lparr>da_device_code = device_code, da_user_code = user_code, da_verification_uri = verification_uri,
                     da_verification_uri_complete = GetStringOrEmpty obj ''verification_uri_complete'',
                     da_expires_in = AsIntOr obj ''expires_in'' 0, da_interval = AsIntOr obj ''interval'' 5\<rparr>
           | _ \<Rightarrow> None))"

definition poll_outcome :: "string \<Rightarrow> DevicePollOutcome" where
  "poll_outcome code =
     (if code = ''authorization_pending'' then Pending
      else if code = ''slow_down'' then SlowDown
      else if code = ''access_denied'' then Denied
      else if code = ''expired_token'' then DeviceCodeExpired
      else PollError)"

definition ParseDevicePollResponse :: "(string \<Rightarrow> json option) \<Rightarrow> int \<Rightarrow> string \<Rightarrow> DevicePollResult" where
  "ParseDevicePollResponse json_parse http_status body =
     (if http_status = 200 then
        (case ParseTokenResponse json_parse body of
           None \<Rightarrow> \<lparr>dp_outcome = PollError, dp_tokens = None\<rparr>
         | Some t \<Rightarrow> \<lparr>dp_outcome = Success, dp_tokens = Some t\<rparr>)
      else
        (case json_parse body of
           Some (JObj obj) \<Rightarrow>
             (case AsString obj ''error'' of
                None \<Rightarrow> \<lparr>dp_outcome = PollError, dp_tokens = None\<rparr>
              | Some code \<Rightarrow> \<lparr>dp_outcome = poll_outcome code, dp_tokens = None\<rparr>)
         | _ \<Rightarrow> \<lparr>dp_outcome = PollError, dp_tokens = None\<rparr>))"

definition device_request :: "string \<Rightarrow> string \<Rightarrow> string \<Rightarrow> string \<Rightarrow> PostRequest" where
  "device_request endpoint client_id client_secret scope =
     \<lparr>post_url = endpoint, post_body = ''client_id='' @ UrlEncode client_id @ scope_param scope,
      content_type = form_urlencoded,
      basic_user = (if client_secret = [] then [] else client_id), basic_pass = client_secret\<rparr>"

definition RequestDeviceAuthorization ::
    "('v, 'w) ClientEnv \<Rightarrow> string \<Rightarrow> string \<Rightarrow> string \<Rightarrow> string \<Rightarrow> 'w \<Rightarrow> DeviceAuthorizationResponse option \<times> 'w" where
  "RequestDeviceAuthorization E endpoint client_id client_secret scope w =
     (if endpoint = [] \<or> client_id = [] then (None, w)
      else case flow_post E (device_request endpoint client_id client_secret scope) w of
        (None, w') \<Rightarrow> (None, w')
      | (Some resp, w') \<Rightarrow>
          if status_code resp \<noteq> 200 then (None, w')
          else (ParseDeviceAuthorizationResponse (ce_json E) (resp_body resp), w'))"

definition poll_request :: "string \<Rightarrow> string \<Rightarrow> string \<Rightarrow> string \<Rightarrow> PostRequest" where
  "poll_request token_endpoint client_id client_secret device_code =
     \<lparr>post_url = token_endpoint,
      post_body = ''grant_type=urn:ietf:params:oauth:grant-type:device_code'' @ ''&device_code='' @ UrlEncode device_code @
        ''&client_id='' @ UrlEncode client_id,
      content_type = form_urlencoded,
      basic_user = (if client_secret = [] then [] else client_id), basic_pass = client_secret\<rparr>"

definition PollDeviceTokenEndpoint ::
    "('v, 'w) ClientEnv \<Rightarrow> string \<Rightarrow> string \<Rightarrow> string \<Rightarrow> string \<Rightarrow> 'w \<Rightarrow> DevicePollResult \<times> 'w" where
  "PollDeviceTokenEndpoint E token_endpoint client_id client_secret device_code w =
     (if token_endpoint = [] \<or> client_id = [] \<or> device_code = [] then (\<lparr>dp_outcome = PollError, dp_tokens = None\<rparr>, w)
      else case flow_post E (poll_request token_endpoint client_id client_secret device_code) w of
        (None, w') \<Rightarrow> (\<lparr>dp_outcome = PollError, dp_tokens = None\<rparr>, w')
      | (Some resp, w') \<Rightarrow> (ParseDevicePollResponse (ce_json E) (status_code resp) (resp_body resp), w'))"

section \<open>Choice of a flow (acquire_flow.cpp)\<close>

datatype AcquireFlow = UseCached | RefreshToken | ClientCredentials | DeviceCode | Unconfigured

record ClientSecretView =
  cv_access_token :: string
  cv_expires_at_unix_s :: seconds
  cv_refresh_token :: string
  cv_client_id :: string
  cv_client_secret :: string
  cv_token_endpoint :: string
  cv_device_authorization_endpoint :: string
  cv_scope :: string

definition AcquireFlowName :: "AcquireFlow \<Rightarrow> string" where
  "AcquireFlowName f =
     (case f of
        UseCached \<Rightarrow> ''use_cached'' | RefreshToken \<Rightarrow> ''refresh_token'' | ClientCredentials \<Rightarrow> ''client_credentials''
      | DeviceCode \<Rightarrow> ''device_code'' | Unconfigured \<Rightarrow> ''unconfigured'')"

definition AccessTokenIsFresh :: "ClientSecretView \<Rightarrow> seconds \<Rightarrow> int \<Rightarrow> bool" where
  "AccessTokenIsFresh v now_s renew_skew_s \<longleftrightarrow>
     cv_access_token v \<noteq> [] \<and> \<not> cv_expires_at_unix_s v \<le> 0 \<and> cv_expires_at_unix_s v > now_s + renew_skew_s"

definition CanRefresh :: "ClientSecretView \<Rightarrow> bool" where
  "CanRefresh v \<longleftrightarrow> cv_refresh_token v \<noteq> [] \<and> cv_token_endpoint v \<noteq> [] \<and> cv_client_id v \<noteq> []"

definition CanClientCredentials :: "ClientSecretView \<Rightarrow> bool" where
  "CanClientCredentials v \<longleftrightarrow> cv_client_id v \<noteq> [] \<and> cv_client_secret v \<noteq> [] \<and> cv_token_endpoint v \<noteq> []"

definition CanDeviceCode :: "ClientSecretView \<Rightarrow> bool" where
  "CanDeviceCode v \<longleftrightarrow>
     cv_client_id v \<noteq> [] \<and> cv_token_endpoint v \<noteq> [] \<and> cv_device_authorization_endpoint v \<noteq> []"

definition DecideAcquireFlow :: "ClientSecretView \<Rightarrow> seconds \<Rightarrow> int \<Rightarrow> AcquireFlow \<times> string" where
  "DecideAcquireFlow v now_s renew_skew_s =
     (if AccessTokenIsFresh v now_s renew_skew_s then (UseCached, ''fresh access_token on SECRET'')
      else if CanRefresh v then (RefreshToken, ''refresh_token on SECRET'')
      else if CanClientCredentials v then (ClientCredentials, ''client_id + client_secret on SECRET'')
      else if CanDeviceCode v then (DeviceCode, ''client_id + device_authorization_endpoint on SECRET'')
      else (Unconfigured, ''SECRET has no usable credentials: need either a fresh access_token, '' @
        ''or refresh_token + token_endpoint + client_id, '' @ ''or client_id + client_secret + token_endpoint, '' @
        ''or client_id + token_endpoint + device_authorization_endpoint''))"

section \<open>Login and refresh (login_function.cpp, refresh_function.cpp)\<close>

type_synonym ('v, 'w) flow_result = "string throws \<times> 'v Host \<times> 'w"

text \<open>The end of every flow: the token and its expiry are written back to the secret.\<close>

definition persist ::
    "('v, 'w) ClientEnv \<Rightarrow> string \<Rightarrow> 'v KeyValueSecret \<Rightarrow> TokenResponse \<Rightarrow> string \<Rightarrow> 'v Host \<Rightarrow> 'w \<Rightarrow> ('v, 'w) flow_result" where
  "persist E secret_name kv tok refresh_token H w =
     (let iso8601 = FormatUtcIso8601 (ce_now E w + tr_expires_in tok)
      in case ce_register E secret_name (PersistTokenFields H kv (tr_access_token tok) iso8601 refresh_token) H of
           Inl e \<Rightarrow> (Inl e, H, w)
         | Inr H' \<Rightarrow> (Inr iso8601, H', w))"

definition DoLogin :: "('v, 'w) ClientEnv \<Rightarrow> string \<Rightarrow> 'v Host \<Rightarrow> 'w \<Rightarrow> ('v, 'w) flow_result" where
  "DoLogin E secret_name H w =
     (case OpenSecret H secret_name (Some ''quack_oauth'') ''quack_oauth_login'' of
        Inl e \<Rightarrow> (Inl e, H, w)
      | Inr accessor \<Rightarrow>
          let get = secret_get H accessor; token_endpoint = get ''token_endpoint''
          in if token_endpoint = [] then (Inl (MissingField ''token_endpoint'' secret_name), H, w)
             else if get ''client_id'' = [] \<or> get ''client_secret'' = []
             then (Inl (MissingField ''client_id or client_secret'' secret_name), H, w)
             else case AcquireTokenClientCredentials E token_endpoint (get ''client_id'') (get ''client_secret'') (get ''scope'') w of
               (None, w') \<Rightarrow> (Inl (EndpointFailed ''quack_oauth_login'' token_endpoint), H, w')
             | (Some tok, w') \<Rightarrow> persist E secret_name (the accessor) tok [] H w')"

definition DoRefresh :: "('v, 'w) ClientEnv \<Rightarrow> string \<Rightarrow> 'v Host \<Rightarrow> 'w \<Rightarrow> ('v, 'w) flow_result" where
  "DoRefresh E secret_name H w =
     (case OpenSecret H secret_name (Some ''quack_oauth'') ''quack_oauth_refresh'' of
        Inl e \<Rightarrow> (Inl e, H, w)
      | Inr accessor \<Rightarrow>
          let get = secret_get H accessor; token_endpoint = get ''token_endpoint''; refresh_token = get ''refresh_token''
          in if token_endpoint = [] then (Inl (MissingField ''token_endpoint'' secret_name), H, w)
             else if refresh_token = [] then (Inl (MissingField ''refresh_token'' secret_name), H, w)
             else case AcquireTokenRefreshToken E token_endpoint (get ''client_id'') (get ''client_secret'') refresh_token (get ''scope'') w of
               (None, w') \<Rightarrow> (Inl (EndpointFailed ''quack_oauth_refresh'' token_endpoint), H, w')
             | (Some tok, w') \<Rightarrow> persist E secret_name (the accessor) tok (tr_refresh_token tok) H w')"

section \<open>Device login (device_login_function.cpp)\<close>

definition EmitUserNotice :: "('v, 'w) ClientEnv \<Rightarrow> DeviceAuthorizationResponse \<Rightarrow> 'w \<Rightarrow> 'w" where
  "EmitUserNotice E auth w =
     ce_cerr E
       (''[quack_oauth_device_login] visit '' @
        (if da_verification_uri_complete auth = [] then da_verification_uri auth else da_verification_uri_complete auth) @
        '' and enter code: '' @ da_user_code auth @ [CHR 0x0A]) w"

partial_function (option) device_poll_loop ::
    "('v, 'w) ClientEnv \<Rightarrow> ('w \<Rightarrow> DevicePollResult \<times> 'w) \<Rightarrow> int \<Rightarrow> int \<Rightarrow> 'w \<Rightarrow> (TokenResponse throws \<times> 'w) option" where
  "device_poll_loop E poll deadline interval w =
     (if \<not> ce_steady E w < deadline then Some (Inl DeviceTimeout, w)
      else
        let res = poll (ce_sleep E (interval * 1000) w); outcome = dp_outcome (fst res); w' = snd res
        in if outcome = Pending then device_poll_loop E poll deadline interval w'
           else if outcome = SlowDown then device_poll_loop E poll deadline (interval + 5) w'
           else if outcome = Success
           then Some ((case dp_tokens (fst res) of None \<Rightarrow> Inl DeviceNoToken | Some t \<Rightarrow> Inr t), w')
           else if outcome = Denied then Some (Inl DeviceDenied, w')
           else if outcome = DeviceCodeExpired then Some (Inl DeviceExpired, w')
           else Some (Inl DeviceError, w'))"

declare device_poll_loop.simps [code]

text \<open>The rest of the flow once the user code is known: notice, polling, persisting.\<close>

definition device_login_with ::
    "('v, 'w) ClientEnv \<Rightarrow> string \<Rightarrow> 'v KeyValueSecret \<Rightarrow> string \<Rightarrow> string \<Rightarrow> string \<Rightarrow> DeviceAuthorizationResponse \<Rightarrow>
     'v Host \<Rightarrow> 'w \<Rightarrow> ('v, 'w) flow_result option" where
  "device_login_with E secret_name kv token_endpoint client_id client_secret auth H w =
     (let w1 = EmitUserNotice E auth w;
          interval = (if da_interval auth > 0 then da_interval auth else 5);
          deadline = ce_steady E w1 + (if da_expires_in auth > 0 then da_expires_in auth else 600) * 1000000000
      in case device_poll_loop E (PollDeviceTokenEndpoint E token_endpoint client_id client_secret (da_device_code auth))
                deadline interval w1 of
           None \<Rightarrow> None
         | Some (Inl e, w2) \<Rightarrow> Some (Inl e, H, w2)
         | Some (Inr tok, w2) \<Rightarrow> Some (persist E secret_name kv tok (tr_refresh_token tok) H w2))"

definition DoDeviceLoginImpl :: "('v, 'w) ClientEnv \<Rightarrow> string \<Rightarrow> 'v Host \<Rightarrow> 'w \<Rightarrow> ('v, 'w) flow_result option" where
  "DoDeviceLoginImpl E secret_name H w =
     (case OpenSecret H secret_name (Some ''quack_oauth'') ''quack_oauth_device_login'' of
        Inl e \<Rightarrow> Some (Inl e, H, w)
      | Inr accessor \<Rightarrow>
          let get = secret_get H accessor; device_endpoint = get ''device_authorization_endpoint'';
              token_endpoint = get ''token_endpoint''; client_id = get ''client_id''; client_secret = get ''client_secret''
          in if device_endpoint = [] then Some (Inl (MissingField ''device_authorization_endpoint'' secret_name), H, w)
             else if token_endpoint = [] \<or> client_id = []
             then Some (Inl (MissingField ''token_endpoint or client_id'' secret_name), H, w)
             else case RequestDeviceAuthorization E device_endpoint client_id client_secret (get ''scope'') w of
               (None, w1) \<Rightarrow> Some (Inl (EndpointFailed ''quack_oauth_device_login'' device_endpoint), H, w1)
             | (Some auth, w1) \<Rightarrow>
                 device_login_with E secret_name (the accessor) token_endpoint client_id client_secret auth H w1)"

section \<open>Logout (logout_function.cpp)\<close>

definition DoLogout :: "('v, 'w) ClientEnv \<Rightarrow> string \<Rightarrow> 'v Host \<Rightarrow> bool throws \<times> 'v Host" where
  "DoLogout E secret_name H =
     (case OpenSecret H secret_name (Some ''quack_oauth'') ''quack_oauth_logout'' of
        Inl e \<Rightarrow> (Inl e, H)
      | Inr accessor \<Rightarrow>
          let kv = the accessor;
              updated = kv\<lparr>sec_map := AList.delete ''expires_at'' (AList.delete ''refresh_token'' (AList.delete ''access_token'' (sec_map kv)))\<rparr>
          in case ce_register E secret_name updated H of
               Inl e \<Rightarrow> (Inl e, H)
             | Inr H' \<Rightarrow> (Inr True, H'))"

section \<open>Acquire (acquire_function.cpp)\<close>

definition LoadClientSecretView :: "'v Host \<Rightarrow> string \<Rightarrow> ClientSecretView throws" where
  "LoadClientSecretView H secret_name =
     (case OpenSecret H secret_name (Some ''quack_oauth'') ''quack_oauth_acquire'' of
        Inl e \<Rightarrow> Inl e
      | Inr accessor \<Rightarrow>
          let get = secret_get H accessor
          in Inr \<lparr>cv_access_token = get ''access_token'',
                  cv_expires_at_unix_s = ParseIso8601ToUnixSeconds (get ''expires_at''),
                  cv_refresh_token = get ''refresh_token'', cv_client_id = get ''client_id'',
                  cv_client_secret = get ''client_secret'', cv_token_endpoint = get ''token_endpoint'',
                  cv_device_authorization_endpoint = get ''device_authorization_endpoint'', cv_scope = get ''scope''\<rparr>)"

definition ReadRenewSkew :: "'v Host \<Rightarrow> int" where
  "ReadRenewSkew H = (case setting H ''quack_oauth_renew_skew_s'' of None \<Rightarrow> 60 | Some v \<Rightarrow> h_Int32 H v)"

definition RunFlowAndReadToken ::
    "(string \<Rightarrow> 'v Host \<Rightarrow> 'w \<Rightarrow> ('v, 'w) flow_result option) \<Rightarrow> string \<Rightarrow> string \<Rightarrow> 'v Host \<Rightarrow> 'w \<Rightarrow> ('v, 'w) flow_result option" where
  "RunFlowAndReadToken flow flow_name secret_name H w =
     (case flow secret_name H w of
        None \<Rightarrow> None
      | Some (Inl e, H', w') \<Rightarrow> Some (Inl e, H', w')
      | Some (Inr _, H', w') \<Rightarrow>
          (case LoadClientSecretView H' secret_name of
             Inl e \<Rightarrow> Some (Inl e, H', w')
           | Inr v \<Rightarrow>
               if cv_access_token v = [] then Some (Inl (NoTokenPersisted flow_name secret_name), H', w')
               else Some (Inr (cv_access_token v), H', w')))"

definition DoAcquire :: "('v, 'w) ClientEnv \<Rightarrow> string \<Rightarrow> 'v Host \<Rightarrow> 'w \<Rightarrow> ('v, 'w) flow_result option" where
  "DoAcquire E secret_name H w =
     (if secret_name = [] then Some (Inl (SecretNameEmpty ''quack_oauth_acquire''), H, w)
      else case LoadClientSecretView H secret_name of
        Inl e \<Rightarrow> Some (Inl e, H, w)
      | Inr view \<Rightarrow>
          let decision = DecideAcquireFlow view (ce_now E w) (ReadRenewSkew H)
          in case fst decision of
               UseCached \<Rightarrow> Some (Inr (cv_access_token view), H, w)
             | RefreshToken \<Rightarrow>
                 RunFlowAndReadToken (\<lambda>n H w. Some (DoRefresh E n H w)) ''quack_oauth_refresh'' secret_name H w
             | ClientCredentials \<Rightarrow>
                 RunFlowAndReadToken (\<lambda>n H w. Some (DoLogin E n H w)) ''quack_oauth_login'' secret_name H w
             | DeviceCode \<Rightarrow> RunFlowAndReadToken (DoDeviceLoginImpl E) ''quack_oauth_device_login'' secret_name H w
             | Unconfigured \<Rightarrow>
                 Some (Inl (AcquireUnconfigured secret_name (AcquireFlowName (fst decision)) (snd decision)), H, w))"

section \<open>What the flows rely on\<close>

text \<open>\<open>sleep_for\<close> blocks at least as long as asked, and the steady clock never goes back during a request.\<close>

definition steady_clock :: "('v, 'w) ClientEnv \<Rightarrow> bool" where
  "steady_clock E \<longleftrightarrow>
     (\<forall>ms w. 0 \<le> ms \<longrightarrow> ce_steady E w + ms * 1000000 \<le> ce_steady E (ce_sleep E ms w)) \<and>
     (\<forall>req w. ce_steady E w \<le> ce_steady E (snd (ce_post E req w)))"

text \<open>\<open>RegisterSecret\<close> with \<open>REPLACE_ON_CONFLICT\<close>: a registered secret is what the name stands for afterwards.\<close>

definition secret_store :: "('v, 'w) ClientEnv \<Rightarrow> bool" where
  "secret_store E \<longleftrightarrow>
     (\<forall>n kv H H'. ce_register E n kv H = Inr H' \<longrightarrow>
        h_secret H' n = Some (Some kv) \<and> h_ToString H' = h_ToString H \<and> h_setting H' = h_setting H \<and>
        h_IsNull H' = h_IsNull H \<and> h_Int32 H' = h_Int32 H)"

definition reads_back :: "'v Host \<Rightarrow> bool" where
  "reads_back H \<longleftrightarrow> (\<forall>str. h_ToString H (h_varchar H str) = str)"

section \<open>The device flow returns\<close>

lemma steady_sleep: "steady_clock E \<Longrightarrow> 0 \<le> ms \<Longrightarrow> ce_steady E w + ms * 1000000 \<le> ce_steady E (ce_sleep E ms w)"
  by (simp add: steady_clock_def)

lemma steady_post: "steady_clock E \<Longrightarrow> ce_steady E w \<le> ce_steady E (snd (ce_post E req w))"
  by (simp add: steady_clock_def)

lemma flow_post_steady:
  assumes "steady_clock E"
  shows "ce_steady E w \<le> ce_steady E (snd (flow_post E req w))"
proof -
  let ?r = "ce_post E req w"
  show ?thesis
    using steady_post [OF assms, of w req] steady_sleep [OF assms, of 1000 "snd ?r"]
      steady_post [OF assms, of "ce_sleep E 1000 (snd ?r)" req]
    by (simp add: flow_post_def RunWithRetries_def)
qed

lemma PollDeviceTokenEndpoint_steady:
  "steady_clock E \<Longrightarrow> ce_steady E w \<le> ce_steady E (snd (PollDeviceTokenEndpoint E ep cid cs code w))"
  using flow_post_steady [of E w "poll_request ep cid cs code"]
  by (auto simp: PollDeviceTokenEndpoint_def split: option.split prod.split)

text \<open>
  \<open>requests\<close> counts, at most, the requests made to the network: a request adds one at the most, and sleeping and
  printing add none.
\<close>

definition counts_requests :: "('v, 'w) ClientEnv \<Rightarrow> ('w \<Rightarrow> nat) \<Rightarrow> bool" where
  "counts_requests E requests \<longleftrightarrow>
     (\<forall>req w. requests (snd (ce_post E req w)) \<le> Suc (requests w)) \<and>
     (\<forall>ms w. requests (ce_sleep E ms w) = requests w) \<and> (\<forall>line w. requests (ce_cerr E line w) = requests w)"

lemma flow_post_requests:
  assumes "counts_requests E requests"
  shows "requests (snd (flow_post E req w)) \<le> requests w + 2"
proof -
  have post: "requests (snd (ce_post E req w)) \<le> Suc (requests w)" and sleep: "requests (ce_sleep E ms w) = requests w" for w ms
    using assms by (simp_all add: counts_requests_def)
  show ?thesis
    using post [of w] post [of "ce_sleep E 1000 (snd (ce_post E req w))"] by (simp add: flow_post_def RunWithRetries_def sleep)
qed

lemma PollDeviceTokenEndpoint_requests:
  "counts_requests E requests \<Longrightarrow> requests (snd (PollDeviceTokenEndpoint E ep cid cs code w)) \<le> requests w + 2"
  using flow_post_requests [of E requests "poll_request ep cid cs code" w]
  by (auto simp: PollDeviceTokenEndpoint_def split: option.split prod.split)

text \<open>The polls that fit between now and the deadline, one per interval begun.\<close>

definition polls_left :: "int \<Rightarrow> int \<Rightarrow> nat" where
  "polls_left ns interval = nat ((ns + interval * 1000000000 - 1) div (interval * 1000000000))"

lemma polls_left_step:
  assumes "0 < base" "base \<le> interval" "0 < ns" "ns' \<le> ns - interval * 1000000000"
  shows "Suc (polls_left ns' base) \<le> polls_left ns base"
proof -
  let ?k = "base * 1000000000"
  have k: "0 < ?k" using assms(1) by simp
  have "ns' + ?k - 1 \<le> ns - 1" using assms(2,4) by simp
  then have "(ns' + ?k - 1) div ?k \<le> (ns - 1) div ?k" using k by (rule zdiv_mono1)
  moreover have "(ns + ?k - 1) div ?k = (ns - 1) div ?k + 1"
    using k div_add_self2 [of ?k "ns - 1"] by (simp add: algebra_simps)
  moreover have "0 \<le> (ns - 1) div ?k" using k assms(3) by (simp add: pos_imp_zdiv_nonneg_iff)
  ultimately show ?thesis unfolding polls_left_def by linarith
qed

lemma polls_left_seconds:
  assumes "0 < t" "0 < i"
  shows "int (polls_left (t * 1000000000) i) = (t + i - 1) div i"
proof -
  have "(t * 1000000000 + i * 1000000000 - 1) div 1000000000 = t + i - 1"
    by (rule int_div_pos_eq [where r = 999999999]) simp_all
  then have "(t * 1000000000 + i * 1000000000 - 1) div (1000000000 * i) = (t + i - 1) div i"
    using assms(2) by (simp only: zdiv_zmult2_eq less_imp_le)
  then have "(t * 1000000000 + i * 1000000000 - 1) div (i * 1000000000) = (t + i - 1) div i" by (simp only: mult.commute)
  moreover have "0 \<le> (t + i - 1) div i" using assms by (simp add: pos_imp_zdiv_nonneg_iff)
  ultimately show ?thesis by (simp add: polls_left_def)
qed

lemma persist_world: "snd (snd (persist E n kv tok r H w)) = w"
  by (simp add: persist_def Let_def split: sum.split)

lemma device_poll_loop_returns:
  assumes "steady_clock E" "\<And>w. ce_steady E w \<le> ce_steady E (snd (poll w))" "0 < base"
    and count: "\<And>ms w. requests (ce_sleep E ms w) = requests w" "\<And>w. requests (snd (poll w)) \<le> requests w + (2 :: nat)"
  shows "base \<le> interval \<Longrightarrow> \<exists>res w'. device_poll_loop E poll deadline interval w = Some (res, w') \<and>
    requests w' \<le> requests w + 2 * polls_left (deadline - ce_steady E w) base"
proof (induction "nat (deadline - ce_steady E w)" arbitrary: interval w rule: less_induct)
  case less
  show ?case
  proof (cases "ce_steady E w < deadline")
    case False
    then show ?thesis by (subst device_poll_loop.simps) simp
  next
    case True
    let ?w = "snd (poll (ce_sleep E (interval * 1000) w))"
    have "ce_steady E w + interval * 1000 * 1000000 \<le> ce_steady E (ce_sleep E (interval * 1000) w)"
      using steady_sleep [OF assms(1), of "interval * 1000" w] less.prems assms(3) by simp
    also have "\<dots> \<le> ce_steady E ?w" by (rule assms(2))
    finally have t: "ce_steady E w + interval * 1000000000 \<le> ce_steady E ?w" by simp
    then have "nat (deadline - ce_steady E ?w) < nat (deadline - ce_steady E w)" using True less.prems assms(3) by linarith
    note again = less.hyps [OF this]
    have polls: "Suc (polls_left (deadline - ce_steady E ?w) base) \<le> polls_left (deadline - ce_steady E w) base"
      by (rule polls_left_step [OF assms(3) less.prems]) (use True t in simp_all)
    have reqs: "requests ?w \<le> requests w + 2" using count(2) [of "ce_sleep E (interval * 1000) w"] by (simp add: count(1))
    have "\<exists>res w'. device_poll_loop E poll deadline i ?w = Some (res, w') \<and>
        requests w' \<le> requests w + 2 * polls_left (deadline - ce_steady E w) base" if "base \<le> i" for i
      using again [OF that] polls reqs by fastforce
    note again = this [OF less.prems] this [of "interval + 5"]
    show ?thesis
      using again less.prems True polls reqs
      by (subst device_poll_loop.simps) (simp add: Let_def)
  qed
qed

lemma device_login_with_returns:
  assumes "steady_clock E"
  shows "\<exists>res H' w'. device_login_with E n kv ep cid cs auth H w = Some (res, H', w') \<and>
    (\<forall>requests. counts_requests E requests \<longrightarrow> requests w' \<le> requests w +
       2 * polls_left ((if da_expires_in auth > 0 then da_expires_in auth else 600) * 1000000000) (if da_interval auth > 0 then da_interval auth else 5))"
proof -
  let ?w = "EmitUserNotice E auth w"
  let ?i = "if da_interval auth > 0 then da_interval auth else 5"
  let ?t = "(if da_expires_in auth > 0 then da_expires_in auth else 600) * 1000000000"
  let ?poll = "PollDeviceTokenEndpoint E ep cid cs (da_device_code auth)"
  have loop: "\<exists>res w'. device_poll_loop E ?poll (ce_steady E ?w + ?t) ?i ?w = Some (res, w') \<and>
      requests w' \<le> requests ?w + 2 * polls_left (ce_steady E ?w + ?t - ce_steady E ?w) ?i"
    if "counts_requests E requests" for requests
  proof (rule device_poll_loop_returns [OF assms])
    show "ce_steady E w \<le> ce_steady E (snd (?poll w))" for w by (rule PollDeviceTokenEndpoint_steady [OF assms])
    show "requests (snd (?poll w)) \<le> requests w + 2" for w by (rule PollDeviceTokenEndpoint_requests [OF that])
    show "requests (ce_sleep E ms w) = requests w" for ms w using that by (simp add: counts_requests_def)
  qed simp_all
  obtain res v where l: "device_poll_loop E ?poll (ce_steady E ?w + ?t) ?i ?w = Some (res, v)"
    using loop [of "\<lambda>w. 0"] by (auto simp: counts_requests_def)
  have r: "requests v \<le> requests w + 2 * polls_left ?t ?i" if "counts_requests E requests" for requests
  proof -
    have "requests ?w = requests w" using that by (simp add: counts_requests_def EmitUserNotice_def)
    with loop [OF that, unfolded l option.inject prod.inject add_diff_cancel_left'] show ?thesis by auto
  qed
  show ?thesis
  proof (cases res)
    case (Inl e)
    then have "device_login_with E n kv ep cid cs auth H w = Some (Inl e, H, v)"
      using l by (simp only: device_login_with_def Let_def option.case prod.case sum.case)
    with r show ?thesis by blast
  next
    case (Inr tok)
    let ?p = "persist E n kv tok (tr_refresh_token tok) H v"
    have "device_login_with E n kv ep cid cs auth H w = Some ?p"
      using l Inr by (simp only: device_login_with_def Let_def option.case prod.case sum.case)
    moreover have "snd (snd ?p) = v" by (simp add: persist_world)
    ultimately show ?thesis using r by (metis prod.collapse)
  qed
qed

text \<open>
  C10: Obtaining a token always comes to an end, and with boundedly many requests. Whatever the token
  endpoint answers, even if it asks for patience for ever, the device login and therefore every
  acquisition returns with a result or an error, given that sleeping takes time and the steady clock does not run
  backwards. The polling of a device login makes at most two requests (one and its retry) for each
  polling interval that begins within the lifetime of the device code, ten minutes if the provider names none.
\<close>

theorem token_flows_terminate:
  assumes "steady_clock E"
  shows "(\<exists>r. DoDeviceLoginImpl E secret_name H w = Some r) \<and> (\<exists>r. DoAcquire E secret_name H w = Some r) \<and>
    (\<forall>auth. \<exists>res H' w'. device_login_with E secret_name kv token_endpoint client_id client_secret auth H w = Some (res, H', w') \<and>
       (\<forall>requests. counts_requests E requests \<longrightarrow>
          (let lifetime = (if da_expires_in auth > 0 then da_expires_in auth else 600);
               interval = (if da_interval auth > 0 then da_interval auth else 5)
           in int (requests w') \<le> int (requests w) + 2 * ((lifetime + interval - 1) div interval))))"
proof -
  have device: "DoDeviceLoginImpl E n H w \<noteq> None" for n H w
    using device_login_with_returns [OF assms]
    by (auto simp add: DoDeviceLoginImpl_def Let_def split: sum.split option.split prod.split) (metis option.distinct(1))+
  then have "RunFlowAndReadToken (DoDeviceLoginImpl E) nm n H w \<noteq> None" for nm n H w
    by (simp add: RunFlowAndReadToken_def del: not_None_eq split: option.split sum.split prod.split)
  moreover have "RunFlowAndReadToken (\<lambda>n H w. Some (DoRefresh E n H w)) nm n H w \<noteq> None"
      "RunFlowAndReadToken (\<lambda>n H w. Some (DoLogin E n H w)) nm n H w \<noteq> None" for nm n H w
    by (simp_all add: RunFlowAndReadToken_def del: not_None_eq split: sum.split prod.split)
  ultimately have "DoAcquire E secret_name H w \<noteq> None"
    by (simp add: DoAcquire_def Let_def del: not_None_eq split: sum.split AcquireFlow.split)
  moreover have "\<exists>res H' w'. device_login_with E secret_name kv token_endpoint client_id client_secret auth H w = Some (res, H', w') \<and>
       (\<forall>requests. counts_requests E requests \<longrightarrow>
          (let lifetime = (if da_expires_in auth > 0 then da_expires_in auth else 600);
               interval = (if da_interval auth > 0 then da_interval auth else 5)
           in int (requests w') \<le> int (requests w) + 2 * ((lifetime + interval - 1) div interval)))" for auth
  proof -
    let ?t = "if da_expires_in auth > 0 then da_expires_in auth else 600"
    let ?i = "if da_interval auth > 0 then da_interval auth else 5"
    have p: "int (polls_left (?t * 1000000000) ?i) = (?t + ?i - 1) div ?i" by (rule polls_left_seconds) simp_all
    obtain res H' w' where l: "device_login_with E secret_name kv token_endpoint client_id client_secret auth H w = Some (res, H', w')"
        "\<And>requests. counts_requests E requests \<Longrightarrow> requests w' \<le> requests w + 2 * polls_left (?t * 1000000000) ?i"
      using device_login_with_returns [OF assms, of secret_name kv token_endpoint client_id client_secret auth H w] by blast
    have "int (requests w') \<le> int (requests w) + 2 * ((?t + ?i - 1) div ?i)" if "counts_requests E requests" for requests
      unfolding p [symmetric] using l(2) [OF that] by linarith
    with l(1) show ?thesis unfolding Let_def by blast
  qed
  ultimately show ?thesis using device [of secret_name H w] by blast
qed

text \<open>A world that is its own clock, in nanoseconds, and an endpoint with one answer.\<close>

definition clock_env :: "(PostRequest \<Rightarrow> HttpResponse option) \<Rightarrow> (string \<Rightarrow> json option) \<Rightarrow> (dbval, int) ClientEnv" where
  "clock_env answer json_parse =
     \<lparr>ce_json = json_parse, ce_post = (\<lambda>req w. (answer req, w + 1)), ce_sleep = (\<lambda>ms w. w + ms * 1000000),
      ce_now = (\<lambda>w. w div 1000000000), ce_steady = (\<lambda>w. w), ce_cerr = (\<lambda>line w. w),
      ce_register = (\<lambda>n kv H. Inr (H\<lparr>h_secret := (h_secret H)(n := Some (Some kv))\<rparr>))\<rparr>"

lemma clock_env_ok: "steady_clock (clock_env answer json_parse)" "secret_store (clock_env answer json_parse)"
  by (simp_all add: clock_env_def steady_clock_def secret_store_def)

definition client_secret :: "dbval KeyValueSecret" where
  "client_secret = \<lparr>sec_type = ''quack_oauth'', sec_map = [(''token_endpoint'', StrV ''https://idp/token''),
     (''client_id'', StrV ''me''), (''client_secret'', StrV ''pw''), (''refresh_token'', StrV ''rt0'')], sec_redact_keys = []\<rparr>"

definition device_secret :: "dbval KeyValueSecret" where
  "device_secret = \<lparr>sec_type = ''quack_oauth'', sec_map = [(''token_endpoint'', StrV ''https://idp/token''),
     (''device_authorization_endpoint'', StrV ''https://idp/device''), (''client_id'', StrV ''me'')], sec_redact_keys = []\<rparr>"

text \<open>A provider that starts a device flow of 12 seconds and then keeps the client waiting.\<close>

definition patient_answer :: "PostRequest \<Rightarrow> HttpResponse option" where
  "patient_answer req =
     (if post_url req = ''https://idp/device'' then Some \<lparr>status_code = 200, resp_body = ''start''\<rparr>
      else Some \<lparr>status_code = 400, resp_body = ''wait''\<rparr>)"

definition patient_json :: "string \<Rightarrow> json option" where
  "patient_json body =
     (if body = ''start'' then Some (JObj [(''device_code'', JStr ''dc''), (''user_code'', JStr ''uc''),
        (''verification_uri'', JStr ''https://idp/go''), (''expires_in'', JInt 12)])
      else Some (JObj [(''error'', JStr ''authorization_pending'')]))"

lemma token_flows_terminate_witness:
  "(\<exists>r. DoDeviceLoginImpl (clock_env patient_answer patient_json) ''cli'' (plain_host [] [(''cli'', device_secret)] []) 0 = Some r) \<and>
   map_option fst (DoAcquire (clock_env patient_answer patient_json) ''cli'' (plain_host [] [(''cli'', device_secret)] []) 0) =
     Some (Inl DeviceTimeout)"
proof -
  have "map_option fst (DoAcquire (clock_env patient_answer patient_json) ''cli'' (plain_host [] [(''cli'', device_secret)] []) 0) =
      Some (Inl DeviceTimeout)"
    by code_simp
  with token_flows_terminate [OF clock_env_ok(1)] show ?thesis by blast
qed

section \<open>Tokens on the secret\<close>

lemma OpenSecret_after_register:
  assumes "OpenSecret H n (Some t) fn = Inr (Some kv)" "h_secret H' n = Some (Some kv')" "sec_type kv' = sec_type kv"
  shows "OpenSecret H' n (Some t) fn' = Inr (Some kv')"
  using assms by (auto simp: OpenSecret_def split: if_splits option.splits)

lemma sec_type_Persist [simp]: "sec_type (PersistTokenFields H kv a e r) = sec_type kv"
  by (simp add: PersistTokenFields_def Let_def)

lemma ParseTokenResponse_access_token: "ParseTokenResponse j b = Some tok \<Longrightarrow> tr_access_token tok \<noteq> []"
  by (auto simp: ParseTokenResponse_def split: option.splits if_splits)

lemma token_answer_access_token: "token_answer j res = (Some tok, w) \<Longrightarrow> tr_access_token tok \<noteq> []"
  by (auto simp: token_answer_def split: prod.splits option.splits if_splits dest: ParseTokenResponse_access_token)

lemma client_credentials_access_token:
  "AcquireTokenClientCredentials E ep cid cs sc w = (Some tok, w') \<Longrightarrow> tr_access_token tok \<noteq> []"
  by (auto simp: AcquireTokenClientCredentials_def split: if_splits dest: token_answer_access_token)

text \<open>After a token was persisted, an acquisition finds it until it comes close to its expiry.\<close>

lemma persisted_token_acquired:
  assumes "secret_store E" "reads_back H" "OpenSecret H n (Some ''quack_oauth'') fn = Inr (Some kv)"
    and "persist E n kv tok refresh H w = (Inr str, H', w')" "tr_access_token tok \<noteq> []"
    and "0 < ce_now E w + tr_expires_in tok" "ce_now E w + tr_expires_in tok < 253402300800"
    and "ce_now E v + ReadRenewSkew H < ce_now E w + tr_expires_in tok"
  shows "DoAcquire E n H' v = Some (Inr (tr_access_token tok), H', v)"
proof -
  define e where "e = FormatUtcIso8601 (ce_now E w + tr_expires_in tok)"
  define kv' where "kv' = PersistTokenFields H kv (tr_access_token tok) e refresh"
  have r: "ce_register E n kv' H = Inr H'"
    using assms(4) by (auto simp: persist_def Let_def kv'_def e_def split: sum.splits)
  have h: "h_secret H' n = Some (Some kv')" "h_ToString H' = h_ToString H" "ReadRenewSkew H' = ReadRenewSkew H"
    using assms(1) [unfolded secret_store_def, rule_format, OF r]
    by (simp_all add: ReadRenewSkew_def setting_def cong: option.case_cong)
  have o: "OpenSecret H' n (Some ''quack_oauth'') fn' = Inr (Some kv')" for fn'
    using OpenSecret_after_register [OF assms(3) h(1)] by (simp add: kv'_def)
  have get: "secret_get H' (Some kv') = secret_get H (Some kv')" by (simp add: secret_get_def h(2) fun_eq_iff cong: option.case_cong)
  have "secret_get H' (Some kv') ''access_token'' = tr_access_token tok"
      "ParseIso8601ToUnixSeconds (secret_get H' (Some kv') ''expires_at'') = ce_now E w + tr_expires_in tok"
    unfolding get using assms(2,6,7) unfolding kv'_def e_def reads_back_def
    by (simp_all add: secret_get_Persist Parse_FormatUtcIso8601)
  then have "\<exists>view. LoadClientSecretView H' n = Inr view \<and> cv_access_token view = tr_access_token tok \<and>
      cv_expires_at_unix_s view = ce_now E w + tr_expires_in tok"
    by (simp add: LoadClientSecretView_def o Let_def)
  moreover have "n \<noteq> []" using assms(3) by (auto simp: OpenSecret_def)
  ultimately show ?thesis
    using assms(5-8) h(3) by (auto simp: DoAcquire_def DecideAcquireFlow_def AccessTokenIsFresh_def Let_def)
qed

lemma DoLogin_Inr:
  assumes "DoLogin E n H w = (Inr str, H', w')"
  shows "\<exists>kv tok. h_secret H n = Some (Some kv) \<and>
    OpenSecret H n (Some ''quack_oauth'') ''quack_oauth_login'' = Inr (Some kv) \<and>
    AcquireTokenClientCredentials E (secret_get H (Some kv) ''token_endpoint'') (secret_get H (Some kv) ''client_id'')
      (secret_get H (Some kv) ''client_secret'') (secret_get H (Some kv) ''scope'') w = (Some tok, w') \<and>
    persist E n kv tok [] H w' = (Inr str, H', w')"
proof -
  obtain a where o: "OpenSecret H n (Some ''quack_oauth'') ''quack_oauth_login'' = Inr a"
    using assms by (auto simp: DoLogin_def split: sum.splits)
  then obtain kv where kv: "a = Some kv" "h_secret H n = Some (Some kv)" using OpenSecret_Inr by blast
  obtain res v where r: "AcquireTokenClientCredentials E (secret_get H a ''token_endpoint'') (secret_get H a ''client_id'')
      (secret_get H a ''client_secret'') (secret_get H a ''scope'') w = (res, v)" by fastforce
  with assms o obtain tok where t: "res = Some tok" "persist E n kv tok [] H v = (Inr str, H', w')"
    by (auto simp: DoLogin_def Let_def kv(1) split: if_splits option.splits)
  then have "v = w'" by (auto simp: persist_def Let_def split: sum.splits)
  with t r o kv show ?thesis by auto
qed

text \<open>
  C11: A login lasts. A successful client-credentials login has asked the configured token endpoint, and
  from then on an acquisition on the same secret returns the token it got, without any request, as
  long as the clock stays a renewal skew away from the expiry that was stored (up to the year 9999).
\<close>

theorem login_then_acquire:
  assumes "secret_store E" "reads_back H" "DoLogin E n H w = (Inr str, H', w')"
  shows "\<exists>kv tok. h_secret H n = Some (Some kv) \<and>
    AcquireTokenClientCredentials E (secret_get H (Some kv) ''token_endpoint'') (secret_get H (Some kv) ''client_id'')
      (secret_get H (Some kv) ''client_secret'') (secret_get H (Some kv) ''scope'') w = (Some tok, w') \<and>
    (\<forall>v. let expiry = ce_now E w' + tr_expires_in tok in
       0 < expiry \<and> expiry < 253402300800 \<and> ce_now E v + ReadRenewSkew H < expiry \<longrightarrow>
       DoAcquire E n H' v = Some (Inr (tr_access_token tok), H', v))"
proof -
  obtain kv tok where l: "h_secret H n = Some (Some kv)" "OpenSecret H n (Some ''quack_oauth'') ''quack_oauth_login'' = Inr (Some kv)"
      "AcquireTokenClientCredentials E (secret_get H (Some kv) ''token_endpoint'') (secret_get H (Some kv) ''client_id'')
        (secret_get H (Some kv) ''client_secret'') (secret_get H (Some kv) ''scope'') w = (Some tok, w')"
      "persist E n kv tok [] H w' = (Inr str, H', w')"
    using DoLogin_Inr [OF assms(3)] by blast
  have "DoAcquire E n H' v = Some (Inr (tr_access_token tok), H', v)"
    if "0 < ce_now E w' + tr_expires_in tok" "ce_now E w' + tr_expires_in tok < 253402300800"
      "ce_now E v + ReadRenewSkew H < ce_now E w' + tr_expires_in tok" for v
    using persisted_token_acquired [OF assms(1,2) l(2,4) client_credentials_access_token [OF l(3)] that] .
  with l(1,3) show ?thesis unfolding Let_def by blast
qed

definition granting_json :: "string \<Rightarrow> json option" where
  "granting_json body = Some (JObj [(''access_token'', JStr ''at1''), (''expires_in'', JInt 3600)])"

definition granting_env :: "(dbval, int) ClientEnv" where
  "granting_env = clock_env (\<lambda>req. Some \<lparr>status_code = 200, resp_body = ''{}''\<rparr>) granting_json"

definition client_host :: "dbval Host" where
  "client_host = plain_host [] [(''cli'', client_secret)] []"

lemma granting_env_ok: "secret_store granting_env"
  by (simp add: granting_env_def clock_env_ok)

definition granted :: TokenResponse where
  "granted = \<lparr>tr_access_token = ''at1'', tr_refresh_token = [], tr_token_type = [], tr_scope = [], tr_expires_in = 3600\<rparr>"

lemma granted_answer:
  "AcquireTokenClientCredentials granting_env (secret_get client_host (Some client_secret) ''token_endpoint'')
     (secret_get client_host (Some client_secret) ''client_id'') (secret_get client_host (Some client_secret) ''client_secret'')
     (secret_get client_host (Some client_secret) ''scope'') 0 = (Some granted, 1)"
  by code_simp

lemma granted_login: "\<exists>H'. DoLogin granting_env ''cli'' client_host 0 = (Inr (FormatUtcIso8601 3600), H', 1)"
proof -
  have "OpenSecret client_host ''cli'' (Some ''quack_oauth'') ''quack_oauth_login'' = Inr (Some client_secret)"
    by (simp add: OpenSecret_def client_host_def plain_host_def client_secret_def)
  moreover have "secret_get client_host (Some client_secret) ''token_endpoint'' \<noteq> []"
      "secret_get client_host (Some client_secret) ''client_id'' \<noteq> []" "secret_get client_host (Some client_secret) ''client_secret'' \<noteq> []"
    by (code_simp, code_simp, code_simp)
  ultimately show ?thesis
    by (simp add: DoLogin_def Let_def granted_answer persist_def) (simp add: granting_env_def clock_env_def granted_def)
qed

lemma login_then_acquire_witness:
  "\<exists>H'. DoLogin granting_env ''cli'' client_host 0 = (Inr (FormatUtcIso8601 3600), H', 1) \<and>
     DoAcquire granting_env ''cli'' H' (3000 * 1000000000) = Some (Inr ''at1'', H', 3000 * 1000000000)"
proof -
  obtain H' where l: "DoLogin granting_env ''cli'' client_host 0 = (Inr (FormatUtcIso8601 3600), H', 1)"
    using granted_login by blast
  have rb: "reads_back client_host" by (simp add: reads_back_def client_host_def plain_host_def)
  obtain kv tok where t: "h_secret client_host ''cli'' = Some (Some kv)"
      "AcquireTokenClientCredentials granting_env (secret_get client_host (Some kv) ''token_endpoint'')
        (secret_get client_host (Some kv) ''client_id'') (secret_get client_host (Some kv) ''client_secret'')
        (secret_get client_host (Some kv) ''scope'') 0 = (Some tok, 1)"
      "\<forall>v. let expiry = ce_now granting_env 1 + tr_expires_in tok in
        0 < expiry \<and> expiry < 253402300800 \<and> ce_now granting_env v + ReadRenewSkew client_host < expiry \<longrightarrow>
        DoAcquire granting_env ''cli'' H' v = Some (Inr (tr_access_token tok), H', v)"
    using login_then_acquire [OF granting_env_ok rb l] by blast
  have "kv = client_secret" using t(1) by (simp add: client_host_def plain_host_def)
  with t(2) granted_answer have "tok = granted" by simp
  moreover have "ce_now granting_env 1 = 0" "ce_now granting_env (3000 * 1000000000) = 3000" "ReadRenewSkew client_host = 60"
    by (code_simp, code_simp, code_simp)
  ultimately show ?thesis using t(3) [rule_format, of "3000 * 1000000000"] l by (simp add: granted_def)
qed

text \<open>
  C12: A logout is complete. It removes the access token, the refresh token and the expiry from the
  secret and nothing else; whatever the clock says, a later acquisition neither finds a cached token
  nor tries to refresh one.
\<close>

theorem logout_clears_tokens:
  assumes "secret_store E" "DoLogout E n H = (Inr b, H')"
  shows "\<exists>kv kv'. h_secret H n = Some (Some kv) \<and> h_secret H' n = Some (Some kv') \<and>
    sec_type kv' = sec_type kv \<and> sec_redact_keys kv' = sec_redact_keys kv \<and>
    map_of (sec_map kv') = (map_of (sec_map kv)) (''access_token'' := None, ''refresh_token'' := None, ''expires_at'' := None) \<and>
    (\<forall>view now_s skew. LoadClientSecretView H' n = Inr view \<longrightarrow>
       fst (DecideAcquireFlow view now_s skew) \<in> {ClientCredentials, DeviceCode, Unconfigured})"
proof -
  obtain a where o: "OpenSecret H n (Some ''quack_oauth'') ''quack_oauth_logout'' = Inr a"
    using assms(2) by (auto simp: DoLogout_def split: sum.splits)
  then obtain kv where kv: "a = Some kv" "h_secret H n = Some (Some kv)" using OpenSecret_Inr by blast
  define kv' where "kv' = kv\<lparr>sec_map := AList.delete ''expires_at'' (AList.delete ''refresh_token'' (AList.delete ''access_token'' (sec_map kv)))\<rparr>"
  have "ce_register E n kv' H = Inr H'"
    using assms(2) o by (auto simp: DoLogout_def Let_def kv(1) kv'_def split: sum.splits)
  then have h: "h_secret H' n = Some (Some kv')" using assms(1) unfolding secret_store_def by blast
  have m: "map_of (sec_map kv') = (map_of (sec_map kv)) (''access_token'' := None, ''refresh_token'' := None, ''expires_at'' := None)"
    by (simp add: kv'_def delete_conv fun_eq_iff)
  have "fst (DecideAcquireFlow view now_s skew) \<in> {ClientCredentials, DeviceCode, Unconfigured}"
    if "LoadClientSecretView H' n = Inr view" for view now_s skew
  proof -
    have "OpenSecret H' n (Some ''quack_oauth'') ''quack_oauth_acquire'' = Inr (Some kv')"
      using OpenSecret_after_register [OF o [unfolded kv(1)] h] by (simp add: kv'_def)
    with that have "cv_access_token view = []" "cv_refresh_token view = []"
      by (auto simp: LoadClientSecretView_def Let_def secret_get_def m)
    then show ?thesis by (simp add: DecideAcquireFlow_def AccessTokenIsFresh_def CanRefresh_def)
  qed
  with kv(2) h m show ?thesis unfolding kv'_def by auto
qed

lemma logout_clears_tokens_witness:
  "\<exists>H' kv'. DoLogout granting_env ''cli'' client_host = (Inr True, H') \<and>
     h_secret H' ''cli'' = Some (Some kv') \<and> map_of (sec_map kv') ''refresh_token'' = None \<and>
     map_of (sec_map kv') ''client_id'' = Some (StrV ''me'')"
proof -
  have "fst (DoLogout granting_env ''cli'' client_host) = Inr True" by code_simp
  then obtain H' where l: "DoLogout granting_env ''cli'' client_host = (Inr True, H')"
    by (cases "DoLogout granting_env ''cli'' client_host") simp
  obtain kv kv' where k: "h_secret client_host ''cli'' = Some (Some kv)" "h_secret H' ''cli'' = Some (Some kv')"
      "map_of (sec_map kv') = (map_of (sec_map kv)) (''access_token'' := None, ''refresh_token'' := None, ''expires_at'' := None)"
    using logout_clears_tokens [OF granting_env_ok l] by blast
  have "kv = client_secret" using k(1) by (simp add: client_host_def plain_host_def)
  with k(3) have "map_of (sec_map kv') ''refresh_token'' = None" "map_of (sec_map kv') ''client_id'' = Some (StrV ''me'')"
    by (simp_all add: client_secret_def)
  with l k(2) show ?thesis by blast
qed

end
