(* ===== verification/Sql_Ast.thy ===== *)
theory Sql_Ast
  imports Policy
begin

text \<open>
  Parsed SQL, as far as sql_inspect.cpp looks at it. The classes are DuckDB's; each constructor has the
  members that the walk reads, in the order in which it reads them.

  \<^item> A pointer is an \<open>option\<close>, \<open>None\<close> when null. A pointer to a statement that is only there for its
    query node is the pointer to the node.
  \<^item> \<open>target\<close> is what \<open>AstTarget\<close> and \<open>CreateTarget\<close> return: catalog, schema and name.
  \<^item> \<open>Expression\<close> has its class and the children that \<open>EnumerateChildren\<close> visits.
  \<^item> Structures that occur both in statements and in queries are parametrised by what stands for their
    queries (\<open>'q\<close>), table references (\<open>'t\<close>) and expressions (\<open>'e\<close>). The walk maps those to walks first,
    as the templates of the source take any node type.
\<close>

type_synonym target = "string \<times> string \<times> string"

datatype 'e UpdateSetInfo = UpdateSetInfo (usi_expressions: "'e option list") (usi_condition: "'e option")

datatype 'e OnConflictInfo = OnConflictInfo (oci_set_info: "'e UpdateSetInfo option") (oci_condition: "'e option")

datatype ('q, 't, 'e) InsertNode = InsertNode (in_target: target) (in_select: "'q option") (in_table_ref: "'t option")
  (in_returning: "'e option list") (in_on_conflict: "'e OnConflictInfo option")

datatype ('t, 'e) UpdateNode = UpdateNode (un_table: "'t option") (un_from_table: "'t option")
  (un_set_info: "'e UpdateSetInfo option") (un_returning: "'e option list")

datatype ('t, 'e) DeleteNode = DeleteNode (dn_table: "'t option") (dn_using: "'t option list") (dn_condition: "'e option")
  (dn_returning: "'e option list")

datatype MergeActionType = MERGE_UPDATE | MERGE_OTHER

datatype 'e MergeAction = MergeAction (ma_type: MergeActionType) (ma_condition: "'e option")
  (ma_update_info: "'e UpdateSetInfo option") (ma_expressions: "'e option list")

datatype ('t, 'e) MergeNode = MergeNode (mn_target: "'t option") (mn_source: "'t option") (mn_join_condition: "'e option")
  (mn_actions: "'e MergeAction option list list") (mn_returning: "'e option list")

datatype ('q, 'e) CopyInfo = CopyInfo (ci_target: target) (ci_is_from: bool) (ci_select: "'q option") (ci_file_path: "'e option")
  (ci_options: "(string \<times> 'e option) list")

datatype 'e ResultModifier =
    OrderModifier "'e option list"
  | LimitModifier "'e option" "'e option"
  | DistinctModifier "'e option list"
  | LimitPercentModifier "'e option" "'e option"
  | UnsupportedModifier

datatype (plugins only: code)
  Expression = Expression ExpressionClass "Expression list"
and ExpressionClass =
    ColumnRef "string list"
  | Star
  | Subquery "QueryNode option"
  | Function string
  | Constant
  | OtherClass
and QueryNode = QueryNode "(string \<times> QueryNode option option) list" "Expression ResultModifier option list" QueryBody
and QueryBody =
    SelectNode "TableRef option" "Expression option list" "Expression option" "Expression option" "Expression option"
      "Expression option list"
  | SetOperationNode "QueryNode list"
  | CTENode string "QueryNode option" "QueryNode option"
  | RecursiveCTENode string "QueryNode option" "QueryNode option"
  | BoundSubqueryNode
  | UpdateQuery "(TableRef, Expression) UpdateNode"
  | DeleteQuery "(TableRef, Expression) DeleteNode"
  | InsertQuery "(QueryNode, TableRef, Expression) InsertNode"
  | MergeQuery "(TableRef, Expression) MergeNode"
  | CopyQuery "(QueryNode, Expression) CopyInfo option"
  | UnsupportedNode
and TableRef =
    BaseTableRef target "Expression option option"
  | JoinRef "TableRef option" "TableRef option" "Expression option"
  | SubqueryRef "QueryNode option"
  | TableFunctionRef "Expression option" "QueryNode option option"
  | PivotRef "TableRef option" "Expression option list"
      "(Expression option list \<times> QueryNode option \<times> Expression option list) list"
  | ExpressionListRef "Expression option list list"
  | ShowRef target "QueryNode option"
  | InertRef
  | UnsupportedRef

section \<open>Statements\<close>

type_synonym cte_map = "(string \<times> QueryNode option option) list"
type_synonym named_expressions = "(string \<times> Expression option) list"

datatype ColumnDefinition = GeneratedColumn Expression | DefaultColumn Expression | PlainColumn

datatype TableConstraint = CheckConstraint "Expression option" | InertConstraint | UnknownConstraint

datatype AlterTable =
    InertAlter
  | AlterColumnType "Expression option"
  | SetDefault "Expression option"
  | AddColumnInfo ColumnDefinition
  | UnsupportedAlter

datatype (plugins only: code)
  SQLStatement =
    SelectStatement "QueryNode option"
  | ExplainStatement bool "SQLStatement option"
  | RelationStatement
  | InsertStatement cte_map "(QueryNode, TableRef, Expression) InsertNode"
  | UpdateStatement cte_map "(TableRef, Expression) UpdateNode"
  | DeleteStatement cte_map "(TableRef, Expression) DeleteNode"
  | MergeIntoStatement cte_map "(TableRef, Expression) MergeNode"
  | CopyStatement "(QueryNode, Expression) CopyInfo option"
  | CreateStatement "CreateInfo option"
  | DropStatement "(bool \<times> target) option"
  | AlterStatement "(target \<times> AlterTable option) option"
  | TransactionStatement
  | DetachStatement "string option"
  | CreateFuncStatement
  | AttachStatement "named_expressions option"
  | PragmaStatement "(string \<times> Expression option list \<times> named_expressions) option"
  | SetStatement string bool bool "(Expression \<times> string) option"
  | LoadStatement
  | OtherStatement
and CreateInfo =
    CreateTableInfo target "QueryNode option option" "ColumnDefinition list" "TableConstraint option list"
      "Expression option list" "Expression option list" named_expressions
  | CreateViewInfo target "QueryNode option"
  | CreateTypeInfo target "SQLStatement option"
  | CreateMacroInfo target
  | CreateSchemaInfo target named_expressions
  | UnsupportedCreate

text \<open>
  \<open>ExplainStatement\<close> tells whether it is an \<open>ANALYZE\<close>, \<open>DropStatement\<close> whether it drops a table or a view,
  \<open>AlterStatement\<close> has \<open>None\<close> for what does not alter a table, \<open>SetStatement\<close> has the name, whether the
  scope is global, whether it sets (and not resets), and the value with its text. \<open>InertAlter\<close> stands
  for renaming, removing a column and \<open>NOT NULL\<close>, \<open>InertConstraint\<close> for \<open>NOT NULL\<close>, \<open>UNIQUE\<close> and foreign
  keys.
\<close>

end
