(* ===== verification/Sql_Inspect.thy ===== *)
theory Sql_Inspect
  imports Sql_Ast
begin

text \<open>
  The inspection of SQL (sql_inspect.cpp): what a query does and which tables, table functions and
  columns it touches, or that it is unsafe to run.

  A walk changes the context \<open>WalkCtx\<close>: the request under construction and the stack of CTE names in
  scope. The recursive functions return the walk of a node, built from the walks of its parts; a
  sequence of statements of the source is the list given to \<open>walks\<close>. Parsing is a parameter. The members
  of a parsed statement are there or null, so the accessors that raise an exception on a node of
  another class never do.
\<close>

record WalkCtx =
  wc_req :: AuthzRequest
  wc_cte_names :: "string list"

type_synonym walk = "WalkCtx \<Rightarrow> WalkCtx"

definition on_req :: "(AuthzRequest \<Rightarrow> AuthzRequest) \<Rightarrow> walk" where
  "on_req f ctx = ctx\<lparr>wc_req := f (wc_req ctx)\<rparr>"

section \<open>Objects and columns\<close>

definition IsAllowedSystemView :: "string \<Rightarrow> string \<Rightarrow> bool" where
  "IsAllowedSystemView schema table \<longleftrightarrow> schema = ''information_schema'' \<and> table = ''tables''"

definition system_view_names :: "string list" where
  "system_view_names =
     [''pragma_database_list'', ''sqlite_master'', ''sqlite_schema'', ''sqlite_temp_master'', ''sqlite_temp_schema'',
      ''duckdb_constraints'', ''duckdb_columns'', ''duckdb_databases'', ''duckdb_indexes'', ''duckdb_schemas'',
      ''duckdb_tables'', ''duckdb_types'', ''duckdb_views'', ''duckdb_logs'',
      ''pg_am'', ''pg_prepared_statements'', ''pg_attribute'', ''pg_attrdef'', ''pg_class'', ''pg_constraint'',
      ''pg_collation'', ''pg_database'', ''pg_depend'', ''pg_description'', ''pg_enum'', ''pg_index'',
      ''pg_indexes'', ''pg_namespace'', ''pg_proc'', ''pg_sequence'', ''pg_sequences'', ''pg_settings'',
      ''pg_tables'', ''pg_tablespace'', ''pg_type'', ''pg_views'',
      ''columns'', ''schemata'', ''tables'', ''character_sets'', ''referential_constraints'',
      ''key_column_usage'', ''table_constraints'', ''constraint_column_usage'', ''constraint_table_usage'',
      ''check_constraints'', ''views'']"

definition LooksLikeUnqualifiedSystemView :: "string \<Rightarrow> bool" where
  "LooksLikeUnqualifiedSystemView table \<longleftrightarrow> table \<in> set system_view_names"

definition mark_unsafe :: "string \<Rightarrow> AuthzRequest \<Rightarrow> AuthzRequest" where
  "mark_unsafe message req =
     req\<lparr>ar_unsafe := True, ar_error := if ar_error req = [] then message else ar_error req\<rparr>"

definition Unsafe :: "string \<Rightarrow> walk" where
  "Unsafe message = on_req (mark_unsafe message)"

definition AddNamedObject :: "string \<Rightarrow> AuthzRequest \<Rightarrow> AuthzRequest" where
  "AddNamedObject obj req = (if obj \<in> set (ar_objects req) then req else req\<lparr>ar_objects := ar_objects req @ [obj]\<rparr>)"

definition AddObject :: "target \<Rightarrow> AuthzRequest \<Rightarrow> AuthzRequest" where
  "AddObject t req =
     (case t of (catalog, schema, table) \<Rightarrow>
        if table = [] then req
        else
          let sch = (if schema = [] then ''main'' else lower_ascii schema);
              tbl = lower_ascii table;
              req1 = (if catalog \<noteq> [] then mark_unsafe ''catalog-qualified object'' req else req)
          in if sch = ''information_schema'' \<or> sch = ''pg_catalog''
             then if \<not> IsAllowedSystemView sch tbl then mark_unsafe ''system view is not allowlisted'' req1 else req1
             else if sch = ''main'' \<and> LooksLikeUnqualifiedSystemView tbl
             then mark_unsafe ''unqualified system view is not allowlisted'' req1
             else AddNamedObject (sch @ ''.'' @ tbl) req1)"

definition IsExemptFunction :: "string \<Rightarrow> bool" where
  "IsExemptFunction name \<longleftrightarrow> name \<in> set [''duckdb_tables'', ''duckdb_columns'']"

definition AllowedPragma :: "string \<Rightarrow> bool" where
  "AllowedPragma name \<longleftrightarrow> name \<in> set [''version'']"

definition AllowedSetting :: "string \<Rightarrow> bool" where
  "AllowedSetting name \<longleftrightarrow> name \<in> set [''threads'']"

definition AddFunctionObject :: "string \<Rightarrow> AuthzRequest \<Rightarrow> AuthzRequest" where
  "AddFunctionObject name req =
     (let lowered = lower_ascii (if name = [] then ''?'' else name)
      in if IsExemptFunction lowered then req else AddNamedObject (''fn:'' @ lowered) req)"

definition AddColumn :: "string \<Rightarrow> AuthzRequest \<Rightarrow> AuthzRequest" where
  "AddColumn col req =
     (if col = [] then req
      else let c = lower_ascii col
           in if c \<in> set (ar_columns req) then req else req\<lparr>ar_columns := ar_columns req @ [c]\<rparr>)"

definition IsCte :: "string \<Rightarrow> WalkCtx \<Rightarrow> bool" where
  "IsCte name ctx \<longleftrightarrow> name \<in> set (wc_cte_names ctx)"

definition file_suffixes :: "string list" where
  "file_suffixes =
     [''csv'', ''tsv'', ''txt'', ''parquet'', ''json'', ''jsonl'', ''ndjson'', ''geojson'', ''geojsonl'', ''shp'', ''gpkg'', ''fgb'',
      ''xlsx'', ''avro'', ''arrow'', ''db'', ''ddb'', ''duckdb'', ''sqlite'', ''gz'', ''zst'']"

definition IsReplacementScanName :: "target \<Rightarrow> bool" where
  "IsReplacementScanName t =
     (case t of (catalog, schema, table) \<Rightarrow>
        if \<exists>part \<in> set [catalog, schema, table]. \<exists>c \<in> set part. c = CHR ''/'' \<or> c = CHR 0x5C \<or> c = CHR '':'' then True
        else if CHR ''.'' \<in> set table then True
        else if schema = [] \<and> catalog = [] then False
        else lower_ascii table \<in> set file_suffixes)"

section \<open>Building walks\<close>

definition walks :: "walk list \<Rightarrow> walk" where
  "walks ws = fold (\<lambda>w. w) ws"

text \<open>\<open>if (p) Walk(*p, ctx)\<close>, and the same with an \<open>Unsafe\<close> in the other case.\<close>

definition if_present :: "walk option \<Rightarrow> walk" where
  "if_present p = (case p of None \<Rightarrow> (\<lambda>ctx. ctx) | Some w \<Rightarrow> w)"

definition or_unsafe :: "string \<Rightarrow> walk option \<Rightarrow> walk" where
  "or_unsafe message p = (case p of None \<Rightarrow> Unsafe message | Some w \<Rightarrow> w)"

text \<open>The scope of a \<open>CteScope\<close>: at its end the stack is cut back to its old size.\<close>

definition scoped :: "walk \<Rightarrow> walk" where
  "scoped w ctx =
     (let ctx' = w ctx in ctx'\<lparr>wc_cte_names := take (length (wc_cte_names ctx)) (wc_cte_names ctx')\<rparr>)"

definition push_cte :: "string \<Rightarrow> walk" where
  "push_cte alias ctx = ctx\<lparr>wc_cte_names := wc_cte_names ctx @ [alias]\<rparr>"

definition push_alias :: "string \<Rightarrow> walk" where
  "push_alias alias = (if alias = [] then (\<lambda>ctx. ctx) else push_cte alias)"

definition CteScope :: "(string \<times> walk option option) list \<Rightarrow> walk" where
  "CteScope cte_map =
     walks (concat (map (\<lambda>(alias, def).
       [case def of
          None \<Rightarrow> Unsafe ''null CTE definition''
        | Some query \<Rightarrow> or_unsafe ''null CTE query'' query,
        push_cte (lower_ascii alias)]) cte_map))"

definition WalkExpressions :: "walk option list \<Rightarrow> walk" where
  "WalkExpressions exprs = walks (map if_present exprs)"

definition WalkNamedExpressions :: "(string \<times> walk option) list \<Rightarrow> walk" where
  "WalkNamedExpressions exprs = walks (map (\<lambda>(name, e). or_unsafe ''null named expression'' e) exprs)"

definition WalkCopyInfo :: "(walk, walk) CopyInfo \<Rightarrow> walk" where
  "WalkCopyInfo info =
     walks [on_req (AddObject (ci_target info)), if_present (ci_select info), if_present (ci_file_path info),
            WalkNamedExpressions (ci_options info)]"

definition WalkModifier :: "walk ResultModifier option \<Rightarrow> walk" where
  "WalkModifier modifier =
     (case modifier of
        None \<Rightarrow> Unsafe ''null query modifier''
      | Some (OrderModifier orders) \<Rightarrow> walks (map (or_unsafe ''null ORDER BY expression'') orders)
      | Some (LimitModifier limit offset) \<Rightarrow> walks [if_present limit, if_present offset]
      | Some (DistinctModifier targets) \<Rightarrow> WalkExpressions targets
      | Some (LimitPercentModifier limit offset) \<Rightarrow> walks [if_present limit, if_present offset]
      | Some UnsupportedModifier \<Rightarrow> Unsafe ''unsupported query modifier'')"

definition WalkModifiers :: "walk ResultModifier option list \<Rightarrow> walk" where
  "WalkModifiers modifiers = walks (map WalkModifier modifiers)"

definition MergeOnlyUpdates :: "('t, 'e) MergeNode \<Rightarrow> bool" where
  "MergeOnlyUpdates node =
     (let actions = concat (mn_actions node)
      in (\<forall>a \<in> set actions. case a of None \<Rightarrow> False | Some act \<Rightarrow> ma_type act = MERGE_UPDATE) \<and> actions \<noteq> [])"

definition WalkSetInfo :: "walk UpdateSetInfo option \<Rightarrow> walk" where
  "WalkSetInfo info =
     (case info of
        None \<Rightarrow> (\<lambda>ctx. ctx)
      | Some i \<Rightarrow> walks [WalkExpressions (usi_expressions i), if_present (usi_condition i)])"

definition WalkInsert :: "(walk, walk, walk) InsertNode \<Rightarrow> walk" where
  "WalkInsert node =
     walks [on_req (AddObject (in_target node)), if_present (in_select node), if_present (in_table_ref node),
            WalkExpressions (in_returning node),
            (case in_on_conflict node of
               None \<Rightarrow> (\<lambda>ctx. ctx)
             | Some oc \<Rightarrow> walks [WalkSetInfo (oci_set_info oc), if_present (oci_condition oc)])]"

definition WalkUpdate :: "(walk, walk) UpdateNode \<Rightarrow> walk" where
  "WalkUpdate node =
     walks [if_present (un_table node), if_present (un_from_table node), WalkSetInfo (un_set_info node),
            WalkExpressions (un_returning node)]"

definition WalkDelete :: "(walk, walk) DeleteNode \<Rightarrow> walk" where
  "WalkDelete node =
     walks [if_present (dn_table node), walks (map if_present (dn_using node)), if_present (dn_condition node),
            WalkExpressions (dn_returning node)]"

definition WalkMergeAction :: "walk MergeAction option \<Rightarrow> walk" where
  "WalkMergeAction action =
     (case action of
        None \<Rightarrow> Unsafe ''null MERGE action''
      | Some a \<Rightarrow> walks [if_present (ma_condition a), WalkSetInfo (ma_update_info a), WalkExpressions (ma_expressions a)])"

definition WalkMerge :: "(walk, walk) MergeNode \<Rightarrow> walk" where
  "WalkMerge node =
     walks [if_present (mn_target node), if_present (mn_source node), if_present (mn_join_condition node),
            walks (map WalkMergeAction (concat (mn_actions node))), WalkExpressions (mn_returning node)]"

text \<open>A modification inside a query is unsafe unless it is what the request is about.\<close>

definition hidden :: "Action \<Rightarrow> string \<Rightarrow> walk" where
  "hidden action message ctx = (if ar_action (wc_req ctx) \<noteq> action then Unsafe message ctx else ctx)"

definition state_functions :: "string list" where
  "state_functions = [''current_setting'', ''getvariable'', ''nextval'', ''currval'']"

section \<open>Table references\<close>

definition WalkBaseTable :: "target \<Rightarrow> walk" where
  "WalkBaseTable t ctx =
     (if fst t = [] \<and> fst (snd t) = [] \<and> IsCte (lower_ascii (snd (snd t))) ctx then ctx
      else if IsReplacementScanName t then Unsafe ''path-like replacement scan'' ctx
      else on_req (AddObject t) ctx)"

definition table_function_name :: "Expression option \<Rightarrow> string" where
  "table_function_name e = (case e of Some (Expression (Function name) children) \<Rightarrow> name | _ \<Rightarrow> [])"

definition WalkTableFunction :: "string \<Rightarrow> walk" where
  "WalkTableFunction fn_name =
     (if fn_name = [] then on_req (\<lambda>req. req\<lparr>ar_unsafe := True, ar_error := ''unnamed table function''\<rparr>)
      else walks [on_req (AddFunctionObject fn_name),
                  if lower_ascii fn_name = ''query'' \<or> lower_ascii fn_name = ''query_table''
                  then Unsafe ''dynamic SQL table function'' else (\<lambda>ctx. ctx)])"

definition quoted :: "string \<Rightarrow> string" where
  "quoted s = [CHR 0x22] @ s @ [CHR 0x22]"

definition WalkShowTarget :: "target \<Rightarrow> walk" where
  "WalkShowTarget t ctx =
     (let name = snd (snd t)
      in if name = quoted ''variables'' then Unsafe ''SHOW VARIABLES exposes session variables'' ctx
         else if name \<in> {quoted ''databases'', quoted ''schemas'', quoted ''tables'', ''__show_tables_expanded''} then ctx
         else if name = [] then Unsafe ''SHOW without inspectable target'' ctx
         else if IsReplacementScanName t then Unsafe ''path-like SHOW target'' ctx
         else if \<not> (fst t = [] \<and> fst (snd t) = [] \<and> IsCte (lower_ascii name) ctx) then on_req (AddObject t) ctx
         else ctx)"

section \<open>The recursive walk\<close>

primrec WalkExpression :: "Expression \<Rightarrow> walk"
  and WalkClass :: "ExpressionClass \<Rightarrow> walk"
  and WalkQueryNode :: "QueryNode \<Rightarrow> walk"
  and WalkQueryBody :: "QueryBody \<Rightarrow> walk"
  and WalkTableRef :: "TableRef \<Rightarrow> walk" where
  "WalkExpression (Expression cls children) = walks (WalkClass cls # map WalkExpression children)"
| "WalkClass (ColumnRef names) = (if names \<noteq> [] then on_req (AddColumn (last names)) else (\<lambda>ctx. ctx))"
| "WalkClass Star = on_req (AddColumn ''*'')"
| "WalkClass (Subquery query) = or_unsafe ''null expression subquery'' (map_option WalkQueryNode query)"
| "WalkClass (Function name) =
     (if lower_ascii name \<in> set state_functions then Unsafe ''state-reading or mutating scalar function'' else (\<lambda>ctx. ctx))"
| "WalkClass Constant = (\<lambda>ctx. ctx)"
| "WalkClass OtherClass = (\<lambda>ctx. ctx)"
| "WalkQueryNode (QueryNode cte_map modifiers body) =
     scoped (walks [CteScope (map (map_prod (\<lambda>alias. alias) (map_option (map_option WalkQueryNode))) cte_map),
                    WalkModifiers (map (map_option (map_ResultModifier WalkExpression)) modifiers),
                    WalkQueryBody body])"
| "WalkQueryBody (SelectNode from_table select_list where_clause having qualify groups) =
     walks [if_present (map_option WalkTableRef from_table), WalkExpressions (map (map_option WalkExpression) select_list),
            if_present (map_option WalkExpression where_clause), if_present (map_option WalkExpression having),
            if_present (map_option WalkExpression qualify), WalkExpressions (map (map_option WalkExpression) groups)]"
| "WalkQueryBody (SetOperationNode children) = walks (map WalkQueryNode children)"
| "WalkQueryBody (CTENode ctename query child) =
     walks [or_unsafe ''null CTE body'' (map_option WalkQueryNode query),
            scoped (walks [push_alias (lower_ascii ctename), or_unsafe ''null CTE child'' (map_option WalkQueryNode child)])]"
| "WalkQueryBody (RecursiveCTENode ctename left right) =
     walks [or_unsafe ''null recursive CTE seed'' (map_option WalkQueryNode left),
            scoped (walks [push_alias (lower_ascii ctename), or_unsafe ''null recursive CTE arm'' (map_option WalkQueryNode right)])]"
| "WalkQueryBody BoundSubqueryNode = (\<lambda>ctx. ctx)"
| "WalkQueryBody (UpdateQuery node) =
     walks [hidden Update ''UPDATE hidden in query'', WalkUpdate (map_UpdateNode WalkTableRef WalkExpression node)]"
| "WalkQueryBody (DeleteQuery node) =
     walks [hidden Delete ''DELETE hidden in query'', WalkDelete (map_DeleteNode WalkTableRef WalkExpression node)]"
| "WalkQueryBody (InsertQuery node) =
     walks [hidden Insert ''INSERT hidden in query'', WalkInsert (map_InsertNode WalkQueryNode WalkTableRef WalkExpression node)]"
| "WalkQueryBody (MergeQuery node) =
     walks [if MergeOnlyUpdates node then hidden Update ''MERGE hidden in query'' else Unsafe ''MERGE hidden in query'',
            WalkMerge (map_MergeNode WalkTableRef WalkExpression node)]"
| "WalkQueryBody (CopyQuery info) =
     walks [hidden CopyTo ''COPY hidden in query'',
            or_unsafe ''null COPY info'' (map_option WalkCopyInfo (map_option (map_CopyInfo WalkQueryNode WalkExpression) info))]"
| "WalkQueryBody UnsupportedNode = Unsafe ''unsupported query node''"
| "WalkTableRef (BaseTableRef t at_clause) =
     walks [(case map_option (map_option WalkExpression) at_clause of
               None \<Rightarrow> (\<lambda>ctx. ctx) | Some e \<Rightarrow> or_unsafe ''null AT clause expression'' e), WalkBaseTable t]"
| "WalkTableRef (JoinRef left right condition) =
     walks [if_present (map_option WalkTableRef left), if_present (map_option WalkTableRef right),
            if_present (map_option WalkExpression condition)]"
| "WalkTableRef (SubqueryRef query) = or_unsafe ''null subquery ref'' (map_option WalkQueryNode query)"
| "WalkTableRef (TableFunctionRef function subquery) =
     walks [WalkTableFunction (table_function_name function), if_present (map_option WalkExpression function),
            (case map_option (map_option WalkQueryNode) subquery of
               None \<Rightarrow> (\<lambda>ctx. ctx) | Some q \<Rightarrow> or_unsafe ''null table-function subquery'' q)]"
| "WalkTableRef (PivotRef source aggregates pivots) =
     walks [if_present (map_option WalkTableRef source), WalkExpressions (map (map_option WalkExpression) aggregates),
            walks (map (\<lambda>(exprs, subquery, entries). walks [WalkExpressions exprs, if_present subquery, WalkExpressions entries])
              (map (map_prod (map (map_option WalkExpression)) (map_prod (map_option WalkQueryNode) (map (map_option WalkExpression)))) pivots))]"
| "WalkTableRef (ExpressionListRef rows) = walks (map WalkExpressions (map (map (map_option WalkExpression)) rows))"
| "WalkTableRef (ShowRef t query) =
     (case map_option WalkQueryNode query of None \<Rightarrow> WalkShowTarget t | Some w \<Rightarrow> w)"
| "WalkTableRef InertRef = (\<lambda>ctx. ctx)"
| "WalkTableRef UnsupportedRef = Unsafe ''unsupported table reference''"

section \<open>Statements\<close>

definition dml_scope :: "cte_map \<Rightarrow> walk \<Rightarrow> walk" where
  "dml_scope ctes w =
     scoped (walks [CteScope (map (map_prod (\<lambda>alias. alias) (map_option (map_option WalkQueryNode))) ctes), w])"

definition walk_named :: "named_expressions \<Rightarrow> walk" where
  "walk_named exprs = WalkNamedExpressions (map (map_prod (\<lambda>name. name) (map_option WalkExpression)) exprs)"

definition WalkColumnDefinition :: "ColumnDefinition \<Rightarrow> walk" where
  "WalkColumnDefinition column =
     (case column of GeneratedColumn e \<Rightarrow> WalkExpression e | DefaultColumn e \<Rightarrow> WalkExpression e | PlainColumn \<Rightarrow> (\<lambda>ctx. ctx))"

definition WalkConstraint :: "TableConstraint option \<Rightarrow> walk" where
  "WalkConstraint constraint =
     (case constraint of
        None \<Rightarrow> Unsafe ''null CREATE TABLE constraint''
      | Some (CheckConstraint e) \<Rightarrow> or_unsafe ''null CHECK expression'' (map_option WalkExpression e)
      | Some InertConstraint \<Rightarrow> (\<lambda>ctx. ctx)
      | Some UnknownConstraint \<Rightarrow> Unsafe ''unknown CREATE TABLE constraint'')"

definition WalkDrop :: "(bool \<times> target) option \<Rightarrow> walk" where
  "WalkDrop info =
     (case info of
        None \<Rightarrow> Unsafe ''null DROP info''
      | Some (table_or_view, t) \<Rightarrow>
          walks [if table_or_view then (\<lambda>ctx. ctx) else Unsafe ''unsupported DROP entry type'',
                 if snd (snd t) = [] then Unsafe ''unnamed DROP target'' else on_req (AddObject t)])"

definition WalkAlter :: "(target \<times> AlterTable option) option \<Rightarrow> walk" where
  "WalkAlter info =
     (case info of
        None \<Rightarrow> Unsafe ''null ALTER info''
      | Some (t, alter) \<Rightarrow>
          walks [if snd (snd t) = [] then Unsafe ''unnamed ALTER target'' else on_req (AddObject t),
                 (case alter of
                    None \<Rightarrow> Unsafe ''unsupported ALTER kind''
                  | Some InertAlter \<Rightarrow> (\<lambda>ctx. ctx)
                  | Some (AlterColumnType e) \<Rightarrow> or_unsafe ''null ALTER TYPE expression'' (map_option WalkExpression e)
                  | Some (SetDefault e) \<Rightarrow> if_present (map_option WalkExpression e)
                  | Some (AddColumnInfo column) \<Rightarrow> WalkColumnDefinition column
                  | Some UnsupportedAlter \<Rightarrow> Unsafe ''unsupported ALTER subtype'')])"

definition ClassifyPragma :: "string option \<Rightarrow> WalkCtx \<Rightarrow> Action \<times> WalkCtx" where
  "ClassifyPragma info ctx =
     (case info of
        None \<Rightarrow> (Pragma, Unsafe ''null PRAGMA info'' ctx)
      | Some pragma \<Rightarrow>
          let name = lower_ascii pragma
          in if name \<in> {''quack_serve'', ''quack_stop'', ''quack_restart''} then (ServeAdmin, ctx)
             else
               let ctx1 = (if starts_with name ''quack_oauth_'' then Unsafe ''quack_oauth PRAGMA is not inspectable'' ctx else ctx)
               in (Pragma, if \<not> AllowedPragma name then Unsafe ''PRAGMA is not allowlisted'' ctx1 else ctx1))"

definition ClassifySet :: "string \<Rightarrow> bool \<Rightarrow> bool \<Rightarrow> walk" where
  "ClassifySet setting_name global_scope is_set =
     (let name = lower_ascii setting_name
      in walks [if starts_with name ''quack_oauth_'' \<or> \<not> AllowedSetting name
                then Unsafe ''SET/RESET is not allowlisted'' else (\<lambda>ctx. ctx),
                if global_scope then Unsafe ''GLOBAL SET/RESET changes shared state'' else (\<lambda>ctx. ctx),
                if \<not> is_set then Unsafe ''RESET changes shared state'' else (\<lambda>ctx. ctx)])"

definition ClassifyStatement :: "SQLStatement \<Rightarrow> WalkCtx \<Rightarrow> Action \<times> WalkCtx" where
  "ClassifyStatement s ctx =
     (case s of
        SelectStatement _ \<Rightarrow> (Scan, ctx)
      | ExplainStatement _ _ \<Rightarrow> (Scan, ctx)
      | RelationStatement \<Rightarrow> (Scan, ctx)
      | InsertStatement _ _ \<Rightarrow> (Insert, ctx)
      | UpdateStatement _ _ \<Rightarrow> (Update, ctx)
      | DeleteStatement _ _ \<Rightarrow> (Delete, ctx)
      | MergeIntoStatement _ node \<Rightarrow>
          (Update, if \<not> MergeOnlyUpdates node then Unsafe ''MERGE has non-UPDATE action'' ctx else ctx)
      | CreateStatement _ \<Rightarrow> (Ddl, ctx)
      | DropStatement _ \<Rightarrow> (Ddl, ctx)
      | AlterStatement _ \<Rightarrow> (Ddl, ctx)
      | TransactionStatement \<Rightarrow> (Ddl, ctx)
      | DetachStatement _ \<Rightarrow> (Ddl, ctx)
      | CreateFuncStatement \<Rightarrow> (Ddl, Unsafe ''CREATE FUNCTION body is not inspectable'' ctx)
      | CopyStatement info \<Rightarrow> (case info of Some i \<Rightarrow> if ci_is_from i then CopyFrom else CopyTo | None \<Rightarrow> CopyTo, ctx)
      | AttachStatement _ \<Rightarrow> (Attach, ctx)
      | PragmaStatement info \<Rightarrow> ClassifyPragma (map_option fst info) ctx
      | SetStatement name global_scope is_set _ \<Rightarrow> (Pragma, ClassifySet name global_scope is_set ctx)
      | LoadStatement \<Rightarrow> (Ddl, Unsafe ''extension LOAD or INSTALL'' ctx)
      | OtherStatement \<Rightarrow> (Scan, Unsafe ''unsupported statement type'' ctx))"

definition is_constant :: "Expression \<Rightarrow> bool" where
  "is_constant e = (case e of Expression cls children \<Rightarrow> cls = Constant)"

definition WalkSetStatement :: "string \<Rightarrow> bool \<Rightarrow> (Expression \<times> string) option \<Rightarrow> walk" where
  "WalkSetStatement setting_name is_set val =
     (if \<not> is_set then (\<lambda>ctx. ctx)
      else case val of
        None \<Rightarrow> Unsafe ''null SET value''
      | Some (e, text) \<Rightarrow>
          walks [WalkExpression e,
                 if \<not> is_constant e then Unsafe ''nonconstant SET value'' else (\<lambda>ctx. ctx),
                 if lower_ascii setting_name = ''threads'' \<and> text \<noteq> ''4''
                 then Unsafe ''threads setting must be the approved value 4'' else (\<lambda>ctx. ctx)])"

text \<open>The checks of the inner statement's kind apply to an \<open>EXPLAIN\<close> too; its action is dropped.\<close>

definition WalkExplain :: "bool \<Rightarrow> SQLStatement option \<Rightarrow> walk option \<Rightarrow> walk" where
  "WalkExplain analyze stmt walk_stmt =
     (case stmt of
        None \<Rightarrow> Unsafe ''null EXPLAIN statement''
      | Some inner \<Rightarrow>
          walks [if analyze then Unsafe ''EXPLAIN ANALYZE may execute SQL'' else (\<lambda>ctx. ctx),
                 (\<lambda>ctx. snd (ClassifyStatement inner ctx)), if_present walk_stmt])"

primrec WalkStatement :: "SQLStatement \<Rightarrow> walk"
  and WalkCreate :: "CreateInfo \<Rightarrow> walk" where
  "WalkStatement (SelectStatement node) = if_present (map_option WalkQueryNode node)"
| "WalkStatement (ExplainStatement analyze stmt) =
     WalkExplain analyze stmt (map_option WalkStatement stmt)"
| "WalkStatement RelationStatement = (\<lambda>ctx. ctx)"
| "WalkStatement (InsertStatement ctes node) =
     dml_scope ctes (WalkInsert (map_InsertNode WalkQueryNode WalkTableRef WalkExpression node))"
| "WalkStatement (UpdateStatement ctes node) = dml_scope ctes (WalkUpdate (map_UpdateNode WalkTableRef WalkExpression node))"
| "WalkStatement (DeleteStatement ctes node) = dml_scope ctes (WalkDelete (map_DeleteNode WalkTableRef WalkExpression node))"
| "WalkStatement (MergeIntoStatement ctes node) = dml_scope ctes (WalkMerge (map_MergeNode WalkTableRef WalkExpression node))"
| "WalkStatement (CopyStatement info) =
     or_unsafe ''null COPY info'' (map_option WalkCopyInfo (map_option (map_CopyInfo WalkQueryNode WalkExpression) info))"
| "WalkStatement (CreateStatement info) = or_unsafe ''null CREATE info'' (map_option WalkCreate info)"
| "WalkStatement (DropStatement info) = WalkDrop info"
| "WalkStatement (AlterStatement info) = WalkAlter info"
| "WalkStatement TransactionStatement = (\<lambda>ctx. ctx)"
| "WalkStatement (DetachStatement info) =
     (case info of
        None \<Rightarrow> Unsafe ''null DETACH info''
      | Some name \<Rightarrow> if lower_ascii name = [] then Unsafe ''unnamed DETACH target''
                     else on_req (AddNamedObject (''catalog:'' @ lower_ascii name)))"
| "WalkStatement CreateFuncStatement = Unsafe ''CREATE FUNCTION body is not inspectable''"
| "WalkStatement (AttachStatement info) =
     (case info of None \<Rightarrow> Unsafe ''null ATTACH info'' | Some parsed_options \<Rightarrow> walk_named parsed_options)"
| "WalkStatement (PragmaStatement info) =
     (case info of
        None \<Rightarrow> Unsafe ''null PRAGMA info''
      | Some (name, parameters, named_parameters) \<Rightarrow>
          walks [WalkExpressions (map (map_option WalkExpression) parameters), walk_named named_parameters])"
| "WalkStatement (SetStatement name global_scope is_set val) = WalkSetStatement name is_set val"
| "WalkStatement LoadStatement = (\<lambda>ctx. ctx)"
| "WalkStatement OtherStatement = Unsafe ''unsupported statement walk''"
| "WalkCreate (CreateTableInfo t query columns constraints partition_keys sort_keys table_options) =
     walks [on_req (AddObject t),
            (case map_option (map_option WalkQueryNode) query of
               None \<Rightarrow> (\<lambda>ctx. ctx) | Some q \<Rightarrow> or_unsafe ''null CREATE TABLE query'' q),
            walks (map WalkColumnDefinition columns), walks (map WalkConstraint constraints),
            WalkExpressions (map (map_option WalkExpression) partition_keys),
            WalkExpressions (map (map_option WalkExpression) sort_keys), walk_named table_options]"
| "WalkCreate (CreateViewInfo t query) =
     walks [on_req (AddObject t), or_unsafe ''null CREATE VIEW query'' (map_option WalkQueryNode query)]"
| "WalkCreate (CreateTypeInfo t query) = walks [on_req (AddObject t), if_present (map_option WalkStatement query)]"
| "WalkCreate (CreateMacroInfo t) = walks [on_req (AddObject t), Unsafe ''CREATE MACRO body requires catalog binding'']"
| "WalkCreate (CreateSchemaInfo t schema_options) =
     walks [if fst t \<noteq> [] then Unsafe ''catalog-qualified CREATE SCHEMA'' else (\<lambda>ctx. ctx),
            if fst (snd t) = [] then Unsafe ''unnamed CREATE SCHEMA''
            else on_req (AddNamedObject (''schema:'' @ lower_ascii (fst (snd t)))),
            walk_named schema_options]"
| "WalkCreate UnsupportedCreate = Unsafe ''unsupported CREATE body''"

section \<open>A whole query\<close>

definition new_AuthzRequest :: AuthzRequest where
  "new_AuthzRequest = \<lparr>ar_action = Scan, ar_objects = [], ar_columns = [], ar_unsafe = False, ar_error = []\<rparr>"

text \<open>One statement of a query; \<open>first\<close> tells whether the request has its action yet.\<close>

definition inspect_statement :: "bool \<Rightarrow> SQLStatement option \<Rightarrow> AuthzRequest \<Rightarrow> bool \<times> AuthzRequest" where
  "inspect_statement first stmt req =
     (case stmt of
        None \<Rightarrow> (first, mark_unsafe ''null statement'' req)
      | Some s \<Rightarrow>
          (case ClassifyStatement s \<lparr>wc_req = req, wc_cte_names = []\<rparr> of
             (action, ctx) \<Rightarrow>
               let ctx1 = (if first then on_req (\<lambda>r. r\<lparr>ar_action := action\<rparr>) ctx
                           else if action \<noteq> ar_action (wc_req ctx) then Unsafe ''mixed statement actions'' ctx else ctx)
               in (False, wc_req (WalkStatement s ctx1))))"

fun inspect_statements :: "bool \<Rightarrow> SQLStatement option list \<Rightarrow> AuthzRequest \<Rightarrow> AuthzRequest" where
  "inspect_statements first [] req = req"
| "inspect_statements first (stmt # stmts) req =
     (case inspect_statement first stmt req of (first', req') \<Rightarrow> inspect_statements first' stmts req')"

text \<open>\<open>parse\<close> is \<open>ParseBuiltin\<close>: an exception with its message, or without one for what is no \<open>std::exception\<close>.\<close>

definition InspectSql :: "(string \<Rightarrow> string option + SQLStatement option list) \<Rightarrow> string \<Rightarrow> AuthzRequest" where
  "InspectSql parse query =
     (if query = [] then new_AuthzRequest
      else case parse query of
        Inl e \<Rightarrow> new_AuthzRequest\<lparr>ar_unsafe := True, ar_error := (case e of Some what \<Rightarrow> what | None \<Rightarrow> ''parse_error'')\<rparr>
      | Inr statements \<Rightarrow> inspect_statements True statements new_AuthzRequest)"

end
