(* ===== verification/Sql_Gating.thy ===== *)
theory Sql_Gating
  imports Sql_Inspect
begin

text \<open>
  What the inspection of SQL promises. The functions \<open>reach_\<close> say, by recursion over a parsed statement
  and without any state, what it reaches: every table that no CTE in scope stands for, every table
  function, column reference and scalar function, and every modification nested in a query, wherever
  they occur. The walk is shown to account for all of it, or to mark the request unsafe.
\<close>

section \<open>What a query reaches\<close>

text \<open>
  \<open>TableRead\<close> is a table in a FROM clause, \<open>TableAccess\<close> the target of a statement, \<open>NamedAccess\<close> a schema or
  a catalog. \<open>Modification\<close> is an INSERT, UPDATE, DELETE, MERGE or COPY inside a query, with its action;
  a MERGE that does not only update has none.
\<close>

datatype access = TableAccess target | TableRead target | FunctionAccess string | ColumnAccess string
  | ScalarCall string | Modification "Action option" | NamedAccess string

text \<open>What a part of a query reaches depends on the CTE names in scope.\<close>

type_synonym reach = "string set \<Rightarrow> access set"

definition anywhere :: "reach set \<Rightarrow> reach" where
  "anywhere F S = (\<Union>f \<in> F. f S)"

definition opts :: "reach option list \<Rightarrow> reach set" where
  "opts fs = \<Union> (set_option ` set fs)"

definition names_cte :: "string set \<Rightarrow> target \<Rightarrow> bool" where
  "names_cte S t \<longleftrightarrow> fst t = [] \<and> fst (snd t) = [] \<and> lower_ascii (snd (snd t)) \<in> S"

definition with_name :: "string \<Rightarrow> string set \<Rightarrow> string set" where
  "with_name alias S = (if alias = [] then S else insert (lower_ascii alias) S)"

fun reach_ctes :: "(string \<times> reach option option) list \<Rightarrow> reach" where
  "reach_ctes [] S = {}"
| "reach_ctes ((alias, def) # ctes) S =
     anywhere (\<Union> (set_option ` set_option def)) S \<union> reach_ctes ctes (insert (lower_ascii alias) S)"

definition cte_names :: "(string \<times> 'a) list \<Rightarrow> string set" where
  "cte_names ctes = (\<lambda>(alias, def). lower_ascii alias) ` set ctes"

definition show_listing :: "target \<Rightarrow> bool" where
  "show_listing t \<longleftrightarrow>
     snd (snd t) \<in> {quoted ''databases'', quoted ''schemas'', quoted ''tables'', ''__show_tables_expanded''}"

primrec reach_expression :: "Expression \<Rightarrow> reach"
  and reach_class :: "ExpressionClass \<Rightarrow> reach"
  and reach_query :: "QueryNode \<Rightarrow> reach"
  and reach_body :: "QueryBody \<Rightarrow> reach"
  and reach_table :: "TableRef \<Rightarrow> reach" where
  "reach_expression (Expression cls children) = anywhere (insert (reach_class cls) (set (map reach_expression children)))"
| "reach_class (ColumnRef names) = (\<lambda>S. if names = [] then {} else {ColumnAccess (last names)})"
| "reach_class Star = (\<lambda>S. {ColumnAccess ''*''})"
| "reach_class (Subquery query) = anywhere (set_option (map_option reach_query query))"
| "reach_class (Function name) = (\<lambda>S. {ScalarCall name})"
| "reach_class Constant = (\<lambda>S. {})"
| "reach_class OtherClass = (\<lambda>S. {})"
| "reach_query (QueryNode ctes modifiers body) =
     (\<lambda>S. reach_ctes (map (map_prod (\<lambda>alias. alias) (map_option (map_option reach_query))) ctes) S \<union>
        anywhere (insert (reach_body body)
          (\<Union> (set_ResultModifier ` \<Union> (set_option ` set (map (map_option (map_ResultModifier reach_expression)) modifiers)))))
          (S \<union> cte_names ctes))"
| "reach_body (SelectNode from_table select_list where_clause having qualify groups) =
     anywhere (opts (map_option reach_table from_table # map (map_option reach_expression) select_list @
       [map_option reach_expression where_clause, map_option reach_expression having, map_option reach_expression qualify] @
       map (map_option reach_expression) groups))"
| "reach_body (SetOperationNode children) = anywhere (set (map reach_query children))"
| "reach_body (CTENode ctename query child) =
     (\<lambda>S. anywhere (set_option (map_option reach_query query)) S \<union>
          anywhere (set_option (map_option reach_query child)) (with_name ctename S))"
| "reach_body (RecursiveCTENode ctename left right) =
     (\<lambda>S. anywhere (set_option (map_option reach_query left)) S \<union>
          anywhere (set_option (map_option reach_query right)) (with_name ctename S))"
| "reach_body BoundSubqueryNode = (\<lambda>S. {})"
| "reach_body (UpdateQuery node) = (\<lambda>S. insert (Modification (Some Update)) (
     anywhere (set1_UpdateNode (map_UpdateNode reach_table reach_expression node) \<union>
       set2_UpdateNode (map_UpdateNode reach_table reach_expression node)) S))"
| "reach_body (DeleteQuery node) = (\<lambda>S. insert (Modification (Some Delete)) (
     anywhere (set1_DeleteNode (map_DeleteNode reach_table reach_expression node) \<union>
       set2_DeleteNode (map_DeleteNode reach_table reach_expression node)) S))"
| "reach_body (InsertQuery node) =
     (\<lambda>S. {Modification (Some Insert), TableAccess (in_target node)} \<union>
       (anywhere (set1_InsertNode (map_InsertNode reach_query reach_table reach_expression node) \<union>
          set2_InsertNode (map_InsertNode reach_query reach_table reach_expression node) \<union>
          set3_InsertNode (map_InsertNode reach_query reach_table reach_expression node)) S))"
| "reach_body (MergeQuery node) =
     (\<lambda>S. insert (Modification (if MergeOnlyUpdates node then Some Update else None)) (anywhere (set1_MergeNode (map_MergeNode reach_table reach_expression node) \<union>
       set2_MergeNode (map_MergeNode reach_table reach_expression node)) S))"
| "reach_body (CopyQuery info) =
     (\<lambda>S. insert (Modification (Some CopyTo)) ((TableAccess \<circ> ci_target) ` set_option info) \<union>
        anywhere (\<Union> (set1_CopyInfo ` set_option (map_option (map_CopyInfo reach_query reach_expression) info)) \<union>
          \<Union> (set2_CopyInfo ` set_option (map_option (map_CopyInfo reach_query reach_expression) info))) S)"
| "reach_body UnsupportedNode = (\<lambda>S. {})"
| "reach_table (BaseTableRef t at_clause) =
     (\<lambda>S. (if names_cte S t then {} else {TableRead t}) \<union>
        anywhere (\<Union> (set_option ` set_option (map_option (map_option reach_expression) at_clause))) S)"
| "reach_table (JoinRef left right condition) =
     anywhere (opts [map_option reach_table left, map_option reach_table right, map_option reach_expression condition])"
| "reach_table (SubqueryRef query) = anywhere (set_option (map_option reach_query query))"
| "reach_table (TableFunctionRef function subquery) =
     (\<lambda>S. insert (FunctionAccess (table_function_name function))
        (anywhere (set_option (map_option reach_expression function) \<union>
          \<Union> (set_option ` set_option (map_option (map_option reach_query) subquery))) S))"
| "reach_table (PivotRef source aggregates pivots) =
     anywhere (opts (map_option reach_table source # map (map_option reach_expression) aggregates) \<union>
       (\<Union>(exprs, subquery, entries) \<in> set (map (map_prod (map (map_option reach_expression))
          (map_prod (map_option reach_query) (map (map_option reach_expression)))) pivots).
          opts (exprs @ subquery # entries)))"
| "reach_table (ExpressionListRef rows) = anywhere (opts (concat (map (map (map_option reach_expression)) rows)))"
| "reach_table (ShowRef t query) =
     (\<lambda>S. anywhere (set_option (map_option reach_query query)) S \<union>
        (if query = None \<and> \<not> show_listing t \<and> \<not> names_cte S t then {TableRead t} else {}))"
| "reach_table InertRef = (\<lambda>S. {})"
| "reach_table UnsupportedRef = (\<lambda>S. {})"

section \<open>What a request accounts for\<close>

definition schema_of :: "target \<Rightarrow> string" where
  "schema_of t = (if fst (snd t) = [] then ''main'' else lower_ascii (fst (snd t)))"

definition object_of :: "target \<Rightarrow> string" where
  "object_of t = schema_of t @ ''.'' @ lower_ascii (snd (snd t))"

definition gated_table :: "AuthzRequest \<Rightarrow> target \<Rightarrow> bool" where
  "gated_table req t \<longleftrightarrow>
     fst t = [] \<and>
     (if schema_of t \<in> {''information_schema'', ''pg_catalog''} then schema_of t = ''information_schema'' \<and> lower_ascii (snd (snd t)) = ''tables''
      else \<not> (schema_of t = ''main'' \<and> LooksLikeUnqualifiedSystemView (lower_ascii (snd (snd t)))) \<and> object_of t \<in> set (ar_objects req))"

fun accounted :: "AuthzRequest \<Rightarrow> access \<Rightarrow> bool" where
  "accounted req (TableAccess t) \<longleftrightarrow> snd (snd t) = [] \<or> gated_table req t"
| "accounted req (TableRead t) \<longleftrightarrow> snd (snd t) = [] \<or> \<not> IsReplacementScanName t \<and> gated_table req t"
| "accounted req (FunctionAccess name) \<longleftrightarrow>
     lower_ascii name \<notin> {''query'', ''query_table''} \<and>
     (lower_ascii name \<in> {''duckdb_tables'', ''duckdb_columns''} \<or> ''fn:'' @ lower_ascii name \<in> set (ar_objects req))"
| "accounted req (ColumnAccess col) \<longleftrightarrow> col = [] \<or> lower_ascii col \<in> set (ar_columns req)"
| "accounted req (ScalarCall name) \<longleftrightarrow> lower_ascii name \<notin> set state_functions"
| "accounted req (Modification action) \<longleftrightarrow> action = Some (ar_action req)"
| "accounted req (NamedAccess obj) \<longleftrightarrow> obj \<in> set (ar_objects req)"

definition wf_request :: "AuthzRequest \<Rightarrow> bool" where
  "wf_request req \<longleftrightarrow>
     distinct (ar_objects req) \<and> distinct (ar_columns req) \<and> (ar_unsafe req \<longleftrightarrow> ar_error req \<noteq> []) \<and>
     (\<forall>name \<in> set (ar_objects req) \<union> set (ar_columns req). name \<noteq> [] \<and> lower_ascii name = name)"

definition extends :: "AuthzRequest \<Rightarrow> AuthzRequest \<Rightarrow> bool" where
  "extends req req' \<longleftrightarrow>
     ar_action req' = ar_action req \<and> set (ar_objects req) \<subseteq> set (ar_objects req') \<and>
     set (ar_columns req) \<subseteq> set (ar_columns req') \<and> (ar_unsafe req \<longrightarrow> ar_unsafe req') \<and>
     (wf_request req \<longrightarrow> wf_request req')"

lemma extends_refl [simp]: "extends r r"
  by (simp add: extends_def)

lemma extends_trans: "extends a b \<Longrightarrow> extends b c \<Longrightarrow> extends a c"
  unfolding extends_def by auto

lemma accounted_mono: "extends r r' \<Longrightarrow> accounted r a \<Longrightarrow> accounted r' a"
  by (cases a) (auto simp: extends_def gated_table_def split: if_splits)

text \<open>A walk is sound for what a part reaches.\<close>

definition sound :: "walk \<Rightarrow> reach \<Rightarrow> bool" where
  "sound w f \<longleftrightarrow>
     (\<forall>c. extends (wc_req c) (wc_req (w c)) \<and> wc_cte_names (w c) = wc_cte_names c \<and>
        (\<not> ar_unsafe (wc_req (w c)) \<longrightarrow> (\<forall>a \<in> f (set (wc_cte_names c)). accounted (wc_req (w c)) a)))"

lemma sound_weaken: "sound w f \<Longrightarrow> (\<And>S. g S \<subseteq> f S) \<Longrightarrow> sound w g"
  unfolding sound_def by blast

lemma sound_id: "sound (\<lambda>ctx. ctx) (\<lambda>S. {})"
  by (simp add: sound_def)

lemma walks_Nil [simp]: "walks [] = (\<lambda>ctx. ctx)"
  by (simp add: walks_def fun_eq_iff)

lemma walks_Cons [simp]: "walks (w # ws) = (\<lambda>ctx. walks ws (w ctx))"
  by (simp add: walks_def fun_eq_iff)

lemma sound_seq:
  assumes "sound w f" "sound v g"
  shows "sound (\<lambda>ctx. v (w ctx)) (\<lambda>S. f S \<union> g S)"
  unfolding sound_def
proof (intro allI conjI impI ballI)
  fix c
  have w: "extends (wc_req c) (wc_req (w c))" "wc_cte_names (w c) = wc_cte_names c" using assms(1) by (simp_all add: sound_def)
  have v: "extends (wc_req (w c)) (wc_req (v (w c)))" "wc_cte_names (v (w c)) = wc_cte_names (w c)"
    using assms(2) by (simp_all add: sound_def)
  show "extends (wc_req c) (wc_req (v (w c)))" using w(1) v(1) by (rule extends_trans)
  show "wc_cte_names (v (w c)) = wc_cte_names c" using w(2) v(2) by simp
  fix a assume safe: "\<not> ar_unsafe (wc_req (v (w c)))" and a: "a \<in> f (set (wc_cte_names c)) \<union> g (set (wc_cte_names c))"
  have "\<not> ar_unsafe (wc_req (w c))" using safe v(1) by (auto simp: extends_def)
  with a safe w(2) v(1) assms show "accounted (wc_req (v (w c))) a"
    unfolding sound_def by (metis Un_iff accounted_mono)
qed

lemma sound_Cons: "sound w f \<Longrightarrow> sound (walks ws) g \<Longrightarrow> sound (walks (w # ws)) (\<lambda>S. f S \<union> g S)"
  by (simp add: sound_seq)

lemma sound_Nil: "sound (walks []) (\<lambda>S. {})"
  by (simp add: sound_id)

section \<open>Soundness of the parts\<close>

lemma wf_snoc_object: "wf_request r \<Longrightarrow> o1 \<noteq> [] \<Longrightarrow> lower_ascii o1 = o1 \<Longrightarrow> wf_request (AddNamedObject o1 r)"
  by (auto simp: wf_request_def AddNamedObject_def)

lemma AddNamedObject_extends:
  assumes "o1 \<noteq> []" "lower_ascii o1 = o1"
  shows "extends r (AddNamedObject o1 r)" "o1 \<in> set (ar_objects (AddNamedObject o1 r))"
  using wf_snoc_object [OF _ assms, of r] by (auto simp: extends_def AddNamedObject_def)

lemma mark_unsafe_extends [simp]: "extends r (mark_unsafe (ch # m) r)" "ar_unsafe (mark_unsafe m r)"
  by (simp_all add: extends_def mark_unsafe_def wf_request_def)

lemma lower_ascii_append [simp]: "lower_ascii (xs @ ys) = lower_ascii xs @ lower_ascii ys"
  by (simp add: lower_ascii_def)

lemma lower_ascii_Cons [simp]: "lower_ascii (c # s) = to_lower c # lower_ascii s"
  by (simp add: lower_ascii_def)

lemma lower_ascii_Nil [simp]: "lower_ascii [] = []"
  by (simp add: lower_ascii_def)

lemma to_lower_literals [simp]:
  "to_lower CHR ''a'' = CHR ''a''" "to_lower CHR ''c'' = CHR ''c''" "to_lower CHR ''e'' = CHR ''e''" "to_lower CHR ''f'' = CHR ''f''"
  "to_lower CHR ''g'' = CHR ''g''" "to_lower CHR ''h'' = CHR ''h''" "to_lower CHR ''i'' = CHR ''i''" "to_lower CHR ''l'' = CHR ''l''"
  "to_lower CHR ''m'' = CHR ''m''" "to_lower CHR ''n'' = CHR ''n''" "to_lower CHR ''o'' = CHR ''o''" "to_lower CHR ''s'' = CHR ''s''"
  "to_lower CHR ''t'' = CHR ''t''" "to_lower CHR '':'' = CHR '':''" "to_lower CHR ''.'' = CHR ''.''" "to_lower CHR ''*'' = CHR ''*''"
  "to_lower CHR ''?'' = CHR ''?''"
  by (simp_all add: to_lower_def uc_def)

lemma lower_schema_of [simp]: "lower_ascii (schema_of t) = schema_of t"
  by (simp add: schema_of_def)

lemma object_of_ok: "object_of t \<noteq> []" "lower_ascii (object_of t) = object_of t"
  by (simp_all add: object_of_def)

lemma AddObject_cases:
  "AddObject t r =
     (if snd (snd t) = [] then r
      else let r1 = if fst t \<noteq> [] then mark_unsafe ''catalog-qualified object'' r else r in
        if schema_of t = ''information_schema'' \<or> schema_of t = ''pg_catalog''
        then if \<not> IsAllowedSystemView (schema_of t) (lower_ascii (snd (snd t))) then mark_unsafe ''system view is not allowlisted'' r1 else r1
        else if schema_of t = ''main'' \<and> LooksLikeUnqualifiedSystemView (lower_ascii (snd (snd t)))
        then mark_unsafe ''unqualified system view is not allowlisted'' r1
        else AddNamedObject (object_of t) r1)"
  by (cases t) (simp add: AddObject_def schema_of_def object_of_def Let_def)

lemma AddObject_extends: "extends r (AddObject t r)"
proof -
  define r1 where "r1 = (if fst t \<noteq> [] then mark_unsafe ''catalog-qualified object'' r else r)"
  have 1: "extends r r1" by (simp add: r1_def)
  have "extends r (AddNamedObject (object_of t) r1)" "extends r (mark_unsafe (ch # m) r1)" for ch m
    using extends_trans [OF 1 AddNamedObject_extends(1) [OF object_of_ok]] extends_trans [OF 1 mark_unsafe_extends(1)] by blast+
  with 1 show ?thesis unfolding AddObject_cases Let_def r1_def [symmetric] by simp
qed

lemma AddNamedObject_unsafe [simp]: "ar_unsafe (AddNamedObject o1 r) = ar_unsafe r"
  by (simp add: AddNamedObject_def)

lemma AddObject_accounted:
  assumes "\<not> ar_unsafe (AddObject t r)"
  shows "accounted (AddObject t r) (TableAccess t)"
proof (cases "snd (snd t) = []")
  case False
  note A = assms [unfolded AddObject_cases Let_def]
  have cat: "fst t = []" using A False by (auto split: if_splits)
  show ?thesis
    using A False cat AddNamedObject_extends(2) [OF object_of_ok, of t r]
    by (auto simp: AddObject_cases Let_def IsAllowedSystemView_def gated_table_def split: if_splits)
qed simp

lemma AddColumn_extends: "extends r (AddColumn col r)"
  by (auto simp: AddColumn_def extends_def wf_request_def Let_def)

lemma AddFunctionObject_extends: "extends r (AddFunctionObject name r)"
proof -
  have "lower_ascii (if name = [] then ''?'' else name) \<noteq> []" by simp
  then show ?thesis
    unfolding AddFunctionObject_def Let_def
    using AddNamedObject_extends(1) [of "''fn:'' @ lower_ascii (if name = [] then ''?'' else name)" r] by simp
qed

lemma sound_on_req:
  assumes "\<And>r. extends r (h r)" "\<And>r a S. \<not> ar_unsafe (h r) \<Longrightarrow> a \<in> f S \<Longrightarrow> accounted (h r) a"
  shows "sound (on_req h) f"
  using assms by (auto simp: sound_def on_req_def)

lemma sound_Unsafe_any: "sound (Unsafe (ch # m)) f"
  unfolding Unsafe_def by (rule sound_on_req) simp_all

lemma sound_Unsafe: "sound (Unsafe (ch # m)) (\<lambda>S. {})"
  by (rule sound_Unsafe_any)

lemma sound_AddObject: "sound (on_req (AddObject t)) (\<lambda>S. {TableAccess t})"
  by (rule sound_on_req) (auto simp: AddObject_extends simp del: accounted.simps intro: AddObject_accounted)

lemma sound_AddNamedObject: "o1 \<noteq> [] \<Longrightarrow> lower_ascii o1 = o1 \<Longrightarrow> sound (on_req (AddNamedObject o1)) (\<lambda>S. {})"
  by (rule sound_on_req) (auto intro: AddNamedObject_extends)

lemma sound_AddColumn: "sound (on_req (AddColumn col)) (\<lambda>S. {ColumnAccess col})"
  by (rule sound_on_req [OF AddColumn_extends]) (auto simp: AddColumn_def Let_def)

lemma sound_if_present:
  assumes "\<And>x. x \<in> set_option p \<Longrightarrow> sound (w x) (f x)"
  shows "sound (if_present (map_option w p)) (\<lambda>S. \<Union>x \<in> set_option p. f x S)"
  using assms by (cases p) (simp_all add: if_present_def sound_id)

lemma sound_or_unsafe:
  assumes "\<And>x. x \<in> set_option p \<Longrightarrow> sound (w x) (f x)"
  shows "sound (or_unsafe (ch # m) (map_option w p)) (\<lambda>S. \<Union>x \<in> set_option p. f x S)"
  using assms by (cases p) (simp_all add: or_unsafe_def sound_Unsafe)

lemma sound_map:
  assumes "\<And>x. x \<in> set xs \<Longrightarrow> sound (w x) (f x)"
  shows "sound (walks (map w xs)) (\<lambda>S. \<Union>x \<in> set xs. f x S)"
  using assms
proof (induction xs)
  case (Cons x xs)
  then have "sound (walks (w x # map w xs)) (\<lambda>S. f x S \<union> (\<Union>x \<in> set xs. f x S))" by (intro sound_Cons) auto
  then show ?case by simp
qed (simp add: sound_id)

lemma sound_WalkExpressions:
  assumes "\<And>p x. p \<in> set es \<Longrightarrow> x \<in> set_option p \<Longrightarrow> sound (w x) (f x)"
  shows "sound (WalkExpressions (map (map_option w) es)) (\<lambda>S. \<Union>p \<in> set es. \<Union>x \<in> set_option p. f x S)"
  unfolding WalkExpressions_def map_map comp_def by (rule sound_map, rule sound_if_present, rule assms)

lemma sound_WalkNamedExpressions:
  assumes "\<And>n p x. (n, p) \<in> set es \<Longrightarrow> x \<in> set_option p \<Longrightarrow> sound (w x) (f x)"
  shows "sound (WalkNamedExpressions (map (map_prod (\<lambda>n. n) (map_option w)) es)) (\<lambda>S. \<Union>np \<in> set es. \<Union>x \<in> set_option (snd np). f x S)"
proof -
  have "sound (walks (map (\<lambda>np. or_unsafe ''null named expression'' (map_option w (snd np))) es)) (\<lambda>S. \<Union>np \<in> set es. \<Union>x \<in> set_option (snd np). f x S)"
    by (rule sound_map, rule sound_or_unsafe) (use assms in \<open>metis prod.collapse\<close>)
  then show ?thesis by (simp add: WalkNamedExpressions_def comp_def map_prod_def case_prod_beta)
qed

section \<open>Scopes\<close>

text \<open>A walk that leaves names on the stack.\<close>

definition pushes :: "walk \<Rightarrow> string list \<Rightarrow> reach \<Rightarrow> bool" where
  "pushes w ns f \<longleftrightarrow>
     (\<forall>c. extends (wc_req c) (wc_req (w c)) \<and> wc_cte_names (w c) = wc_cte_names c @ ns \<and>
        (\<not> ar_unsafe (wc_req (w c)) \<longrightarrow> (\<forall>a \<in> f (set (wc_cte_names c)). accounted (wc_req (w c)) a)))"

lemma sound_pushes: "sound w f \<longleftrightarrow> pushes w [] f"
  by (simp add: sound_def pushes_def)

lemma pushes_push_cte: "pushes (push_cte alias) [alias] (\<lambda>S. {})"
  by (simp add: pushes_def push_cte_def)

lemma pushes_seq:
  assumes "pushes p ns f" "pushes q ms g"
  shows "pushes (\<lambda>ctx. q (p ctx)) (ns @ ms) (\<lambda>S. f S \<union> g (S \<union> set ns))"
  unfolding pushes_def
proof (intro allI conjI impI ballI)
  fix c
  have p: "extends (wc_req c) (wc_req (p c))" "wc_cte_names (p c) = wc_cte_names c @ ns" using assms(1) by (simp_all add: pushes_def)
  have q: "extends (wc_req (p c)) (wc_req (q (p c)))" "wc_cte_names (q (p c)) = wc_cte_names (p c) @ ms"
    using assms(2) by (simp_all add: pushes_def)
  show "extends (wc_req c) (wc_req (q (p c)))" using p(1) q(1) by (rule extends_trans)
  show "wc_cte_names (q (p c)) = wc_cte_names c @ ns @ ms" using p(2) q(2) by simp
  fix a assume safe: "\<not> ar_unsafe (wc_req (q (p c)))" and a: "a \<in> f (set (wc_cte_names c)) \<union> g (set (wc_cte_names c) \<union> set ns)"
  have "\<not> ar_unsafe (wc_req (p c))" using safe q(1) by (auto simp: extends_def)
  moreover have "set (wc_cte_names (p c)) = set (wc_cte_names c) \<union> set ns" by (simp add: p(2))
  ultimately show "accounted (wc_req (q (p c))) a"
    using a safe q(1) assms unfolding pushes_def by (metis Un_iff accounted_mono)
qed

lemma sound_scoped: "pushes w ns f \<Longrightarrow> sound (scoped w) f"
  by (auto simp: sound_def pushes_def scoped_def Let_def)

lemma CteScope_Nil: "CteScope [] = (\<lambda>ctx. ctx)"
  by (simp add: CteScope_def)

lemma CteScope_Cons:
  "CteScope ((alias, def) # ctes) = (\<lambda>ctx. CteScope ctes (push_cte (lower_ascii alias)
     ((case def of None \<Rightarrow> Unsafe ''null CTE definition'' | Some query \<Rightarrow> or_unsafe ''null CTE query'' query) ctx)))"
  by (simp add: CteScope_def)

lemma pushes_CteScope:
  assumes "\<And>alias def q r. (alias, def) \<in> set ctes \<Longrightarrow> q \<in> set_option def \<Longrightarrow> r \<in> set_option q \<Longrightarrow> sound (w r) (f r)"
  shows "pushes (CteScope (map (map_prod (\<lambda>alias. alias) (map_option (map_option w))) ctes)) (map (lower_ascii \<circ> fst) ctes)
    (reach_ctes (map (map_prod (\<lambda>alias. alias) (map_option (map_option f))) ctes))"
  using assms
proof (induction ctes)
  case Nil
  then show ?case by (simp add: CteScope_Nil pushes_def)
next
  case (Cons cte ctes)
  obtain nm d where cte: "cte = (nm, d)" by (cases cte)
  let ?walk = "case map_option (map_option w) d of None \<Rightarrow> Unsafe ''null CTE definition'' | Some query \<Rightarrow> or_unsafe ''null CTE query'' query"
  have "sound ?walk (anywhere (\<Union> (set_option ` set_option (map_option (map_option f) d))))"
  proof (cases d)
    case (Some q)
    have "sound (or_unsafe ''null CTE query'' (map_option w q)) (\<lambda>S. \<Union>x \<in> set_option q. f x S)"
      by (rule sound_or_unsafe) (use Cons.prems Some in \<open>auto simp: cte\<close>)
    then show ?thesis unfolding Some by (simp add: anywhere_def [abs_def] option.set_map)
  qed (simp add: sound_Unsafe_any)
  then have "pushes ?walk [] (anywhere (\<Union> (set_option ` set_option (map_option (map_option f) d))))" by (simp add: sound_pushes)
  from pushes_seq [OF this pushes_push_cte]
  have "pushes (\<lambda>ctx. push_cte (lower_ascii nm) (?walk ctx)) [lower_ascii nm]
      (anywhere (\<Union> (set_option ` set_option (map_option (map_option f) d))))"
    by simp
  from pushes_seq [OF this Cons.IH] Cons.prems show ?case
    by (simp add: cte CteScope_Cons) metis
qed

lemma sound_with_ctes:
  assumes "\<And>alias def q r. (alias, def) \<in> set ctes \<Longrightarrow> q \<in> set_option def \<Longrightarrow> r \<in> set_option q \<Longrightarrow> sound (w r) (f r)"
    and "sound v g"
  shows "sound (scoped (walks [CteScope (map (map_prod (\<lambda>alias. alias) (map_option (map_option w))) ctes), v]))
    (\<lambda>S. reach_ctes (map (map_prod (\<lambda>alias. alias) (map_option (map_option f))) ctes) S \<union> g (S \<union> cte_names ctes))"
proof -
  let ?ctes = "map (map_prod (\<lambda>alias. alias) (map_option (map_option w))) ctes"
  let ?reach = "reach_ctes (map (map_prod (\<lambda>alias. alias) (map_option (map_option f))) ctes)"
  have names: "set (map (lower_ascii \<circ> fst) ctes) = cte_names ctes" by (simp add: cte_names_def case_prod_beta image_comp comp_def)
  have "pushes (CteScope ?ctes) (map (lower_ascii \<circ> fst) ctes) ?reach"
    by (rule pushes_CteScope, rule assms(1))
  from pushes_seq [OF this assms(2) [unfolded sound_pushes]]
  have "pushes (walks [CteScope ?ctes, v]) (map (lower_ascii \<circ> fst) ctes) (\<lambda>S. ?reach S \<union> g (S \<union> cte_names ctes))"
    unfolding names by simp
  then show ?thesis by (rule sound_scoped)
qed

lemma sound_alias:
  assumes "sound v g"
  shows "sound (scoped (walks [push_alias (lower_ascii alias), v])) (\<lambda>S. g (with_name alias S))"
proof (cases "alias = []")
  case True
  then show ?thesis using sound_scoped [OF assms [unfolded sound_pushes]] by (simp add: push_alias_def with_name_def)
next
  case False
  then show ?thesis
    using sound_scoped [OF pushes_seq [OF pushes_push_cte assms [unfolded sound_pushes]], of "lower_ascii alias"]
    by (simp add: push_alias_def with_name_def)
qed

section \<open>Soundness of the structures\<close>

text \<open>The rules for parts, when the walk is sound for everything in \<open>A\<close>.\<close>

lemma within_if_present:
  assumes "\<forall>x \<in> A. sound (w x) (f x)" "set_option p \<subseteq> A"
  shows "sound (if_present (map_option w p)) (\<lambda>S. \<Union>x \<in> set_option p. f x S)"
  by (rule sound_if_present, rule bspec [OF assms(1)]) (use assms(2) in blast)

lemma within_or_unsafe:
  assumes "\<forall>x \<in> A. sound (w x) (f x)" "set_option p \<subseteq> A"
  shows "sound (or_unsafe (ch # m) (map_option w p)) (\<lambda>S. \<Union>x \<in> set_option p. f x S)"
  by (rule sound_or_unsafe, rule bspec [OF assms(1)]) (use assms(2) in blast)

lemma within_WalkExpressions:
  assumes "\<forall>x \<in> A. sound (w x) (f x)" "\<Union> (set_option ` set es) \<subseteq> A"
  shows "sound (WalkExpressions (map (map_option w) es)) (\<lambda>S. \<Union>p \<in> set es. \<Union>x \<in> set_option p. f x S)"
  by (rule sound_WalkExpressions, rule bspec [OF assms(1)]) (use assms(2) in blast)

lemma within_WalkNamedExpressions:
  assumes "\<forall>x \<in> A. sound (w x) (f x)" "\<Union> (set_option ` snd ` set es) \<subseteq> A"
  shows "sound (WalkNamedExpressions (map (map_prod (\<lambda>n. n) (map_option w)) es)) (\<lambda>S. \<Union>np \<in> set es. \<Union>x \<in> set_option (snd np). f x S)"
  by (rule sound_WalkNamedExpressions, rule bspec [OF assms(1)]) (use assms(2) in force)

lemmas within = within_if_present within_or_unsafe within_WalkExpressions within_WalkNamedExpressions

lemma within_WalkSetInfo:
  assumes "\<forall>x \<in> A. sound (w x) (f x)" "\<Union> (set_UpdateSetInfo ` set_option info) \<subseteq> A"
  shows "sound (WalkSetInfo (map_option (map_UpdateSetInfo w) info)) (\<lambda>S. \<Union>x \<in> \<Union> (set_UpdateSetInfo ` set_option info). f x S)"
proof (cases info)
  case None
  then show ?thesis by (simp add: WalkSetInfo_def sound_id)
next
  case (Some i)
  obtain es c where i: "i = UpdateSetInfo es c" by (cases i)
  have A: "\<Union> (set_option ` set es) \<subseteq> A" "set_option c \<subseteq> A" using assms(2) by (auto simp: Some i)
  have "sound (walks [WalkExpressions (map (map_option w) es), if_present (map_option w c)]) (\<lambda>S. \<Union>x \<in> set_UpdateSetInfo i. f x S)"
    by (rule sound_weaken, (rule sound_Cons sound_Nil within [OF assms(1)] A)+) (auto simp: i)
  then show ?thesis by (simp add: WalkSetInfo_def Some i)
qed

lemma sound_WalkUpdate:
  assumes "\<forall>t \<in> set1_UpdateNode node. sound (wt t) (ft t)" "\<forall>e \<in> set2_UpdateNode node. sound (we e) (fe e)"
  shows "sound (WalkUpdate (map_UpdateNode wt we node)) (anywhere (ft ` set1_UpdateNode node \<union> fe ` set2_UpdateNode node))"
proof (cases node)
  case (UpdateNode t1 t2 si ret)
  note parts = sound_Cons sound_Nil within [OF assms(1)] within [OF assms(2)] within_WalkSetInfo [OF assms(2)]
  show ?thesis
    unfolding WalkUpdate_def UpdateNode UpdateNode.map UpdateNode.sel
    by (rule sound_weaken, (rule parts | fastforce simp: UpdateNode anywhere_def)+)
qed

lemma sound_WalkDelete:
  assumes "\<forall>t \<in> set1_DeleteNode node. sound (wt t) (ft t)" "\<forall>e \<in> set2_DeleteNode node. sound (we e) (fe e)"
  shows "sound (WalkDelete (map_DeleteNode wt we node)) (anywhere (ft ` set1_DeleteNode node \<union> fe ` set2_DeleteNode node))"
proof (cases node)
  case (DeleteNode t1 ts c ret)
  note parts = sound_Cons sound_Nil within [OF assms(1)] within [OF assms(2)]
  show ?thesis
    unfolding WalkDelete_def DeleteNode DeleteNode.map DeleteNode.sel WalkExpressions_def [symmetric]
    by (rule sound_weaken, (rule parts | fastforce simp: DeleteNode anywhere_def)+)
qed

lemma within_OnConflict:
  assumes "\<forall>x \<in> A. sound (w x) (f x)" "\<Union> (set_OnConflictInfo ` set_option oc) \<subseteq> A"
  shows "sound (case map_option (map_OnConflictInfo w) oc of
      None \<Rightarrow> (\<lambda>ctx. ctx) | Some oc \<Rightarrow> walks [WalkSetInfo (oci_set_info oc), if_present (oci_condition oc)])
    (\<lambda>S. \<Union>x \<in> \<Union> (set_OnConflictInfo ` set_option oc). f x S)"
proof (cases oc)
  case None
  then show ?thesis by (simp add: sound_id)
next
  case (Some o1)
  obtain si c where o1: "o1 = OnConflictInfo si c" by (cases o1)
  have A: "\<Union> (set_UpdateSetInfo ` set_option si) \<subseteq> A" "set_option c \<subseteq> A" using assms(2) by (auto simp: Some o1)
  have "sound (walks [WalkSetInfo (map_option (map_UpdateSetInfo w) si), if_present (map_option w c)]) (\<lambda>S. \<Union>x \<in> set_OnConflictInfo o1. f x S)"
    by (rule sound_weaken, (rule sound_Cons sound_Nil within [OF assms(1)] within_WalkSetInfo [OF assms(1)] A)+) (auto simp: o1)
  then show ?thesis by (simp add: Some o1)
qed

lemma sound_WalkInsert:
  assumes "\<forall>q \<in> set1_InsertNode node. sound (wq q) (fq q)" "\<forall>t \<in> set2_InsertNode node. sound (wt t) (ft t)"
    "\<forall>e \<in> set3_InsertNode node. sound (we e) (fe e)"
  shows "sound (WalkInsert (map_InsertNode wq wt we node))
    (\<lambda>S. insert (TableAccess (in_target node)) (anywhere (fq ` set1_InsertNode node \<union> ft ` set2_InsertNode node \<union> fe ` set3_InsertNode node) S))"
proof (cases node)
  case (InsertNode t q tr ret oc)
  note parts = sound_Cons sound_Nil sound_AddObject within [OF assms(1)] within [OF assms(2)] within [OF assms(3)] within_OnConflict [OF assms(3)]
  show ?thesis
    unfolding WalkInsert_def InsertNode InsertNode.map InsertNode.sel
    by (rule sound_weaken, (rule parts | fastforce simp: InsertNode anywhere_def)+)
qed

lemma within_WalkMergeAction:
  assumes "\<forall>x \<in> A. sound (w x) (f x)" "\<Union> (set_MergeAction ` set_option action) \<subseteq> A"
  shows "sound (WalkMergeAction (map_option (map_MergeAction w) action)) (\<lambda>S. \<Union>x \<in> \<Union> (set_MergeAction ` set_option action). f x S)"
proof (cases action)
  case None
  then show ?thesis by (simp add: WalkMergeAction_def sound_Unsafe_any)
next
  case (Some a)
  obtain ty c ui es where a: "a = MergeAction ty c ui es" by (cases a)
  have A: "set_option c \<subseteq> A" "\<Union> (set_UpdateSetInfo ` set_option ui) \<subseteq> A" "\<Union> (set_option ` set es) \<subseteq> A"
    using assms(2) by (auto simp: Some a)
  have "sound (walks [if_present (map_option w c), WalkSetInfo (map_option (map_UpdateSetInfo w) ui), WalkExpressions (map (map_option w) es)])
      (\<lambda>S. \<Union>x \<in> set_MergeAction a. f x S)"
    by (rule sound_weaken, (rule sound_Cons sound_Nil within [OF assms(1)] within_WalkSetInfo [OF assms(1)] A)+) (auto simp: a)
  then show ?thesis by (simp add: WalkMergeAction_def Some a)
qed

lemma within_MergeActions:
  assumes "\<forall>x \<in> A. sound (w x) (f x)" "(\<Union>as \<in> set acts. \<Union>a \<in> set as. \<Union> (set_MergeAction ` set_option a)) \<subseteq> A"
  shows "sound (walks (map WalkMergeAction (concat (map (map (map_option (map_MergeAction w))) acts))))
    (\<lambda>S. \<Union>a \<in> set (concat acts). \<Union>x \<in> \<Union> (set_MergeAction ` set_option a). f x S)"
proof -
  have "sound (walks (map (\<lambda>a. WalkMergeAction (map_option (map_MergeAction w) a)) (concat acts)))
      (\<lambda>S. \<Union>a \<in> set (concat acts). \<Union>x \<in> \<Union> (set_MergeAction ` set_option a). f x S)"
    by (rule sound_map, rule within_WalkMergeAction [OF assms(1)]) (use assms(2) in fastforce)
  then show ?thesis by (simp add: map_concat comp_def)
qed

lemma sound_WalkMerge:
  assumes "\<forall>t \<in> set1_MergeNode node. sound (wt t) (ft t)" "\<forall>e \<in> set2_MergeNode node. sound (we e) (fe e)"
  shows "sound (WalkMerge (map_MergeNode wt we node)) (anywhere (ft ` set1_MergeNode node \<union> fe ` set2_MergeNode node))"
proof (cases node)
  case (MergeNode t1 t2 c acts ret)
  note parts = sound_Cons sound_Nil within [OF assms(1)] within [OF assms(2)] within_MergeActions [OF assms(2)]
  show ?thesis
    unfolding WalkMerge_def MergeNode MergeNode.map MergeNode.sel
    by (rule sound_weaken, (rule parts | fastforce simp: MergeNode anywhere_def)+)
qed

lemma sound_WalkCopyInfo:
  assumes "\<forall>q \<in> set1_CopyInfo info. sound (wq q) (fq q)" "\<forall>e \<in> set2_CopyInfo info. sound (we e) (fe e)"
  shows "sound (WalkCopyInfo (map_CopyInfo wq we info))
    (\<lambda>S. insert (TableAccess (ci_target info)) (anywhere (fq ` set1_CopyInfo info \<union> fe ` set2_CopyInfo info) S))"
proof (cases info)
  case (CopyInfo t b q p os)
  note parts = sound_Cons sound_Nil sound_AddObject within [OF assms(1)] within [OF assms(2)]
  show ?thesis
    unfolding WalkCopyInfo_def CopyInfo CopyInfo.map CopyInfo.sel id_def
    by (rule sound_weaken, (rule parts | fastforce simp: CopyInfo anywhere_def)+)
qed

lemma within_WalkModifier:
  assumes "\<forall>x \<in> A. sound (w x) (f x)" "\<Union> (set_ResultModifier ` set_option modifier) \<subseteq> A"
  shows "sound (WalkModifier (map_option (map_ResultModifier w) modifier)) (\<lambda>S. \<Union>x \<in> \<Union> (set_ResultModifier ` set_option modifier). f x S)"
proof (cases modifier)
  case None
  then show ?thesis by (simp add: WalkModifier_def sound_Unsafe_any)
next
  case (Some m)
  show ?thesis
  proof (cases m)
    case (OrderModifier es)
    have "sound (walks (map (\<lambda>e. or_unsafe ''null ORDER BY expression'' (map_option w e)) es)) (\<lambda>S. \<Union>e \<in> set es. \<Union>x \<in> set_option e. f x S)"
      by (rule sound_map, rule within_or_unsafe [OF assms(1)]) (use assms(2) Some OrderModifier in fastforce)
    then show ?thesis by (simp add: WalkModifier_def Some OrderModifier comp_def)
  next
    case (LimitModifier l off)
    have A: "set_option l \<subseteq> A" "set_option off \<subseteq> A" using assms(2) by (auto simp: Some LimitModifier)
    have "sound (walks [if_present (map_option w l), if_present (map_option w off)]) (\<lambda>S. \<Union>x \<in> set_ResultModifier m. f x S)"
      by (rule sound_weaken, (rule sound_Cons sound_Nil within [OF assms(1)] A)+) (auto simp: LimitModifier)
    then show ?thesis by (simp add: WalkModifier_def Some LimitModifier)
  next
    case (DistinctModifier es)
    have "sound (WalkExpressions (map (map_option w) es)) (\<lambda>S. \<Union>e \<in> set es. \<Union>x \<in> set_option e. f x S)"
      by (rule within_WalkExpressions [OF assms(1)]) (use assms(2) Some DistinctModifier in auto)
    then show ?thesis by (simp add: WalkModifier_def Some DistinctModifier)
  next
    case (LimitPercentModifier l off)
    have A: "set_option l \<subseteq> A" "set_option off \<subseteq> A" using assms(2) by (auto simp: Some LimitPercentModifier)
    have "sound (walks [if_present (map_option w l), if_present (map_option w off)]) (\<lambda>S. \<Union>x \<in> set_ResultModifier m. f x S)"
      by (rule sound_weaken, (rule sound_Cons sound_Nil within [OF assms(1)] A)+) (auto simp: LimitPercentModifier)
    then show ?thesis by (simp add: WalkModifier_def Some LimitPercentModifier)
  qed (simp add: WalkModifier_def Some sound_Unsafe_any)
qed

lemma within_WalkModifiers:
  assumes "\<forall>x \<in> A. sound (w x) (f x)" "(\<Union>m \<in> set ms. \<Union> (set_ResultModifier ` set_option m)) \<subseteq> A"
  shows "sound (WalkModifiers (map (map_option (map_ResultModifier w)) ms)) (\<lambda>S. \<Union>m \<in> set ms. \<Union>x \<in> \<Union> (set_ResultModifier ` set_option m). f x S)"
proof -
  have "sound (walks (map (\<lambda>m. WalkModifier (map_option (map_ResultModifier w) m)) ms)) (\<lambda>S. \<Union>m \<in> set ms. \<Union>x \<in> \<Union> (set_ResultModifier ` set_option m). f x S)"
    by (rule sound_map, rule within_WalkModifier [OF assms(1)]) (use assms(2) in fastforce)
  then show ?thesis by (simp add: WalkModifiers_def comp_def)
qed

section \<open>Soundness of the leaves\<close>

lemma sound_if: "(b \<Longrightarrow> sound w f) \<Longrightarrow> (\<not> b \<Longrightarrow> sound v f) \<Longrightarrow> sound (if b then w else v) f"
  by simp

text \<open>It is enough that in every context the walk acts as a sound one.\<close>

lemma sound_local:
  assumes "\<And>c. \<exists>v g. w c = v c \<and> sound v g \<and> f (set (wc_cte_names c)) \<subseteq> g (set (wc_cte_names c))"
  shows "sound w f"
  unfolding sound_def
proof (rule allI)
  fix c
  obtain v g where "w c = v c" "sound v g" "f (set (wc_cte_names c)) \<subseteq> g (set (wc_cte_names c))" using assms by blast
  then show "extends (wc_req c) (wc_req (w c)) \<and> wc_cte_names (w c) = wc_cte_names c \<and>
      (\<not> ar_unsafe (wc_req (w c)) \<longrightarrow> (\<forall>a \<in> f (set (wc_cte_names c)). accounted (wc_req (w c)) a))"
    unfolding sound_def by (metis subsetD)
qed

lemma sound_hidden: "sound (hidden action (ch # m)) (\<lambda>S. {Modification (Some action)})"
  using sound_Unsafe_any [of ch m "\<lambda>S. {Modification (Some action)}"] by (auto simp: sound_def hidden_def)

lemma sound_read:
  assumes "\<not> IsReplacementScanName t"
  shows "sound (on_req (AddObject t)) (\<lambda>S. {TableRead t})"
  using sound_AddObject [of t] assms by (simp add: sound_def)

lemma sound_WalkBaseTable: "sound (WalkBaseTable t) (\<lambda>S. if names_cte S t then {} else {TableRead t})"
  using sound_read [of t] sound_Unsafe_any [of "CHR ''p''" "''ath-like replacement scan''" "\<lambda>S. {TableRead t}"]
  by (auto simp: sound_def WalkBaseTable_def IsCte_def names_cte_def simp del: accounted.simps)

lemma sound_WalkShowTarget:
  "sound (WalkShowTarget t) (\<lambda>S. if \<not> show_listing t \<and> \<not> names_cte S t then {TableRead t} else {})"
proof (rule sound_local)
  fix c
  let ?f = "\<lambda>S. if \<not> show_listing t \<and> \<not> names_cte S t then {TableRead t} else {}"
  have "(\<exists>ch m. WalkShowTarget t c = Unsafe (ch # m) c) \<or> \<not> IsReplacementScanName t \<and> WalkShowTarget t c = on_req (AddObject t) c \<or>
      WalkShowTarget t c = c \<and> (show_listing t \<or> names_cte (set (wc_cte_names c)) t)"
    unfolding WalkShowTarget_def Let_def IsCte_def names_cte_def show_listing_def
    by (split if_split, intro conjI impI, blast)+ blast
  moreover have "\<exists>v g. Unsafe (ch # m) c = v c \<and> sound v g \<and> ?f (set (wc_cte_names c)) \<subseteq> g (set (wc_cte_names c))" for ch m
    using sound_Unsafe_any by blast
  moreover have "\<exists>v g. on_req (AddObject t) c = v c \<and> sound v g \<and> ?f (set (wc_cte_names c)) \<subseteq> g (set (wc_cte_names c))"
    if "\<not> IsReplacementScanName t"
    by (rule exI, rule exI, rule conjI [OF refl], rule conjI [OF sound_read [OF that]]) simp
  moreover have "\<exists>v g. c = v c \<and> sound v g \<and> ?f (set (wc_cte_names c)) \<subseteq> g (set (wc_cte_names c))"
    if "show_listing t \<or> names_cte (set (wc_cte_names c)) t"
    by (rule exI [of _ "\<lambda>ctx. ctx"], rule exI, rule conjI [OF refl], rule conjI [OF sound_id]) (use that in simp)
  ultimately show "\<exists>v g. WalkShowTarget t c = v c \<and> sound v g \<and> ?f (set (wc_cte_names c)) \<subseteq> g (set (wc_cte_names c))"
    by metis
qed

lemma AddFunctionObject_adds:
  assumes "name \<noteq> []"
  shows "lower_ascii name \<in> {''duckdb_tables'', ''duckdb_columns''} \<or> ''fn:'' @ lower_ascii name \<in> set (ar_objects (AddFunctionObject name r))"
  using AddNamedObject_extends(2) [of "''fn:'' @ lower_ascii name" r] assms
  by (simp add: AddFunctionObject_def IsExemptFunction_def Let_def)

lemma sound_WalkTableFunction: "sound (WalkTableFunction name) (\<lambda>S. {FunctionAccess name})"
proof (cases "name = []")
  case True
  have "sound (on_req (\<lambda>req. req\<lparr>ar_unsafe := True, ar_error := ''unnamed table function''\<rparr>)) (\<lambda>S. {FunctionAccess name})"
    by (rule sound_on_req) (simp_all add: extends_def wf_request_def)
  then show ?thesis by (simp add: WalkTableFunction_def True)
next
  case False
  have keeps: "sound (on_req (AddFunctionObject name)) (\<lambda>S. {})"
    by (rule sound_on_req) (simp_all add: AddFunctionObject_extends)
  show ?thesis
  proof (cases "lower_ascii name \<in> {''query'', ''query_table''}")
    case True
    from sound_seq [OF keeps sound_Unsafe_any] show ?thesis using True \<open>name \<noteq> []\<close> by (auto simp: WalkTableFunction_def)
  next
    case False
    have "sound (on_req (AddFunctionObject name)) (\<lambda>S. {FunctionAccess name})"
      by (rule sound_on_req [OF AddFunctionObject_extends]) (use False AddFunctionObject_adds [OF \<open>name \<noteq> []\<close>] in auto)
    then show ?thesis using False \<open>name \<noteq> []\<close> by (simp add: WalkTableFunction_def)
  qed
qed

lemma sound_state_function:
  "sound (if lower_ascii name \<in> set state_functions then Unsafe (ch # m) else (\<lambda>ctx. ctx)) (\<lambda>S. {ScalarCall name})"
  by (rule sound_if, rule sound_Unsafe_any) (simp add: sound_def)

lemma sound_hidden_merge:
  "sound (if MergeOnlyUpdates node then hidden Update (ch # m) else Unsafe (ch # m)) (\<lambda>S. {Modification (if MergeOnlyUpdates node then Some Update else None)})"
  by (simp add: sound_hidden sound_Unsafe_any)

section \<open>Soundness of the walk\<close>

lemmas walk_parts = sound_Cons sound_Nil sound_id sound_Unsafe sound_hidden sound_hidden_merge
  sound_if_present [where w = WalkExpression and f = reach_expression] sound_if_present [where w = WalkQueryNode and f = reach_query]
  sound_if_present [where w = WalkTableRef and f = reach_table]
  sound_or_unsafe [where w = WalkExpression and f = reach_expression] sound_or_unsafe [where w = WalkQueryNode and f = reach_query]
  sound_WalkExpressions [where w = WalkExpression and f = reach_expression]
  sound_map [where w = WalkExpression and f = reach_expression] sound_map [where w = WalkQueryNode and f = reach_query]

lemma sound_optional:
  assumes "\<And>q x. q \<in> set_option p \<Longrightarrow> x \<in> set_option q \<Longrightarrow> sound (w x) (f x)"
  shows "sound (case map_option (map_option w) p of None \<Rightarrow> (\<lambda>ctx. ctx) | Some q \<Rightarrow> or_unsafe (ch # m) q)
    (anywhere (\<Union> (set_option ` set_option (map_option (map_option f) p))))"
proof (cases p)
  case None
  then show ?thesis by (simp add: sound_id anywhere_def [abs_def])
next
  case (Some q)
  have "sound (or_unsafe (ch # m) (map_option w q)) (\<lambda>S. \<Union>x \<in> set_option q. f x S)"
    by (rule sound_or_unsafe) (use assms Some in simp)
  then show ?thesis by (simp add: Some anywhere_def [abs_def] option.set_map)
qed

lemma anywhere_Un: "anywhere (F \<union> G) S = anywhere F S \<union> anywhere G S"
  by (simp add: anywhere_def)

lemma anywhere_opts:
  "anywhere (opts (map_option f p # map (map_option g) es)) S \<subseteq> (\<Union>x \<in> set_option p. f x S) \<union> (\<Union>e \<in> set es. \<Union>x \<in> set_option e. g x S)"
  by (auto simp: anywhere_def opts_def option.set_map)

lemma sound_pivot:
  assumes "\<And>p x. p \<in> set exprs \<Longrightarrow> x \<in> set_option p \<Longrightarrow> sound (WalkExpression x) (reach_expression x)"
    "\<And>q. q \<in> set_option subquery \<Longrightarrow> sound (WalkQueryNode q) (reach_query q)"
    "\<And>p x. p \<in> set ents \<Longrightarrow> x \<in> set_option p \<Longrightarrow> sound (WalkExpression x) (reach_expression x)"
  shows "sound (walks [WalkExpressions (map (map_option WalkExpression) exprs), if_present (map_option WalkQueryNode subquery),
      WalkExpressions (map (map_option WalkExpression) ents)])
    (anywhere (opts (map (map_option reach_expression) exprs @ map_option reach_query subquery # map (map_option reach_expression) ents)))"
  by (rule sound_weaken, (rule walk_parts | erule (1) assms | erule assms)+) (auto simp: anywhere_def opts_def option.set_map)

lemma sound_pivots:
  assumes "\<And>exprs subquery ents p x. (exprs, subquery, ents) \<in> set pivots \<Longrightarrow> p \<in> set exprs \<union> set ents \<Longrightarrow> x \<in> set_option p \<Longrightarrow>
      sound (WalkExpression x) (reach_expression x)"
    "\<And>exprs subquery ents q. (exprs, subquery, ents) \<in> set pivots \<Longrightarrow> q \<in> set_option subquery \<Longrightarrow> sound (WalkQueryNode q) (reach_query q)"
  shows "sound (walks (map (\<lambda>(exprs, subquery, ents). walks [WalkExpressions exprs, if_present subquery, WalkExpressions ents])
      (map (map_prod (map (map_option WalkExpression)) (map_prod (map_option WalkQueryNode) (map (map_option WalkExpression)))) pivots)))
    (anywhere (\<Union>(exprs, subquery, ents) \<in> set (map (map_prod (map (map_option reach_expression))
      (map_prod (map_option reach_query) (map (map_option reach_expression)))) pivots). opts (exprs @ subquery # ents)))"
proof -
  have "sound (walks (map (\<lambda>p. walks [WalkExpressions (map (map_option WalkExpression) (fst p)), if_present (map_option WalkQueryNode (fst (snd p))),
        WalkExpressions (map (map_option WalkExpression) (snd (snd p)))]) pivots))
      (\<lambda>S. \<Union>p \<in> set pivots. anywhere (opts (map (map_option reach_expression) (fst p) @ map_option reach_query (fst (snd p)) #
        map (map_option reach_expression) (snd (snd p)))) S)"
    by (rule sound_map, rule sound_pivot) (metis assms prod.collapse UnI1 UnI2)+
  then have "sound (walks (map (\<lambda>(exprs, subquery, ents). walks [WalkExpressions exprs, if_present subquery, WalkExpressions ents])
      (map (map_prod (map (map_option WalkExpression)) (map_prod (map_option WalkQueryNode) (map (map_option WalkExpression)))) pivots)))
      (\<lambda>S. \<Union>p \<in> set pivots. anywhere (opts (map (map_option reach_expression) (fst p) @ map_option reach_query (fst (snd p)) #
        map (map_option reach_expression) (snd (snd p)))) S)"
    by (simp add: comp_def case_prod_beta)
  then show ?thesis by (rule sound_weaken) (force simp: anywhere_def)
qed

lemma sound_rows:
  assumes "\<And>row p x. row \<in> set rows \<Longrightarrow> p \<in> set row \<Longrightarrow> x \<in> set_option p \<Longrightarrow> sound (WalkExpression x) (reach_expression x)"
  shows "sound (walks (map WalkExpressions (map (map (map_option WalkExpression)) rows)))
    (anywhere (opts (concat (map (map (map_option reach_expression)) rows))))"
proof -
  have "sound (walks (map (\<lambda>row. WalkExpressions (map (map_option WalkExpression) row)) rows))
      (\<lambda>S. \<Union>row \<in> set rows. \<Union>p \<in> set row. \<Union>x \<in> set_option p. reach_expression x S)"
    by (rule sound_map, rule sound_WalkExpressions) (use assms in blast)
  then have "sound (walks (map (\<lambda>row. WalkExpressions (map (map_option WalkExpression) row)) rows))
      (anywhere (opts (concat (map (map (map_option reach_expression)) rows))))"
    by (rule sound_weaken) (auto simp: anywhere_def opts_def option.set_map)
  then show ?thesis by (simp add: comp_def)
qed

lemma sound_copy:
  assumes "\<And>i q. i \<in> set_option info \<Longrightarrow> q \<in> set1_CopyInfo i \<Longrightarrow> sound (WalkQueryNode q) (reach_query q)"
    "\<And>i e. i \<in> set_option info \<Longrightarrow> e \<in> set2_CopyInfo i \<Longrightarrow> sound (WalkExpression e) (reach_expression e)"
  shows "sound (or_unsafe (ch # m) (map_option WalkCopyInfo (map_option (map_CopyInfo WalkQueryNode WalkExpression) info)))
    (\<lambda>S. (TableAccess \<circ> ci_target) ` set_option info \<union>
      anywhere (\<Union> (set1_CopyInfo ` set_option (map_option (map_CopyInfo reach_query reach_expression) info)) \<union>
        \<Union> (set2_CopyInfo ` set_option (map_option (map_CopyInfo reach_query reach_expression) info))) S)"
proof (cases info)
  case None
  then show ?thesis using sound_Unsafe by (simp add: or_unsafe_def anywhere_def [abs_def])
next
  case (Some i)
  have "sound (WalkCopyInfo (map_CopyInfo WalkQueryNode WalkExpression i))
      (\<lambda>S. insert (TableAccess (ci_target i)) (anywhere (reach_query ` set1_CopyInfo i \<union> reach_expression ` set2_CopyInfo i) S))"
    by (rule sound_WalkCopyInfo) (use assms Some in auto)
  then show ?thesis by (simp add: Some or_unsafe_def CopyInfo.set_map)
qed

lemma sound_query:
  assumes "\<And>alias def q r. (alias, def) \<in> set ctes \<Longrightarrow> q \<in> set_option def \<Longrightarrow> r \<in> set_option q \<Longrightarrow> sound (WalkQueryNode r) (reach_query r)"
    "\<And>p m e. p \<in> set ms \<Longrightarrow> m \<in> set_option p \<Longrightarrow> e \<in> set_ResultModifier m \<Longrightarrow> sound (WalkExpression e) (reach_expression e)"
    "sound (WalkQueryBody body) (reach_body body)"
  shows "sound (WalkQueryNode (QueryNode ctes ms body)) (reach_query (QueryNode ctes ms body))"
proof -
  have ms: "\<forall>x \<in> (\<Union>m \<in> set ms. \<Union> (set_ResultModifier ` set_option m)). sound (WalkExpression x) (reach_expression x)"
    using assms(2) by blast
  have "sound (walks [WalkModifiers (map (map_option (map_ResultModifier WalkExpression)) ms), WalkQueryBody body])
      (anywhere (insert (reach_body body)
        (\<Union> (set_ResultModifier ` \<Union> (set_option ` set (map (map_option (map_ResultModifier reach_expression)) ms))))))"
    by (rule sound_weaken, (rule sound_Cons sound_Nil within_WalkModifiers [OF ms subset_refl] assms(3))+)
      (auto simp: anywhere_def option.set_map ResultModifier.set_map)
  then have "sound (scoped (walks [CteScope (map (map_prod (\<lambda>alias. alias) (map_option (map_option WalkQueryNode))) ctes),
      walks [WalkModifiers (map (map_option (map_ResultModifier WalkExpression)) ms), WalkQueryBody body]])) (reach_query (QueryNode ctes ms body))"
    unfolding reach_query.simps by (rule sound_with_ctes [rotated]) (rule assms(1))
  then show ?thesis by simp
qed

lemma sound_walk:
  shows "sound (WalkExpression e) (reach_expression e)" and "sound (WalkClass cls) (reach_class cls)"
    and "sound (WalkQueryNode q) (reach_query q)" and "sound (WalkQueryBody body) (reach_body body)" and "sound (WalkTableRef t) (reach_table t)"
proof (induction e and cls and q and body and t rule: Expression.induct ExpressionClass.induct QueryNode.induct QueryBody.induct TableRef.induct)
  case (Expression cls children)
  show ?case unfolding WalkExpression.simps reach_expression.simps
    by (rule sound_weaken, (rule walk_parts Expression.IH(1) | erule Expression.IH(2))+) (auto simp: anywhere_def)
next
  case (ColumnRef names)
  show ?case using sound_AddColumn [of "last names"] by (simp add: sound_id)
next
  case Star
  show ?case by (simp add: sound_AddColumn)
next
  case (Subquery query)
  show ?case unfolding WalkClass.simps reach_class.simps
    by (rule sound_weaken, (rule walk_parts | erule Subquery.IH)+) (auto simp: anywhere_def option.set_map)
next
  case (Function name)
  show ?case by (simp add: sound_state_function)
next
  case (SelectNode from_table select_list where_clause having qualify groups)
  show ?case unfolding WalkQueryBody.simps reach_body.simps
    by (rule sound_weaken, (rule walk_parts | erule (1) SelectNode.IH | erule SelectNode.IH)+)
      (auto simp: anywhere_def opts_def option.set_map)
next
  case (QueryNode ctes ms body)
  show ?case by (rule sound_query) (use QueryNode.IH in \<open>auto simp: snds.simps\<close>)
next
  case (SetOperationNode children)
  show ?case unfolding WalkQueryBody.simps reach_body.simps
    by (rule sound_weaken, (rule walk_parts | erule SetOperationNode.IH)+) (auto simp: anywhere_def)
next
  case (CTENode ctename query child)
  show ?case unfolding WalkQueryBody.simps reach_body.simps
    by (rule sound_weaken, (rule walk_parts sound_alias | erule CTENode.IH)+) (auto simp: anywhere_def option.set_map)
next
  case (RecursiveCTENode ctename left right)
  show ?case unfolding WalkQueryBody.simps reach_body.simps
    by (rule sound_weaken, (rule walk_parts sound_alias | erule RecursiveCTENode.IH)+) (auto simp: anywhere_def option.set_map)
next
  case (UpdateQuery node)
  show ?case unfolding WalkQueryBody.simps reach_body.simps UpdateNode.set_map
    by (rule sound_weaken, (rule walk_parts sound_WalkUpdate | rule ballI, erule UpdateQuery.IH)+) auto
next
  case (DeleteQuery node)
  show ?case unfolding WalkQueryBody.simps reach_body.simps DeleteNode.set_map
    by (rule sound_weaken, (rule walk_parts sound_WalkDelete | rule ballI, erule DeleteQuery.IH)+) auto
next
  case (InsertQuery node)
  show ?case unfolding WalkQueryBody.simps reach_body.simps InsertNode.set_map
    by (rule sound_weaken, (rule walk_parts sound_WalkInsert | rule ballI, erule InsertQuery.IH)+) auto
next
  case (MergeQuery node)
  show ?case unfolding WalkQueryBody.simps reach_body.simps MergeNode.set_map
    by (rule sound_weaken, (rule walk_parts sound_WalkMerge | rule ballI, erule MergeQuery.IH)+) auto
next
  case (CopyQuery info)
  show ?case unfolding WalkQueryBody.simps reach_body.simps
    by (rule sound_weaken, (rule walk_parts(1-5) sound_copy | erule (1) CopyQuery.IH)+) auto
next
  case (BaseTableRef t at_clause)
  show ?case unfolding WalkTableRef.simps reach_table.simps
    by (rule sound_weaken, (rule walk_parts sound_optional sound_WalkBaseTable | erule (1) BaseTableRef.IH)+) auto
next
  case (JoinRef left right condition)
  show ?case unfolding WalkTableRef.simps reach_table.simps
    by (rule sound_weaken, (rule walk_parts | erule JoinRef.IH)+) (auto simp: anywhere_def opts_def option.set_map)
next
  case (SubqueryRef query)
  show ?case unfolding WalkTableRef.simps reach_table.simps
    by (rule sound_weaken, (rule walk_parts | erule SubqueryRef.IH)+) (auto simp: anywhere_def option.set_map)
next
  case (TableFunctionRef fn subquery)
  show ?case unfolding WalkTableRef.simps reach_table.simps
    by (rule sound_weaken, (rule walk_parts sound_optional sound_WalkTableFunction | erule (1) TableFunctionRef.IH | erule TableFunctionRef.IH)+)
      (auto simp: anywhere_def option.set_map)
next
  case (PivotRef source aggregates pivots)
  have pivots: "sound (walks (map (\<lambda>(exprs, subquery, ents). walks [WalkExpressions exprs, if_present subquery, WalkExpressions ents])
      (map (map_prod (map (map_option WalkExpression)) (map_prod (map_option WalkQueryNode) (map (map_option WalkExpression)))) pivots)))
    (anywhere (\<Union>(exprs, subquery, ents) \<in> set (map (map_prod (map (map_option reach_expression))
      (map_prod (map_option reach_query) (map (map_option reach_expression)))) pivots). opts (exprs @ subquery # ents)))"
    by (rule sound_pivots) (use PivotRef.IH(3,4,5) in \<open>fastforce simp: fsts.simps snds.simps\<close>)+
  show ?case unfolding WalkTableRef.simps reach_table.simps anywhere_Un
    by (rule sound_weaken, (rule walk_parts pivots | erule (1) PivotRef.IH(2) | erule PivotRef.IH(1))+)
      (rule Un_least, rule subset_trans [OF anywhere_opts], blast, blast)
next
  case (ExpressionListRef rows)
  show ?case unfolding WalkTableRef.simps reach_table.simps by (rule sound_rows) (rule ExpressionListRef.IH)
next
  case (ShowRef t query)
  show ?case using sound_WalkShowTarget [of t] ShowRef.IH by (cases query) (simp_all add: anywhere_def [abs_def])
qed (simp_all add: sound_id sound_Unsafe_any)

end
