(* ===== verification/Sql_Statements.thy ===== *)
theory Sql_Statements
  imports Sql_Gating
begin

text \<open>
  The inspection of whole statements and queries. \<open>reach_statement\<close> extends what a query reaches to
  statements; a request that is not unsafe accounts for all of it, names one action for all statements,
  and its lists are well formed.
\<close>

section \<open>What a statement reaches\<close>

definition reach_dml :: "cte_map \<Rightarrow> reach \<Rightarrow> reach" where
  "reach_dml ctes f S =
     reach_ctes (map (map_prod (\<lambda>alias. alias) (map_option (map_option reach_query))) ctes) S \<union> f (S \<union> cte_names ctes)"

definition reach_named :: "named_expressions \<Rightarrow> reach" where
  "reach_named exprs S = (\<Union>np \<in> set exprs. \<Union>e \<in> set_option (snd np). reach_expression e S)"

definition reach_exprs :: "Expression option list \<Rightarrow> reach" where
  "reach_exprs exprs S = (\<Union>p \<in> set exprs. \<Union>e \<in> set_option p. reach_expression e S)"

definition reach_opt :: "QueryNode option \<Rightarrow> reach" where
  "reach_opt query S = (\<Union>q \<in> set_option query. reach_query q S)"

definition reach_column :: "ColumnDefinition \<Rightarrow> reach" where
  "reach_column column =
     (case column of GeneratedColumn e \<Rightarrow> reach_expression e | DefaultColumn e \<Rightarrow> reach_expression e | PlainColumn \<Rightarrow> (\<lambda>S. {}))"

definition reach_constraint :: "TableConstraint \<Rightarrow> reach" where
  "reach_constraint constraint = (case constraint of CheckConstraint e \<Rightarrow> reach_exprs [e] | _ \<Rightarrow> (\<lambda>S. {}))"

definition reach_alter :: "AlterTable \<Rightarrow> reach" where
  "reach_alter alter =
     (case alter of
        AlterColumnType e \<Rightarrow> reach_exprs [e]
      | SetDefault e \<Rightarrow> reach_exprs [e]
      | AddColumnInfo column \<Rightarrow> reach_column column
      | _ \<Rightarrow> (\<lambda>S. {}))"

primrec reach_statement :: "SQLStatement \<Rightarrow> reach"
  and reach_create :: "CreateInfo \<Rightarrow> reach" where
  "reach_statement (SelectStatement node) = reach_opt node"
| "reach_statement (ExplainStatement analyze stmt) = anywhere (set_option (map_option reach_statement stmt))"
| "reach_statement RelationStatement = (\<lambda>S. {})"
| "reach_statement (InsertStatement ctes node) =
     reach_dml ctes (\<lambda>S. insert (TableAccess (in_target node))
       (anywhere (reach_query ` set1_InsertNode node \<union> reach_table ` set2_InsertNode node \<union> reach_expression ` set3_InsertNode node) S))"
| "reach_statement (UpdateStatement ctes node) =
     reach_dml ctes (anywhere (reach_table ` set1_UpdateNode node \<union> reach_expression ` set2_UpdateNode node))"
| "reach_statement (DeleteStatement ctes node) =
     reach_dml ctes (anywhere (reach_table ` set1_DeleteNode node \<union> reach_expression ` set2_DeleteNode node))"
| "reach_statement (MergeIntoStatement ctes node) =
     reach_dml ctes (anywhere (reach_table ` set1_MergeNode node \<union> reach_expression ` set2_MergeNode node))"
| "reach_statement (CopyStatement info) =
     (\<lambda>S. \<Union>i \<in> set_option info. insert (TableAccess (ci_target i))
        (anywhere (reach_query ` set1_CopyInfo i \<union> reach_expression ` set2_CopyInfo i) S))"
| "reach_statement (CreateStatement info) = anywhere (set_option (map_option reach_create info))"
| "reach_statement (DropStatement info) = (\<lambda>S. (TableAccess \<circ> snd) ` set_option info)"
| "reach_statement (AlterStatement info) =
     (\<lambda>S. \<Union>(t, alter) \<in> set_option info. insert (TableAccess t) (\<Union>a \<in> set_option alter. reach_alter a S))"
| "reach_statement TransactionStatement = (\<lambda>S. {})"
| "reach_statement (DetachStatement info) = (\<lambda>S. (\<lambda>name. NamedAccess (''catalog:'' @ lower_ascii name)) ` set_option info)"
| "reach_statement CreateFuncStatement = (\<lambda>S. {})"
| "reach_statement (AttachStatement info) = (\<lambda>S. \<Union>exprs \<in> set_option info. reach_named exprs S)"
| "reach_statement (PragmaStatement info) =
     (\<lambda>S. \<Union>(name, parameters, named) \<in> set_option info. reach_exprs parameters S \<union> reach_named named S)"
| "reach_statement (SetStatement name global_scope is_set val) =
     (\<lambda>S. if is_set then \<Union>(e, text) \<in> set_option val. reach_expression e S else {})"
| "reach_statement LoadStatement = (\<lambda>S. {})"
| "reach_statement OtherStatement = (\<lambda>S. {})"
| "reach_create (CreateTableInfo t query columns constraints partition_keys sort_keys table_options) =
     (\<lambda>S. insert (TableAccess t) (reach_opt (Option.bind query (\<lambda>q. q)) S \<union> (\<Union>c \<in> set columns. reach_column c S) \<union>
        (\<Union>p \<in> set constraints. \<Union>c \<in> set_option p. reach_constraint c S) \<union>
        reach_exprs partition_keys S \<union> reach_exprs sort_keys S \<union> reach_named table_options S))"
| "reach_create (CreateViewInfo t query) = (\<lambda>S. insert (TableAccess t) (reach_opt query S))"
| "reach_create (CreateTypeInfo t query) =
     (\<lambda>S. insert (TableAccess t) (anywhere (set_option (map_option reach_statement query)) S))"
| "reach_create (CreateMacroInfo t) = (\<lambda>S. {TableAccess t})"
| "reach_create (CreateSchemaInfo t schema_options) =
     (\<lambda>S. insert (NamedAccess (''schema:'' @ lower_ascii (fst (snd t)))) (reach_named schema_options S))"
| "reach_create UnsupportedCreate = (\<lambda>S. {})"

section \<open>Soundness for statements\<close>

lemma sound_walk_named: "sound (walk_named exprs) (reach_named exprs)"
  unfolding walk_named_def reach_named_def [abs_def] by (rule sound_WalkNamedExpressions) (rule sound_walk)

lemma sound_exprs: "sound (WalkExpressions (map (map_option WalkExpression) es)) (reach_exprs es)"
  unfolding reach_exprs_def [abs_def] by (rule sound_WalkExpressions) (rule sound_walk)

lemma sound_opt_query:
  shows "sound (if_present (map_option WalkQueryNode p)) (reach_opt p)"
    and "sound (or_unsafe (ch # m) (map_option WalkQueryNode p)) (reach_opt p)"
  using sound_if_present [of p WalkQueryNode reach_query] sound_or_unsafe [of p WalkQueryNode reach_query ch m] sound_walk(3)
  by (simp_all add: reach_opt_def [abs_def])

lemma sound_one_expr:
  shows "sound (if_present (map_option WalkExpression p)) (reach_exprs [p])"
    and "sound (or_unsafe (ch # m) (map_option WalkExpression p)) (reach_exprs [p])"
  using sound_if_present [of p WalkExpression reach_expression] sound_or_unsafe [of p WalkExpression reach_expression ch m] sound_walk(1)
  by (simp_all add: reach_exprs_def [abs_def])

lemma sound_dml:
  assumes "sound w f"
  shows "sound (dml_scope ctes w) (reach_dml ctes f)"
  unfolding dml_scope_def reach_dml_def [abs_def] by (rule sound_with_ctes [OF _ assms]) (rule sound_walk)

lemma sound_column: "sound (WalkColumnDefinition column) (reach_column column)"
  by (cases column) (simp_all add: WalkColumnDefinition_def reach_column_def sound_walk sound_id)

lemma sound_constraint: "sound (WalkConstraint p) (\<lambda>S. \<Union>c \<in> set_option p. reach_constraint c S)"
proof (cases p)
  case (Some c)
  then show ?thesis
    by (cases c) (simp_all add: WalkConstraint_def reach_constraint_def sound_one_expr sound_id sound_Unsafe_any)
qed (simp add: WalkConstraint_def sound_Unsafe_any)

lemma sound_drop: "sound (WalkDrop info) (\<lambda>S. (TableAccess \<circ> snd) ` set_option info)"
proof (cases info)
  case (Some i)
  obtain b t where i: "i = (b, t)" by (cases i)
  have "sound (walks [if b then (\<lambda>ctx. ctx) else Unsafe ''unsupported DROP entry type'',
      if snd (snd t) = [] then Unsafe ''unnamed DROP target'' else on_req (AddObject t)]) (\<lambda>S. {TableAccess t})"
    by (rule sound_weaken, (rule sound_Cons sound_Nil sound_if sound_id sound_Unsafe_any sound_AddObject)+) simp
  then show ?thesis by (simp add: WalkDrop_def Some i)
qed (simp add: WalkDrop_def sound_Unsafe_any)

lemma sound_alter_kind:
  "sound (case alter of
      None \<Rightarrow> Unsafe ''unsupported ALTER kind''
    | Some InertAlter \<Rightarrow> (\<lambda>ctx. ctx)
    | Some (AlterColumnType e) \<Rightarrow> or_unsafe ''null ALTER TYPE expression'' (map_option WalkExpression e)
    | Some (SetDefault e) \<Rightarrow> if_present (map_option WalkExpression e)
    | Some (AddColumnInfo column) \<Rightarrow> WalkColumnDefinition column
    | Some UnsupportedAlter \<Rightarrow> Unsafe ''unsupported ALTER subtype'') (\<lambda>S. \<Union>a \<in> set_option alter. reach_alter a S)"
  by (simp add: reach_alter_def sound_one_expr sound_column sound_id sound_Unsafe_any split: option.split AlterTable.split)

lemma sound_alter: "sound (WalkAlter info) (\<lambda>S. \<Union>(t, alter) \<in> set_option info. insert (TableAccess t) (\<Union>a \<in> set_option alter. reach_alter a S))"
proof (cases info)
  case (Some i)
  obtain t alter where i: "i = (t, alter)" by (cases i)
  have "sound (if snd (snd t) = [] then Unsafe ''unnamed ALTER target'' else on_req (AddObject t)) (\<lambda>S. {TableAccess t})"
    by (simp add: sound_Unsafe_any sound_AddObject)
  from sound_seq [OF this sound_alter_kind] show ?thesis by (simp add: WalkAlter_def Some i)
qed (simp add: WalkAlter_def sound_Unsafe_any)

lemma sound_named:
  assumes "obj \<noteq> []" "lower_ascii obj = obj"
  shows "sound (on_req (AddNamedObject obj)) (\<lambda>S. {NamedAccess obj})"
  by (rule sound_on_req) (use AddNamedObject_extends [OF assms] in auto)

lemma sound_guard: "sound (\<lambda>ctx. if b then Unsafe (ch # m) ctx else ctx) (\<lambda>S. {})"
  using sound_Unsafe [of ch m] by (cases b) (simp_all add: sound_id)

lemma sound_classify: "sound (\<lambda>ctx. snd (ClassifyStatement s ctx)) (\<lambda>S. {})"
proof -
  have "sound (\<lambda>ctx. snd (ClassifyPragma p ctx)) (\<lambda>S. {})" for p
    using sound_Unsafe sound_seq [OF sound_Unsafe sound_Unsafe]
    by (simp add: ClassifyPragma_def Let_def sound_def split: option.split)
  moreover have "sound (ClassifySet name g b) (\<lambda>S. {})" for name g b
    unfolding ClassifySet_def Let_def
    by (rule sound_weaken, (rule sound_Cons sound_Nil sound_if sound_id sound_Unsafe)+) simp
  ultimately show ?thesis
    by (cases s) (simp_all add: ClassifyStatement_def sound_id sound_Unsafe sound_guard)
qed

lemma sound_set: "sound (WalkSetStatement name is_set val) (\<lambda>S. if is_set then \<Union>(e, text) \<in> set_option val. reach_expression e S else {})"
proof (cases val)
  case (Some v)
  obtain e str where v: "v = (e, str)" by (cases v)
  have "sound (walks [WalkExpression e, if \<not> is_constant e then Unsafe ''nonconstant SET value'' else (\<lambda>ctx. ctx),
      if lower_ascii name = ''threads'' \<and> str \<noteq> ''4'' then Unsafe ''threads setting must be the approved value 4'' else (\<lambda>ctx. ctx)])
      (reach_expression e)"
    by (rule sound_weaken, (rule sound_Cons sound_Nil sound_if sound_id sound_Unsafe sound_walk)+) simp
  then show ?thesis by (simp add: WalkSetStatement_def Some v sound_id)
qed (simp add: WalkSetStatement_def sound_Unsafe_any sound_id)

lemma sound_all: "(\<And>x. x \<in> A \<Longrightarrow> sound (w x) (f x)) \<Longrightarrow> \<forall>x \<in> A. sound (w x) (f x)"
  by blast

lemmas sound_dml_nodes =
  sound_WalkInsert [OF sound_all [where w = WalkQueryNode and f = reach_query, OF sound_walk(3)]
    sound_all [where w = WalkTableRef and f = reach_table, OF sound_walk(5)] sound_all [where w = WalkExpression and f = reach_expression, OF sound_walk(1)]]
  sound_WalkUpdate [OF sound_all [where w = WalkTableRef and f = reach_table, OF sound_walk(5)]
    sound_all [where w = WalkExpression and f = reach_expression, OF sound_walk(1)]]
  sound_WalkDelete [OF sound_all [where w = WalkTableRef and f = reach_table, OF sound_walk(5)]
    sound_all [where w = WalkExpression and f = reach_expression, OF sound_walk(1)]]
  sound_WalkMerge [OF sound_all [where w = WalkTableRef and f = reach_table, OF sound_walk(5)]
    sound_all [where w = WalkExpression and f = reach_expression, OF sound_walk(1)]]

lemma sound_statement:
  shows "sound (WalkStatement s) (reach_statement s)" and "sound (WalkCreate c) (reach_create c)"
proof (induction s and c rule: SQLStatement.induct CreateInfo.induct)
  case (ExplainStatement analyze stmt)
  show ?case
  proof (cases stmt)
    case (Some inner)
    have ih: "sound (WalkStatement inner) (reach_statement inner)" using ExplainStatement.IH Some by simp
    have "sound (walks [if analyze then Unsafe ''EXPLAIN ANALYZE may execute SQL'' else (\<lambda>ctx. ctx),
        \<lambda>ctx. snd (ClassifyStatement inner ctx), if_present (Some (WalkStatement inner))]) (reach_statement inner)"
      unfolding if_present_def option.simps
      by (rule sound_weaken, (rule sound_Cons sound_Nil sound_if sound_id sound_Unsafe sound_classify ih)+) simp
    then show ?thesis by (simp add: WalkExplain_def Some anywhere_def [abs_def])
  qed (simp add: WalkExplain_def sound_Unsafe_any)
next
  case (CopyStatement info)
  show ?case using sound_copy [of info] sound_walk(1,3) by (cases info) (simp_all add: CopyInfo.set_map anywhere_def [abs_def])
next
  case (CreateStatement info)
  show ?case using sound_or_unsafe [of info WalkCreate reach_create] CreateStatement.IH by (simp add: anywhere_def [abs_def] option.set_map)
next
  case (DetachStatement info)
  show ?case
  proof (cases info)
    case (Some name)
    have "sound (on_req (AddNamedObject (''catalog:'' @ lower_ascii name))) (\<lambda>S. {NamedAccess (''catalog:'' @ lower_ascii name)})"
      by (rule sound_named) simp_all
    then show ?thesis by (simp add: Some sound_Unsafe_any)
  qed (simp add: sound_Unsafe_any)
next
  case (AttachStatement info)
  show ?case by (cases info) (simp_all add: sound_walk_named sound_Unsafe_any)
next
  case (PragmaStatement info)
  show ?case
    by (cases info) (simp_all add: sound_Unsafe_any case_prod_beta sound_seq [OF sound_exprs sound_walk_named])
next
  case (CreateTableInfo t query columns constraints partition_keys sort_keys table_options)
  have q: "sound (case map_option (map_option WalkQueryNode) query of
      None \<Rightarrow> (\<lambda>ctx. ctx) | Some q \<Rightarrow> or_unsafe ''null CREATE TABLE query'' q) (reach_opt (Option.bind query (\<lambda>q. q)))"
    by (cases query) (simp_all add: sound_opt_query, simp add: reach_opt_def [abs_def] sound_id)
  show ?case unfolding WalkCreate.simps reach_create.simps
    by (rule sound_weaken, (rule sound_Cons sound_Nil sound_AddObject q sound_exprs sound_walk_named
      sound_map [where w = WalkColumnDefinition and f = reach_column] sound_map [where w = WalkConstraint and f = "\<lambda>p S. \<Union>c \<in> set_option p. reach_constraint c S"]
      sound_column sound_constraint)+) auto
next
  case (CreateViewInfo t query)
  show ?case unfolding WalkCreate.simps reach_create.simps
    by (rule sound_weaken, (rule sound_Cons sound_Nil sound_AddObject sound_opt_query)+) auto
next
  case (CreateTypeInfo t query)
  have q: "sound (if_present (map_option WalkStatement query)) (anywhere (set_option (map_option reach_statement query)))"
    using sound_if_present [of query WalkStatement reach_statement] CreateTypeInfo.IH by (simp add: anywhere_def [abs_def] option.set_map)
  show ?case unfolding WalkCreate.simps reach_create.simps
    by (rule sound_weaken, (rule sound_Cons sound_Nil sound_AddObject q)+) auto
next
  case (CreateMacroInfo t)
  show ?case unfolding WalkCreate.simps reach_create.simps
    by (rule sound_weaken, (rule sound_Cons sound_Nil sound_AddObject sound_Unsafe)+) auto
next
  case (CreateSchemaInfo t schema_options)
  have "sound (if fst (snd t) = [] then Unsafe ''unnamed CREATE SCHEMA'' else on_req (AddNamedObject (''schema:'' @ lower_ascii (fst (snd t)))))
      (\<lambda>S. {NamedAccess (''schema:'' @ lower_ascii (fst (snd t)))})"
    by (rule sound_if, rule sound_Unsafe_any, rule sound_named) simp_all
  note parts = this
  show ?case unfolding WalkCreate.simps reach_create.simps
    by (rule sound_weaken, (rule sound_Cons sound_Nil parts sound_walk_named sound_if sound_id sound_Unsafe)+) auto
qed (simp_all add: sound_id sound_Unsafe_any sound_opt_query sound_drop [unfolded comp_def] sound_alter sound_set sound_dml sound_dml_nodes)

section \<open>A whole query\<close>

text \<open>The action of a statement.\<close>

definition statement_action :: "SQLStatement \<Rightarrow> Action" where
  "statement_action s =
     (case s of
        InsertStatement _ _ \<Rightarrow> Insert | UpdateStatement _ _ \<Rightarrow> Update | MergeIntoStatement _ _ \<Rightarrow> Update | DeleteStatement _ _ \<Rightarrow> Delete
      | CreateStatement _ \<Rightarrow> Ddl | DropStatement _ \<Rightarrow> Ddl | AlterStatement _ \<Rightarrow> Ddl | TransactionStatement \<Rightarrow> Ddl
      | DetachStatement _ \<Rightarrow> Ddl | CreateFuncStatement \<Rightarrow> Ddl | LoadStatement \<Rightarrow> Ddl
      | CopyStatement (Some i) \<Rightarrow> (if ci_is_from i then CopyFrom else CopyTo) | CopyStatement None \<Rightarrow> CopyTo
      | AttachStatement _ \<Rightarrow> Attach | SetStatement _ _ _ _ \<Rightarrow> Pragma
      | PragmaStatement (Some (name, _)) \<Rightarrow>
          (if lower_ascii name \<in> {''quack_serve'', ''quack_stop'', ''quack_restart''} then ServeAdmin else Pragma)
      | PragmaStatement None \<Rightarrow> Pragma
      | _ \<Rightarrow> Scan)"

lemma ClassifyStatement_action: "fst (ClassifyStatement s ctx) = statement_action s"
  by (cases s) (auto simp: ClassifyStatement_def statement_action_def ClassifyPragma_def Let_def split: option.split)

definition stmt_ok :: "AuthzRequest \<Rightarrow> SQLStatement option \<Rightarrow> bool" where
  "stmt_ok req stmt \<longleftrightarrow> (\<exists>s. stmt = Some s \<and> statement_action s = ar_action req \<and> (\<forall>a \<in> reach_statement s {}. accounted req a))"

lemma stmt_ok_mono: "extends r r' \<Longrightarrow> stmt_ok r stmt \<Longrightarrow> stmt_ok r' stmt"
  unfolding stmt_ok_def using accounted_mono by (fastforce simp: extends_def)

lemma wf_request_action: "wf_request (r\<lparr>ar_action := a\<rparr>) = wf_request r"
  by (simp add: wf_request_def)

text \<open>One statement: the request grows, and if it is still safe the statement is accounted for.\<close>

lemma inspect_statement_sound:
  assumes "inspect_statement first stmt req = (first', req')"
  shows "(if first then wf_request req \<longrightarrow> wf_request req' else extends req req') \<and> (ar_unsafe req \<longrightarrow> ar_unsafe req') \<and>
    (stmt = None \<longrightarrow> first' = first \<and> ar_unsafe req') \<and> (stmt \<noteq> None \<longrightarrow> \<not> first') \<and> (\<not> ar_unsafe req' \<longrightarrow> stmt_ok req' stmt)"
proof (cases stmt)
  case None
  have ext: "extends req (mark_unsafe ''null statement'' req)" by simp
  then have "wf_request req \<longrightarrow> wf_request (mark_unsafe ''null statement'' req)" unfolding extends_def by blast
  with ext assms show ?thesis by (auto simp: inspect_statement_def None)
next
  case (Some s)
  obtain c0 where cls: "ClassifyStatement s \<lparr>wc_req = req, wc_cte_names = []\<rparr> = (statement_action s, c0)"
    using ClassifyStatement_action by (metis prod.collapse)
  define c1 where "c1 = (if first then on_req (\<lambda>r. r\<lparr>ar_action := statement_action s\<rparr>) c0
    else if statement_action s \<noteq> ar_action (wc_req c0) then Unsafe ''mixed statement actions'' c0 else c0)"
  have req': "first' = False" "req' = wc_req (WalkStatement s c1)"
    using assms by (simp_all add: Some inspect_statement_def cls Let_def flip: c1_def)
  have c0: "extends req (wc_req c0)" "wc_cte_names c0 = []"
    using spec [OF sound_classify [of s, unfolded sound_def], of "\<lparr>wc_req = req, wc_cte_names = []\<rparr>"] by (simp_all add: cls)
  have names: "wc_cte_names c1 = []" by (simp add: c1_def on_req_def Unsafe_def c0(2))
  have w: "extends (wc_req c1) req'" "\<not> ar_unsafe req' \<longrightarrow> (\<forall>a \<in> reach_statement s {}. accounted req' a)"
    using sound_statement(1) [of s] names unfolding sound_def req'(2) by (metis empty_set)+
  have act: "\<not> ar_unsafe (wc_req c1) \<longrightarrow> ar_action (wc_req c1) = statement_action s"
    by (simp add: c1_def on_req_def Unsafe_def)
  have grow: "if first then (wf_request req \<longrightarrow> wf_request (wc_req c1)) \<and> (ar_unsafe req \<longrightarrow> ar_unsafe (wc_req c1)) else extends req (wc_req c1)"
  proof (cases first)
    case True
    have "(wf_request req \<longrightarrow> wf_request (wc_req c0)) \<and> (ar_unsafe req \<longrightarrow> ar_unsafe (wc_req c0))" using c0(1) unfolding extends_def by blast
    then show ?thesis using True by (simp add: c1_def on_req_def wf_request_action)
  next
    case False
    have "extends req (mark_unsafe ''mixed statement actions'' (wc_req c0))" by (rule extends_trans [OF c0(1)]) simp
    with False c0(1) show ?thesis by (simp add: c1_def on_req_def Unsafe_def)
  qed
  have w': "wf_request (wc_req c1) \<longrightarrow> wf_request req'" "ar_unsafe (wc_req c1) \<longrightarrow> ar_unsafe req'" "ar_action req' = ar_action (wc_req c1)"
    using w(1) unfolding extends_def by blast+
  have "ar_unsafe req \<longrightarrow> ar_unsafe (wc_req c1)" using grow by (cases first) (simp_all add: extends_def)
  then have 2: "ar_unsafe req \<longrightarrow> ar_unsafe req'" using w'(2) by blast
  have 1: "if first then wf_request req \<longrightarrow> wf_request req' else extends req req'"
    using grow w'(1) extends_trans [OF _ w(1), of req] by (cases first) simp_all
  have 3: "\<not> ar_unsafe req' \<longrightarrow> stmt_ok req' stmt" using w(2) w' act unfolding stmt_ok_def Some by auto
  from 1 2 3 show ?thesis by (simp add: Some req'(1))
qed

lemma inspect_statements_sound:
  "(if first then wf_request req \<longrightarrow> wf_request (inspect_statements first stmts req) else extends req (inspect_statements first stmts req)) \<and>
   (ar_unsafe req \<longrightarrow> ar_unsafe (inspect_statements first stmts req)) \<and>
   (\<not> ar_unsafe (inspect_statements first stmts req) \<longrightarrow> (\<forall>stmt \<in> set stmts. stmt_ok (inspect_statements first stmts req) stmt))"
proof (induction stmts arbitrary: first req)
  case (Cons stmt stmts)
  obtain first' req' where step: "inspect_statement first stmt req = (first', req')" by (cases "inspect_statement first stmt req")
  note S = inspect_statement_sound [OF step] and IH = Cons.IH [of first' req']
  let ?res = "inspect_statements first' stmts req'"
  have first': "\<not> first \<Longrightarrow> \<not> first'" using S by (cases stmt) blast+
  have wf: "wf_request req' \<longrightarrow> wf_request ?res" using IH by (cases first') (simp_all add: extends_def)
  have "if first then wf_request req \<longrightarrow> wf_request ?res else extends req ?res"
  proof (cases first)
    case True
    then show ?thesis using S wf by simp
  next
    case False
    then show ?thesis using S IH first' extends_trans [of req req' ?res] by simp
  qed
  moreover have "ar_unsafe req \<longrightarrow> ar_unsafe ?res" using S IH by blast
  moreover have "\<not> ar_unsafe ?res \<longrightarrow> stmt_ok ?res stmt"
  proof
    assume safe: "\<not> ar_unsafe ?res"
    then have safe': "\<not> ar_unsafe req'" using IH by blast
    then have "stmt \<noteq> None" using S by blast
    then have "extends req' ?res" using S IH by simp
    with safe' S show "stmt_ok ?res stmt" using stmt_ok_mono by blast
  qed
  moreover have "inspect_statements first (stmt # stmts) req = ?res" by (simp add: step)
  ultimately show ?case using IH by (simp only: list.set ball_simps) blast
qed simp

section \<open>Statements that are never safe\<close>

text \<open>
  What the inspection refuses whatever it touches. An \<open>EXPLAIN\<close> is refused with its statement.
\<close>

definition forbidden_create :: "CreateInfo option \<Rightarrow> bool" where
  "forbidden_create info =
     (case info of None \<Rightarrow> True | Some (CreateMacroInfo _) \<Rightarrow> True | Some UnsupportedCreate \<Rightarrow> True
      | Some (CreateViewInfo _ None) \<Rightarrow> True | Some (CreateSchemaInfo t _) \<Rightarrow> fst t \<noteq> [] \<or> fst (snd t) = [] | _ \<Rightarrow> False)"

primrec forbidden :: "SQLStatement \<Rightarrow> bool" where
  "forbidden (ExplainStatement analyze stmt) = (analyze \<or> (case map_option forbidden stmt of None \<Rightarrow> True | Some b \<Rightarrow> b))"
| "forbidden LoadStatement = True"
| "forbidden CreateFuncStatement = True"
| "forbidden OtherStatement = True"
| "forbidden (SetStatement name global_scope is_set val) =
     (lower_ascii name \<noteq> ''threads'' \<or> global_scope \<or> \<not> is_set \<or>
      (case val of None \<Rightarrow> True | Some (e, text) \<Rightarrow> \<not> is_constant e \<or> text \<noteq> ''4''))"
| "forbidden (PragmaStatement info) =
     (case info of
        None \<Rightarrow> True
      | Some (name, parameters) \<Rightarrow> lower_ascii name \<notin> {''version'', ''quack_serve'', ''quack_stop'', ''quack_restart''})"
| "forbidden (MergeIntoStatement ctes node) = (\<not> MergeOnlyUpdates node)"
| "forbidden (CreateStatement info) = forbidden_create info"
| "forbidden (DropStatement info) = (case info of None \<Rightarrow> True | Some (table_or_view, t) \<Rightarrow> \<not> table_or_view \<or> snd (snd t) = [])"
| "forbidden (AlterStatement info) = (case info of None \<Rightarrow> True | Some (t, alter) \<Rightarrow> alter = None \<or> snd (snd t) = [])"
| "forbidden (CopyStatement info) = (info = None)"
| "forbidden (DetachStatement info) = (info = None)"
| "forbidden (AttachStatement info) = (info = None)"
| "forbidden (SelectStatement node) = False"
| "forbidden RelationStatement = False"
| "forbidden (InsertStatement ctes node) = False"
| "forbidden (UpdateStatement ctes node) = False"
| "forbidden (DeleteStatement ctes node) = False"
| "forbidden TransactionStatement = False"

lemma sound_keeps_unsafe: "sound w f \<Longrightarrow> ar_unsafe (wc_req c) \<Longrightarrow> ar_unsafe (wc_req (w c))"
  unfolding sound_def extends_def by blast

lemma Unsafe_unsafe [simp]: "ar_unsafe (wc_req (Unsafe m c))"
  by (simp add: Unsafe_def on_req_def)

lemma walk_keeps_unsafe:
  "ar_unsafe (wc_req c) \<Longrightarrow> ar_unsafe (wc_req (on_req (AddObject t) c))" "ar_unsafe (wc_req c) \<Longrightarrow> ar_unsafe (wc_req (walk_named es c))"
  "ar_unsafe (wc_req c) \<Longrightarrow> ar_unsafe (wc_req (WalkStatement s c))" "ar_unsafe (wc_req c) \<Longrightarrow> ar_unsafe (wc_req (snd (ClassifyStatement s c)))"
  "obj \<noteq> [] \<Longrightarrow> lower_ascii obj = obj \<Longrightarrow> ar_unsafe (wc_req c) \<Longrightarrow> ar_unsafe (wc_req (on_req (AddNamedObject obj) c))"
  using sound_keeps_unsafe [OF sound_AddObject] sound_keeps_unsafe [OF sound_walk_named] sound_keeps_unsafe [OF sound_statement(1)]
    sound_keeps_unsafe [OF sound_classify] sound_keeps_unsafe [OF sound_named] by blast+

lemma forbidden_create_unsafe: "forbidden_create info \<Longrightarrow> ar_unsafe (wc_req (WalkStatement (CreateStatement info) c))"
  by (auto simp: forbidden_create_def or_unsafe_def walk_keeps_unsafe split: option.splits CreateInfo.splits)

definition refused :: "SQLStatement \<Rightarrow> bool" where
  "refused s \<longleftrightarrow> (\<forall>c. ar_unsafe (wc_req (snd (ClassifyStatement s c)))) \<or> (\<forall>c. ar_unsafe (wc_req (WalkStatement s c)))"

lemma refused_walkI: "(\<And>c. ar_unsafe (wc_req (WalkStatement s c))) \<Longrightarrow> refused s"
  by (simp add: refused_def)

lemma refused_classifyI: "(\<And>c. ar_unsafe (wc_req (snd (ClassifyStatement s c)))) \<Longrightarrow> refused s"
  by (simp add: refused_def)

lemma refused_explain:
  assumes "analyze \<or> refused s"
  shows "refused (ExplainStatement analyze (Some s))"
  by (rule refused_walkI) (use assms walk_keeps_unsafe(3,4) in \<open>auto simp: refused_def WalkExplain_def if_present_def\<close>)

lemma forbidden_refused: "forbidden s \<Longrightarrow> refused s"
proof (induction s rule: SQLStatement.induct [where ?P2.0 = "\<lambda>c. True"])
  case (ExplainStatement analyze stmt)
  show ?case
  proof (cases stmt)
    case None
    then show ?thesis by (intro refused_walkI) (simp add: WalkExplain_def)
  next
    case (Some s)
    then show ?thesis using ExplainStatement by (auto intro: refused_explain)
  qed
next
  case (SetStatement name g is_set val)
  show ?case
  proof (cases "lower_ascii name \<noteq> ''threads'' \<or> g \<or> \<not> is_set")
    case True
    then show ?thesis
      by (intro refused_classifyI) (auto simp: ClassifyStatement_def ClassifySet_def AllowedSetting_def Let_def)
  next
    case False
    then show ?thesis using SetStatement
      by (intro refused_walkI) (auto simp: WalkSetStatement_def split: option.splits)
  qed
next
  case (PragmaStatement info)
  then show ?case by (intro refused_classifyI) (auto simp: ClassifyStatement_def ClassifyPragma_def AllowedPragma_def Let_def split: option.splits)
next
  case (MergeIntoStatement ctes node)
  then show ?case by (intro refused_classifyI) (simp add: ClassifyStatement_def)
next
  case (CreateStatement info)
  then show ?case by (intro refused_walkI) (simp add: forbidden_create_unsafe del: WalkStatement.simps)
next
  case (DropStatement info)
  then show ?case by (intro refused_walkI) (auto simp: WalkDrop_def walk_keeps_unsafe split: option.splits)
next
  case (AlterStatement info)
  then show ?case
    by (intro refused_walkI) (auto simp: WalkAlter_def split: option.splits
      intro: sound_keeps_unsafe [OF sound_alter_kind [of "Some a" for a, unfolded option.case]])
next
  case (CopyStatement info)
  then show ?case by (intro refused_walkI) (simp add: or_unsafe_def)
next
  case CreateFuncStatement
  then show ?case by (intro refused_walkI) simp
next
  case LoadStatement
  then show ?case by (intro refused_classifyI) (simp add: ClassifyStatement_def)
next
  case OtherStatement
  then show ?case by (intro refused_walkI) simp
qed (auto intro!: refused_walkI)

lemma refused_statement:
  assumes "refused s"
  shows "ar_unsafe (snd (inspect_statement first (Some s) req))"
proof -
  obtain c0 where cls: "ClassifyStatement s \<lparr>wc_req = req, wc_cte_names = []\<rparr> = (statement_action s, c0)"
    using ClassifyStatement_action by (metis prod.collapse)
  have "ar_unsafe (wc_req c0) \<or> (\<forall>c. ar_unsafe (wc_req (WalkStatement s c)))"
    using assms by (metis refused_def cls snd_conv)
  moreover have "ar_unsafe (wc_req (on_req (\<lambda>r. r\<lparr>ar_action := a\<rparr>) c)) = ar_unsafe (wc_req c)" for a c by (simp add: on_req_def)
  ultimately show ?thesis using walk_keeps_unsafe(3) by (auto simp: inspect_statement_def cls Let_def)
qed

lemma refused_statements: "Some s \<in> set stmts \<Longrightarrow> refused s \<Longrightarrow> ar_unsafe (inspect_statements first stmts req)"
proof (induction stmts arbitrary: first req)
  case (Cons stmt stmts)
  obtain first' req' where step: "inspect_statement first stmt req = (first', req')" by (cases "inspect_statement first stmt req")
  show ?case
  proof (cases "stmt = Some s")
    case True
    then have "ar_unsafe req'" using refused_statement [OF Cons.prems(2), of first req] step by simp
    then show ?thesis using inspect_statements_sound [of first' req' stmts] by (simp add: step)
  next
    case False
    then show ?thesis using Cons by (simp add: step)
  qed
qed simp

section \<open>The inspection of a query\<close>

lemma InspectSql_parsed: "query \<noteq> [] \<Longrightarrow> parse query = Inr stmts \<Longrightarrow> InspectSql parse query = inspect_statements True stmts new_AuthzRequest"
  by (simp add: InspectSql_def)

text \<open>
  C3: when the inspection of a query does not call it unsafe, every statement of the query was parsed, all
  statements have the action of the request, and the request accounts for everything each statement
  reaches, at any depth: each table read is among the objects under its schema, is no path-like name and
  no catalog-qualified one, each target of a statement too, system views but one are excluded, each
  table function is an object or exempt and none runs dynamic SQL, each column is listed, no scalar
  function reads settings or sequences, and no query hides a modification of another action.
\<close>

theorem InspectSql_sound:
  assumes "query \<noteq> []" "parse query = Inr stmts" "\<not> ar_unsafe (InspectSql parse query)" "stmt \<in> set stmts"
  shows "\<exists>s. stmt = Some s \<and> statement_action s = ar_action (InspectSql parse query) \<and>
    (\<forall>a \<in> reach_statement s {}. accounted (InspectSql parse query) a)"
  using assms inspect_statements_sound [of True new_AuthzRequest stmts] by (simp add: InspectSql_parsed stmt_ok_def)

lemma InspectSql_wf:
  assumes "parse query \<noteq> Inl (Some [])"
  shows "wf_request (InspectSql parse query)"
proof -
  have "wf_request new_AuthzRequest" by (simp add: wf_request_def new_AuthzRequest_def)
  then show ?thesis using assms inspect_statements_sound [of True new_AuthzRequest]
    by (auto simp: InspectSql_def wf_request_def new_AuthzRequest_def split: sum.split option.split)
qed

text \<open>
  C13: the request that the inspection makes is well formed: no object or column is listed twice, every name
  is not empty and in lower case, and it carries an error message exactly when it is unsafe, provided
  that the parser does not fail with an empty message.
\<close>

theorem InspectSql_well_formed:
  assumes "parse query \<noteq> Inl (Some [])"
  shows "wf_request (InspectSql parse query)"
  using assms by (rule InspectSql_wf)

text \<open>
  C9: the inspection fails closed. A query that does not parse is unsafe with the parser's message and no
  objects; so is one with a missing statement, with statements of different actions, or with a statement
  that is never allowed (\<open>LOAD\<close>, functions, macros, settings other than the approved one, pragmas outside
  the list, a \<open>MERGE\<close> that does not only update), also when it is wrapped in an \<open>EXPLAIN\<close>.
\<close>

theorem InspectSql_fails_closed:
  assumes "query \<noteq> []"
  shows "(\<forall>e. parse query = Inl e \<longrightarrow> ar_unsafe (InspectSql parse query) \<and> ar_objects (InspectSql parse query) = [] \<and>
      ar_error (InspectSql parse query) = (case e of Some what \<Rightarrow> what | None \<Rightarrow> ''parse_error'')) \<and>
    (\<forall>stmts. parse query = Inr stmts \<longrightarrow>
      None \<in> set stmts \<or> (\<exists>s s'. Some s \<in> set stmts \<and> Some s' \<in> set stmts \<and> statement_action s \<noteq> statement_action s') \<or>
      (\<exists>s. Some s \<in> set stmts \<and> forbidden s) \<longrightarrow> ar_unsafe (InspectSql parse query))"
proof (intro conjI allI impI)
  fix e assume "parse query = Inl e"
  then show "ar_unsafe (InspectSql parse query)" "ar_objects (InspectSql parse query) = []"
    "ar_error (InspectSql parse query) = (case e of Some what \<Rightarrow> what | None \<Rightarrow> ''parse_error'')"
    using assms by (simp_all add: InspectSql_def new_AuthzRequest_def)
next
  fix stmts assume "parse query = Inr stmts"
    and bad: "None \<in> set stmts \<or> (\<exists>s s'. Some s \<in> set stmts \<and> Some s' \<in> set stmts \<and> statement_action s \<noteq> statement_action s') \<or>
      (\<exists>s. Some s \<in> set stmts \<and> forbidden s)"
  note parsed = InspectSql_parsed [of query parse stmts, OF assms this(1)]
  have "stmt_ok (InspectSql parse query) stmt" if "\<not> ar_unsafe (InspectSql parse query)" "stmt \<in> set stmts" for stmt
    using that inspect_statements_sound [of True new_AuthzRequest stmts] by (simp add: parsed)
  moreover have "ar_unsafe (InspectSql parse query)" if "Some s \<in> set stmts" "forbidden s" for s
    using refused_statements [OF that(1) forbidden_refused [OF that(2)]] by (simp add: parsed)
  ultimately show "ar_unsafe (InspectSql parse query)" using bad unfolding stmt_ok_def by (metis option.distinct(1) option.inject)
qed

section \<open>Examples\<close>

text \<open>
  \<open>WITH c AS (SELECT k FROM Base) SELECT upper(a) FROM c, read_csv('f') WHERE EXISTS (SELECT * FROM sales.Orders)\<close>
\<close>

definition select_from :: "cte_map \<Rightarrow> TableRef \<Rightarrow> Expression \<Rightarrow> Expression option \<Rightarrow> QueryNode" where
  "select_from ctes from_table e where_clause = QueryNode ctes [] (SelectNode (Some from_table) [Some e] where_clause None None [])"

definition example_cte :: QueryNode where
  "example_cte = select_from [] (BaseTableRef ([], [], ''Base'') None) (Expression (ColumnRef [''k'']) []) None"

definition example_exists :: QueryNode where
  "example_exists = select_from [] (BaseTableRef ([], ''sales'', ''Orders'') None) (Expression Star []) None"

definition example_select :: SQLStatement where
  "example_select =
     SelectStatement (Some (select_from
       [(''C'', Some (Some example_cte))]
       (JoinRef (Some (BaseTableRef ([], [], ''c'') None))
          (Some (TableFunctionRef (Some (Expression (Function ''read_csv'') [Expression Constant []])) None)) None)
       (Expression (Function ''upper'') [Expression (ColumnRef [''t'', ''A'']) []])
       (Some (Expression (Subquery (Some example_exists)) []))))"

definition example_parse :: "string \<Rightarrow> string option + SQLStatement option list" where
  "example_parse query =
     (if query = ''select'' then Inr [Some example_select]
      else if query = ''explain'' then Inr [Some (ExplainStatement False (Some LoadStatement))]
      else Inl (Some ''syntax error''))"

lemma lower_literals:
  "lower_ascii ''Base'' = ''base''" "lower_ascii ''C'' = ''c''" "lower_ascii ''c'' = ''c''" "lower_ascii ''k'' = ''k''" "lower_ascii ''A'' = ''a''"
  "lower_ascii ''read_csv'' = ''read_csv''" "lower_ascii ''upper'' = ''upper''" "lower_ascii ''sales'' = ''sales''"
  "lower_ascii ''Orders'' = ''orders''" "lower_ascii ''*'' = ''*''"
  by code_simp+

lemmas walk_eval = on_req_def scoped_def CteScope_Nil CteScope_Cons Let_def select_from_def
  WalkModifiers_def WalkExpressions_def if_present_def or_unsafe_def push_cte_def WalkBaseTable_def WalkTableFunction_def table_function_name_def
  AddObject_def AddNamedObject_def AddFunctionObject_def AddColumn_def IsCte_def IsReplacementScanName_def IsExemptFunction_def
  LooksLikeUnqualifiedSystemView_def system_view_names_def file_suffixes_def state_functions_def lower_literals

lemma example_cte_walk:
  "WalkQueryNode example_cte \<lparr>wc_req = \<lparr>ar_action = Scan, ar_objects = [], ar_columns = [], ar_unsafe = False, ar_error = []\<rparr>, wc_cte_names = []\<rparr> =
     \<lparr>wc_req = \<lparr>ar_action = Scan, ar_objects = [''main.base''], ar_columns = [''k''], ar_unsafe = False, ar_error = []\<rparr>, wc_cte_names = []\<rparr>"
  by (simp add: walk_eval example_cte_def del: lower_ascii_Cons)

lemma example_exists_walk:
  "WalkQueryNode example_exists \<lparr>wc_req = \<lparr>ar_action = Scan, ar_objects = [''main.base'', ''fn:read_csv''], ar_columns = [''k'', ''a''], ar_unsafe = False, ar_error = []\<rparr>,
       wc_cte_names = [''c'']\<rparr> =
     \<lparr>wc_req = \<lparr>ar_action = Scan, ar_objects = [''main.base'', ''fn:read_csv'', ''sales.orders''], ar_columns = [''k'', ''a'', ''*''], ar_unsafe = False, ar_error = []\<rparr>,
       wc_cte_names = [''c'']\<rparr>"
  by (simp add: walk_eval example_exists_def del: lower_ascii_Cons)

lemma example_request:
  "InspectSql example_parse ''select'' =
     \<lparr>ar_action = Scan, ar_objects = [''main.base'', ''fn:read_csv'', ''sales.orders''], ar_columns = [''k'', ''a'', ''*''], ar_unsafe = False, ar_error = []\<rparr>"
  by (simp add: InspectSql_def example_parse_def example_select_def inspect_statement_def ClassifyStatement_def new_AuthzRequest_def
    example_cte_walk example_exists_walk walk_eval del: lower_ascii_Cons)

theorem InspectSql_sound_witness:
  "\<exists>s. Some example_select = Some s \<and> statement_action s = ar_action (InspectSql example_parse ''select'') \<and>
    (\<forall>a \<in> reach_statement s {}. accounted (InspectSql example_parse ''select'') a)"
  by (rule InspectSql_sound [of "''select''" example_parse "[Some example_select]" "Some example_select"])
    (simp_all add: example_parse_def example_request)

theorem InspectSql_well_formed_witness:
  "wf_request (InspectSql example_parse ''select'') \<and> wf_request (InspectSql example_parse ''bad'')"
  using InspectSql_well_formed [of example_parse "''select''"] InspectSql_well_formed [of example_parse "''bad''"]
  by (simp add: example_parse_def)

theorem InspectSql_fails_closed_witness:
  "ar_unsafe (InspectSql example_parse ''explain'') \<and> ar_error (InspectSql example_parse ''bad'') = ''syntax error''"
  using InspectSql_fails_closed [of "''explain''" example_parse] InspectSql_fails_closed [of "''bad''" example_parse]
  by (simp add: example_parse_def)

end
