(* ===== verification/Transport.thy ===== *)
theory Transport
  imports Endpoints
begin

text \<open>
  The HTTP client on httplib (http_client_duckdb.cpp). The library is a parameter: a connection is what
  the code opens it with, whether with TLS and a verified certificate, to which host and port and with
  which credentials; the record \<open>Httplib\<close> answers a request on a connection with status and body, or
  not at all, and changes the outside world \<open>'w\<close>.
\<close>

record Connection =
  cn_tls :: bool
  cn_verify_certificate :: bool
  cn_host :: string
  cn_port :: int
  cn_connection_timeout_s :: int
  cn_read_timeout_s :: int
  cn_basic_auth :: "(string \<times> string) option"

record 'w Httplib =
  hl_Get :: "Connection \<Rightarrow> string \<Rightarrow> 'w \<Rightarrow> (int \<times> string) option \<times> 'w"
  hl_Post :: "Connection \<Rightarrow> string \<Rightarrow> string \<Rightarrow> string \<Rightarrow> 'w \<Rightarrow> (int \<times> string) option \<times> 'w"

definition with_timeouts :: "Connection \<Rightarrow> Connection" where
  "with_timeouts client = client\<lparr>cn_connection_timeout_s := 5, cn_read_timeout_s := 10\<rparr>"

definition response_of :: "(int \<times> string) option \<Rightarrow> HttpResponse option" where
  "response_of result = map_option (\<lambda>(status, body). \<lparr>status_code = status, resp_body = body\<rparr>) result"

definition DoGet :: "'w Httplib \<Rightarrow> Connection \<Rightarrow> string \<Rightarrow> 'w \<Rightarrow> HttpResponse option \<times> 'w" where
  "DoGet L client path w = map_prod response_of (\<lambda>w. w) (hl_Get L (with_timeouts client) path w)"

definition DoPost :: "'w Httplib \<Rightarrow> Connection \<Rightarrow> string \<Rightarrow> PostRequest \<Rightarrow> 'w \<Rightarrow> HttpResponse option \<times> 'w" where
  "DoPost L client path req w =
     (let client1 = with_timeouts client;
          client2 = (if basic_user req \<noteq> [] then client1\<lparr>cn_basic_auth := Some (basic_user req, basic_pass req)\<rparr> else client1)
      in map_prod response_of (\<lambda>w. w) (hl_Post L client2 path (post_body req) (content_type req) w))"

text \<open>
  A new client verifies nothing and has no timeouts until the code says so: the sources set both, and
  nothing is taken from the defaults of the library.
\<close>

definition SSLClient :: "string \<Rightarrow> int \<Rightarrow> Connection" where
  "SSLClient host port = \<lparr>cn_tls = True, cn_verify_certificate = False, cn_host = host, cn_port = port,
     cn_connection_timeout_s = 0, cn_read_timeout_s = 0, cn_basic_auth = None\<rparr>"

definition PlainClient :: "string \<Rightarrow> int \<Rightarrow> Connection" where
  "PlainClient host port = (SSLClient host port)\<lparr>cn_tls := False\<rparr>"

definition enable_server_certificate_verification :: "bool \<Rightarrow> Connection \<Rightarrow> Connection" where
  "enable_server_certificate_verification enabled client = client\<lparr>cn_verify_certificate := enabled\<rparr>"

definition DuckdbHttpClient_Get :: "'w Httplib \<Rightarrow> string \<Rightarrow> 'w \<Rightarrow> HttpResponse option \<times> 'w" where
  "DuckdbHttpClient_Get L url w =
     (case ParseUrl url of
        None \<Rightarrow> (None, w)
      | Some u \<Rightarrow>
          if up_scheme u = ''https'' then
            let client = enable_server_certificate_verification True (SSLClient (up_host u) (up_port u))
            in DoGet L client (up_path u) w
          else if up_scheme u = ''http'' then DoGet L (PlainClient (up_host u) (up_port u)) (up_path u) w
          else (None, w))"

definition DuckdbHttpClient_Post :: "'w Httplib \<Rightarrow> PostRequest \<Rightarrow> 'w \<Rightarrow> HttpResponse option \<times> 'w" where
  "DuckdbHttpClient_Post L req w =
     (case ParseUrl (post_url req) of
        None \<Rightarrow> (None, w)
      | Some u \<Rightarrow>
          if up_scheme u = ''https'' then
            let client = enable_server_certificate_verification True (SSLClient (up_host u) (up_port u))
            in DoPost L client (up_path u) req w
          else if up_scheme u = ''http'' then DoPost L (PlainClient (up_host u) (up_port u)) (up_path u) req w
          else (None, w))"

section \<open>Which connections are opened\<close>

lemma ParseUrl_https: "ParseUrl (''https://'' @ r) = Some u \<Longrightarrow> up_scheme u = ''https''"
  using ParseUrl_parts(1) [OF find_scheme_https _ refl, of r u] by simp

lemma starts_with_https: "starts_with url ''https://'' \<Longrightarrow> ParseUrl url = Some u \<Longrightarrow> up_scheme u = ''https''"
  by (metis ParseUrl_https starts_with_split)

lemma screened_scheme:
  assumes "ValidateHttpUrl field url = Inr ()" "ParseUrl url = Some u" "up_scheme u \<noteq> ''https''"
  shows "IsLocalhostUrl url"
proof -
  have "url \<noteq> []" using assms(2) by (auto simp: ParseUrl_def find_str_def)
  moreover have "\<not> starts_with url ''https://''" using assms(2,3) starts_with_https by blast
  ultimately show ?thesis using assms(1) by (auto simp: ValidateHttpUrl_def Let_def split: if_splits)
qed

text \<open>
  C17: a request to a screened URL is protected on its way. Whatever the HTTP library does, the client
  either makes no request and leaves the world as it is, or makes exactly one on a connection that
  verifies the server's certificate with TLS, has both timeouts set and carries the credentials of the
  request and no others; a connection without TLS is opened only when the screen reads a loopback host in the URL.
\<close>

theorem screened_requests_protected:
  assumes "ValidateHttpUrl field url = Inr ()"
  shows "(DuckdbHttpClient_Get L url w = (None, w) \<or>
      (\<exists>c path. DuckdbHttpClient_Get L url w = map_prod response_of (\<lambda>w. w) (hl_Get L c path w) \<and>
         (cn_tls c \<and> cn_verify_certificate c \<or> IsLocalhostUrl url) \<and>
         cn_connection_timeout_s c = 5 \<and> cn_read_timeout_s c = 10 \<and> cn_basic_auth c = None)) \<and>
    (post_url req = url \<longrightarrow> DuckdbHttpClient_Post L req w = (None, w) \<or>
      (\<exists>c path. DuckdbHttpClient_Post L req w = map_prod response_of (\<lambda>w. w) (hl_Post L c path (post_body req) (content_type req) w) \<and>
         (cn_tls c \<and> cn_verify_certificate c \<or> IsLocalhostUrl url) \<and> cn_connection_timeout_s c = 5 \<and> cn_read_timeout_s c = 10 \<and>
         cn_basic_auth c = (if basic_user req = [] then None else Some (basic_user req, basic_pass req))))"
proof (cases "ParseUrl url")
  case None
  then show ?thesis by (simp add: DuckdbHttpClient_Get_def DuckdbHttpClient_Post_def)
next
  case (Some u)
  have local: "IsLocalhostUrl url" if "up_scheme u \<noteq> ''https''" using screened_scheme [OF assms Some that] .
  let ?c = "\<lambda>u. with_timeouts (if up_scheme u = ''https'' then enable_server_certificate_verification True (SSLClient (up_host u) (up_port u))
      else PlainClient (up_host u) (up_port u))"
  let ?p = "(?c u)\<lparr>cn_basic_auth := if basic_user req = [] then None else Some (basic_user req, basic_pass req)\<rparr>"
  have c: "cn_tls (?c u) \<and> cn_verify_certificate (?c u) \<or> IsLocalhostUrl url" "cn_connection_timeout_s (?c u) = 5"
      "cn_read_timeout_s (?c u) = 10" "cn_basic_auth (?c u) = None"
    using local by (auto simp: with_timeouts_def SSLClient_def PlainClient_def enable_server_certificate_verification_def)
  have "DuckdbHttpClient_Get L url w = (None, w) \<or>
      DuckdbHttpClient_Get L url w = map_prod response_of (\<lambda>w. w) (hl_Get L (?c u) (up_path u) w)"
    by (simp add: DuckdbHttpClient_Get_def Some DoGet_def)
  moreover have "DuckdbHttpClient_Post L req w = (None, w) \<or>
      DuckdbHttpClient_Post L req w = map_prod response_of (\<lambda>w. w) (hl_Post L ?p (up_path u) (post_body req) (content_type req) w)" if "post_url req = url"
    using that by (simp add: DuckdbHttpClient_Post_def Some DoPost_def Let_def with_timeouts_def SSLClient_def PlainClient_def
      enable_server_certificate_verification_def)
  moreover have "cn_tls ?p \<and> cn_verify_certificate ?p \<or> IsLocalhostUrl url" "cn_connection_timeout_s ?p = 5" "cn_read_timeout_s ?p = 10"
      "cn_basic_auth ?p = (if basic_user req = [] then None else Some (basic_user req, basic_pass req))"
    using c by simp_all
  ultimately show ?thesis using c by blast
qed

text \<open>A library that records the connections it is used with, and otherwise does not answer.\<close>

definition recorder :: "Connection list Httplib" where
  "recorder = \<lparr>hl_Get = (\<lambda>c path w. (None, w @ [c])), hl_Post = (\<lambda>c path body type w. (None, w @ [c]))\<rparr>"

theorem screened_requests_protected_witness:
  "\<exists>c. snd (DuckdbHttpClient_Get recorder ''https://idp/keys'' []) = [c] \<and> cn_tls c \<and> cn_verify_certificate c"
proof -
  have "ValidateHttpUrl ''jwks_uri'' ''https://idp/keys'' = Inr ()" by code_simp
  moreover have "\<not> IsLocalhostUrl ''https://idp/keys''" by code_simp
  moreover have "snd (DuckdbHttpClient_Get recorder ''https://idp/keys'' []) \<noteq> []" by code_simp
  ultimately obtain c path where
      c: "DuckdbHttpClient_Get recorder ''https://idp/keys'' [] = map_prod response_of (\<lambda>w. w) (hl_Get recorder c path [])"
        "cn_tls c" "cn_verify_certificate c"
    using conjunct1 [OF screened_requests_protected [of "''jwks_uri''" "''https://idp/keys''" recorder "[]"]] by (metis snd_conv)
  from c(1) have "snd (DuckdbHttpClient_Get recorder ''https://idp/keys'' []) = [c]" by (simp add: recorder_def)
  with c(2,3) show ?thesis by blast
qed

end
