(* ===== verification/Settings.thy ===== *)
theory Settings
  imports Authorization
begin

text \<open>
  The settings of the extension (settings.cpp): the options it registers with their defaults from the
  environment, and the callbacks that a SET of two of them runs. The lower limit of the refresh interval
  is fixed once per process from the environment. The texts that describe the options and the
  forwarding of the telemetry options to the telemetry library are left out.
\<close>

datatype SetScope = AUTOMATIC | SESSION | GLOBAL

datatype OptionValue = BoolOpt bool | StringOpt string | IntOpt int

datatype OptionCallback = NoCallback | ClockSkewCallback | MinRefreshCallback | TelemetryEnabledCallback | TelemetryKeyCallback

record ExtensionOption =
  eo_name :: string
  eo_default :: OptionValue
  eo_callback :: OptionCallback

datatype SettingError =
    NotGlobalScope string
  | NullSetting string
  | SettingBelow string int int
  | SettingAbove string int int
  | BelowStartupFloor int int

text \<open>\<open>g_startup_min_refresh_s\<close> and \<open>g_startup_floor_once\<close>.\<close>

record Startup =
  su_min_refresh_s :: int
  su_floor_once :: bool

definition initial_Startup :: Startup where
  "initial_Startup = \<lparr>su_min_refresh_s = 30, su_floor_once = False\<rparr>"

definition GetJwksMinRefreshFloor :: "Startup \<Rightarrow> int" where
  "GetJwksMinRefreshFloor g = su_min_refresh_s g"

section \<open>Callbacks\<close>

definition OnJwksMinRefreshSeconds :: "'v Host \<Rightarrow> Startup \<Rightarrow> SetScope \<Rightarrow> 'v \<Rightarrow> 'v Server \<Rightarrow> SettingError + 'v Server" where
  "OnJwksMinRefreshSeconds H g scope parameter s =
     (if scope = SESSION then Inl (NotGlobalScope ''quack_oauth_jwks_min_refresh_s'')
      else if h_IsNull H parameter then Inl (NullSetting ''quack_oauth_jwks_min_refresh_s'')
      else
        let val = h_Int32 H parameter; floor = GetJwksMinRefreshFloor g
        in if val < 1 then Inl (SettingBelow ''quack_oauth_jwks_min_refresh_s'' 1 val)
           else if val > 3600 then Inl (SettingAbove ''quack_oauth_jwks_min_refresh_s'' 3600 val)
           else if val < floor then Inl (BelowStartupFloor floor val)
           else Inr (s\<lparr>sv_jwks_cache := SetMinRefreshSeconds (sv_jwks_cache s) val\<rparr>))"

definition OnClockSkewSeconds :: "'v Host \<Rightarrow> SetScope \<Rightarrow> 'v \<Rightarrow> SettingError + unit" where
  "OnClockSkewSeconds H scope parameter =
     (if scope = SESSION then Inl (NotGlobalScope ''quack_oauth_clock_skew_s'')
      else if h_IsNull H parameter then Inl (NullSetting ''quack_oauth_clock_skew_s'')
      else
        let val = h_Int32 H parameter
        in if val < 0 then Inl (SettingBelow ''quack_oauth_clock_skew_s'' 0 val)
           else if val > 3600 then Inl (SettingAbove ''quack_oauth_clock_skew_s'' 3600 val)
           else Inr ())"

section \<open>Registration\<close>

definition EnvStringDefault :: "(string \<Rightarrow> string option) \<Rightarrow> string \<Rightarrow> string \<Rightarrow> OptionValue" where
  "EnvStringDefault getenv env_name fallback =
     (let v = EnvString getenv env_name in if v = [] then StringOpt fallback else StringOpt v)"

definition EnvBoolDefault :: "(string \<Rightarrow> string option) \<Rightarrow> string \<Rightarrow> bool \<Rightarrow> OptionValue" where
  "EnvBoolDefault getenv env_name fallback = BoolOpt (EnvBoolOrDefault getenv env_name fallback)"

definition EnvIntDefault :: "(string \<Rightarrow> string option) \<Rightarrow> string \<Rightarrow> int \<Rightarrow> OptionValue" where
  "EnvIntDefault getenv env_name fallback = IntOpt (EnvIntOrDefault getenv env_name fallback)"

text \<open>The body of \<open>std::call_once\<close>, run by the first registration of the process.\<close>

definition startup_floor_once :: "(string \<Rightarrow> string option) \<Rightarrow> Startup \<Rightarrow> 'v Server \<Rightarrow> Startup \<times> 'v Server" where
  "startup_floor_once getenv g s =
     (if su_floor_once g then (g, s)
      else
        let startup_raw = EnvIntOrDefault getenv ''QUACK_OAUTH_JWKS_MIN_REFRESH_S'' 30;
            clamped_floor = clamp startup_raw 1 3600
        in (\<lparr>su_min_refresh_s = clamped_floor, su_floor_once = True\<rparr>,
            s\<lparr>sv_jwks_cache := SetMinRefreshSeconds (sv_jwks_cache s) clamped_floor\<rparr>))"

definition extension_options :: "(string \<Rightarrow> string option) \<Rightarrow> int \<Rightarrow> ExtensionOption list" where
  "extension_options getenv startup_floor =
     (let opt = (\<lambda>name val callback. \<lparr>eo_name = name, eo_default = val, eo_callback = callback\<rparr>)
      in [opt ''quack_oauth_enabled'' (EnvBoolDefault getenv ''QUACK_OAUTH_ENABLED'' False) NoCallback,
          opt ''quack_oauth_validation_mode'' (EnvStringDefault getenv ''QUACK_OAUTH_VALIDATION_MODE'' ''jwks'') NoCallback,
          opt ''quack_oauth_provider'' (EnvStringDefault getenv ''QUACK_OAUTH_PROVIDER'' ''generic'') NoCallback,
          opt ''quack_oauth_clock_skew_s'' (IntOpt (clamp (EnvIntOrDefault getenv ''QUACK_OAUTH_CLOCK_SKEW_S'' 60) 0 3600)) ClockSkewCallback,
          opt ''quack_oauth_jwks_min_refresh_s'' (IntOpt startup_floor) MinRefreshCallback,
          opt ''quack_oauth_introspect_cache_s'' (EnvIntDefault getenv ''QUACK_OAUTH_INTROSPECT_CACHE_S'' 30) NoCallback,
          opt ''quack_oauth_renew_skew_s'' (EnvIntDefault getenv ''QUACK_OAUTH_RENEW_SKEW_S'' 60) NoCallback,
          opt ''quack_oauth_policy_default'' (EnvStringDefault getenv ''QUACK_OAUTH_POLICY_DEFAULT'' ''deny'') NoCallback,
          opt ''quack_oauth_trust_plaintext'' (EnvBoolDefault getenv ''QUACK_OAUTH_TRUST_PLAINTEXT'' False) NoCallback,
          opt ''quack_oauth_server_secret_name'' (EnvStringDefault getenv ''QUACK_OAUTH_SERVER_SECRET_NAME'' []) NoCallback,
          opt ''quack_oauth_telemetry_enabled'' (EnvBoolDefault getenv ''QUACK_OAUTH_TELEMETRY_ENABLED'' True) TelemetryEnabledCallback,
          opt ''quack_oauth_telemetry_key''
            (EnvStringDefault getenv ''QUACK_OAUTH_TELEMETRY_KEY'' ''phc_t3wwRLtpyEmLHYaZCSszG0MqVr74J6wnCrj9D41zk2t'') TelemetryKeyCallback])"

definition RegisterQuackOauthSettings ::
    "(string \<Rightarrow> string option) \<Rightarrow> Startup \<Rightarrow> 'v Server \<Rightarrow> ExtensionOption list \<times> Startup \<times> 'v Server" where
  "RegisterQuackOauthSettings getenv g s =
     (case startup_floor_once getenv g s of
        (g', s') \<Rightarrow> (extension_options getenv (su_min_refresh_s g'), g', s'))"

section \<open>The settings of a process\<close>

text \<open>
  A process registers the options, once for every database it opens, and sets them. The host stores the
  value of a SET when the callback returns; \<open>pr_options\<close> has the values of the databases of the process.
  The environment of the first registration is \<open>getenv\<close>, and each later one may find another environment.
  Whatever else the server does, in between, does not touch the refresh interval.
\<close>

record 'v Process =
  pr_startup :: Startup
  pr_server :: "'v Server"
  pr_options :: "(string \<times> OptionValue) list"

inductive process_run :: "(string \<Rightarrow> string option) \<Rightarrow> 'v Process \<Rightarrow> bool" for getenv :: "string \<Rightarrow> string option" where
  run_load: "RegisterQuackOauthSettings getenv initial_Startup (new_QuackOauthState getenv) = (options, g, s) \<Longrightarrow>
     process_run getenv \<lparr>pr_startup = g, pr_server = s, pr_options = map (\<lambda>opt. (eo_name opt, eo_default opt)) options\<rparr>"
| run_register: "process_run getenv p \<Longrightarrow> RegisterQuackOauthSettings getenv' (pr_startup p) (pr_server p) = (options, g, s) \<Longrightarrow>
     process_run getenv \<lparr>pr_startup = g, pr_server = s, pr_options = map (\<lambda>opt. (eo_name opt, eo_default opt)) options @ pr_options p\<rparr>"
| run_set_min_refresh: "process_run getenv p \<Longrightarrow> OnJwksMinRefreshSeconds H (pr_startup p) scope v (pr_server p) = Inr s \<Longrightarrow>
     process_run getenv (p\<lparr>pr_server := s, pr_options := (''quack_oauth_jwks_min_refresh_s'', IntOpt (h_Int32 H v)) # pr_options p\<rparr>)"
| run_set_clock_skew: "process_run getenv p \<Longrightarrow> OnClockSkewSeconds (H :: 'v Host) scope v = Inr () \<Longrightarrow>
     process_run getenv (p\<lparr>pr_options := (''quack_oauth_clock_skew_s'', IntOpt (h_Int32 H v)) # pr_options p\<rparr>)"
| run_set_other: "process_run getenv p \<Longrightarrow> name \<notin> {''quack_oauth_jwks_min_refresh_s'', ''quack_oauth_clock_skew_s''} \<Longrightarrow>
     process_run getenv (p\<lparr>pr_options := (name, v) # pr_options p\<rparr>)"
| run_server: "process_run getenv p \<Longrightarrow> jc_min_refresh_s (sv_jwks_cache s) = jc_min_refresh_s (sv_jwks_cache (pr_server p)) \<Longrightarrow>
     process_run getenv (p\<lparr>pr_server := s\<rparr>)"

inductive_cases process_runE: "process_run getenv p"

definition startup_floor :: "(string \<Rightarrow> string option) \<Rightarrow> int" where
  "startup_floor getenv = clamp (EnvIntOrDefault getenv ''QUACK_OAUTH_JWKS_MIN_REFRESH_S'' 30) 1 3600"

definition process_ok :: "(string \<Rightarrow> string option) \<Rightarrow> 'v Process \<Rightarrow> bool" where
  "process_ok getenv p \<longleftrightarrow>
     pr_startup p = \<lparr>su_min_refresh_s = startup_floor getenv, su_floor_once = True\<rparr> \<and>
     startup_floor getenv \<le> jc_min_refresh_s (sv_jwks_cache (pr_server p)) \<and> jc_min_refresh_s (sv_jwks_cache (pr_server p)) \<le> 3600 \<and>
     (\<forall>v. (''quack_oauth_jwks_min_refresh_s'', v) \<in> set (pr_options p) \<longrightarrow> (\<exists>n. v = IntOpt n \<and> startup_floor getenv \<le> n \<and> n \<le> 3600)) \<and>
     (\<forall>v. (''quack_oauth_clock_skew_s'', v) \<in> set (pr_options p) \<longrightarrow> (\<exists>n. v = IntOpt n \<and> 0 \<le> n \<and> n \<le> 3600))"

lemma clamp_id: "lo \<le> v \<Longrightarrow> v \<le> hi \<Longrightarrow> clamp v lo hi = v"
  by (simp add: clamp_def)

lemma startup_floor_bounds: "1 \<le> startup_floor getenv" "startup_floor getenv \<le> 3600"
  by (simp_all add: startup_floor_def clamp_bounds)

lemma option_defaults:
  assumes "opt \<in> set (extension_options getenv floor)"
  shows "eo_name opt = ''quack_oauth_jwks_min_refresh_s'' \<Longrightarrow> eo_default opt = IntOpt floor"
    and "eo_name opt = ''quack_oauth_clock_skew_s'' \<Longrightarrow>
      eo_default opt = IntOpt (clamp (EnvIntOrDefault getenv ''QUACK_OAUTH_CLOCK_SKEW_S'' 60) 0 3600)"
  using assms by (auto simp: extension_options_def Let_def)

lemma set_min_refresh_iff:
  "OnJwksMinRefreshSeconds H g scope v s = Inr s' \<longleftrightarrow>
     scope \<noteq> SESSION \<and> \<not> h_IsNull H v \<and> 1 \<le> h_Int32 H v \<and> su_min_refresh_s g \<le> h_Int32 H v \<and> h_Int32 H v \<le> 3600 \<and>
     s' = s\<lparr>sv_jwks_cache := (sv_jwks_cache s)\<lparr>jc_min_refresh_s := h_Int32 H v\<rparr>\<rparr>"
  by (auto simp: OnJwksMinRefreshSeconds_def GetJwksMinRefreshFloor_def SetMinRefreshSeconds_def Let_def clamp_id)

lemma set_clock_skew_iff:
  "OnClockSkewSeconds H scope v = Inr () \<longleftrightarrow> scope \<noteq> SESSION \<and> \<not> h_IsNull H v \<and> 0 \<le> h_Int32 H v \<and> h_Int32 H v \<le> 3600"
  by (auto simp: OnClockSkewSeconds_def Let_def)

lemma options_ok:
  assumes "(name, v) \<in> set (map (\<lambda>opt. (eo_name opt, eo_default opt)) (extension_options getenv' (startup_floor getenv)))"
  shows "name = ''quack_oauth_jwks_min_refresh_s'' \<Longrightarrow> \<exists>n. v = IntOpt n \<and> startup_floor getenv \<le> n \<and> n \<le> 3600"
    and "name = ''quack_oauth_clock_skew_s'' \<Longrightarrow> \<exists>n. v = IntOpt n \<and> 0 \<le> n \<and> n \<le> 3600"
  using assms option_defaults startup_floor_bounds clamp_bounds [of 0 3600] by fastforce+

lemma process_run_ok: "process_run getenv p \<Longrightarrow> process_ok getenv p"
proof (induction rule: process_run.induct)
  case (run_load options g s)
  then have r: "g = \<lparr>su_min_refresh_s = startup_floor getenv, su_floor_once = True\<rparr>" "options = extension_options getenv (startup_floor getenv)"
      "jc_min_refresh_s (sv_jwks_cache s) = startup_floor getenv"
    by (auto simp: RegisterQuackOauthSettings_def startup_floor_once_def initial_Startup_def Let_def startup_floor_def SetMinRefreshSeconds_def clamp_def)
  show ?case using options_ok [of _ _ getenv getenv] startup_floor_bounds [of getenv] by (simp add: process_ok_def r del: set_map)
next
  case (run_register p getenv' options g s)
  then have r: "g = pr_startup p" "s = pr_server p" "options = extension_options getenv' (startup_floor getenv)"
    by (auto simp: RegisterQuackOauthSettings_def startup_floor_once_def process_ok_def)
  show ?case using run_register.IH options_ok [of _ _ getenv' getenv] by (auto simp: process_ok_def r simp del: set_map)
next
  case (run_set_min_refresh p H scope v s)
  then show ?case by (auto simp: process_ok_def set_min_refresh_iff)
next
  case (run_set_clock_skew p H scope v)
  then show ?case by (auto simp: process_ok_def set_clock_skew_iff)
qed (auto simp: process_ok_def)

text \<open>
  C18: the interval between refreshes of a signing key cannot be lowered below the limit that the environment
  fixed at startup. In every state of a process, however often the options were registered and set, the
  limit is the clamped value of \<open>QUACK_OAUTH_JWKS_MIN_REFRESH_S\<close>, the cache uses an interval between it
  and an hour, every stored clock skew is between zero and an hour, and a SET of the interval succeeds
  exactly with a non-null value in these bounds outside session scope, which the cache then uses.
\<close>

theorem refresh_interval_keeps_floor:
  assumes "process_run getenv p"
  shows "GetJwksMinRefreshFloor (pr_startup p) = startup_floor getenv \<and> 1 \<le> startup_floor getenv \<and>
    startup_floor getenv \<le> jc_min_refresh_s (sv_jwks_cache (pr_server p)) \<and> jc_min_refresh_s (sv_jwks_cache (pr_server p)) \<le> 3600 \<and>
    (\<forall>v. (''quack_oauth_clock_skew_s'', v) \<in> set (pr_options p) \<longrightarrow> (\<exists>n. v = IntOpt n \<and> 0 \<le> n \<and> n \<le> 3600)) \<and>
    (\<forall>H scope v s'. OnJwksMinRefreshSeconds H (pr_startup p) scope v (pr_server p) = Inr s' \<longleftrightarrow>
       scope \<noteq> SESSION \<and> \<not> h_IsNull H v \<and> startup_floor getenv \<le> h_Int32 H v \<and> h_Int32 H v \<le> 3600 \<and>
       s' = (pr_server p)\<lparr>sv_jwks_cache := (sv_jwks_cache (pr_server p))\<lparr>jc_min_refresh_s := h_Int32 H v\<rparr>\<rparr>)"
  using process_run_ok [OF assms] startup_floor_bounds(1) [of getenv]
  unfolding process_ok_def set_min_refresh_iff GetJwksMinRefreshFloor_def by fastforce

text \<open>
  A process started with a limit of 45 seconds, which registers its options once more when the variable is
  gone, and whose interval is then set to two minutes.
\<close>

definition floor_env :: "string \<Rightarrow> string option" where
  "floor_env name = (if name = ''QUACK_OAUTH_JWKS_MIN_REFRESH_S'' then Some ''45'' else None)"

definition registered ::
    "(string \<times> OptionValue) list \<Rightarrow> ExtensionOption list \<times> Startup \<times> dbval Server \<Rightarrow> dbval Process" where
  "registered before r =
     (case r of (options, g, s) \<Rightarrow>
        \<lparr>pr_startup = g, pr_server = s, pr_options = map (\<lambda>opt. (eo_name opt, eo_default opt)) options @ before\<rparr>)"

definition first_process :: "dbval Process" where
  "first_process = registered [] (RegisterQuackOauthSettings floor_env initial_Startup (new_QuackOauthState floor_env))"

definition loaded_process :: "dbval Process" where
  "loaded_process =
     registered (pr_options first_process)
       (RegisterQuackOauthSettings (\<lambda>_. None) (pr_startup first_process) (pr_server first_process))"

lemma floor_env_floor: "startup_floor floor_env = 45"
  by code_simp

lemma loaded_process_run: "process_run floor_env loaded_process"
proof -
  have "process_run floor_env first_process"
    unfolding first_process_def
    by (cases "RegisterQuackOauthSettings floor_env initial_Startup (new_QuackOauthState floor_env :: dbval Server)")
      (simp add: registered_def run_load)
  then show ?thesis
    unfolding loaded_process_def
    by (cases "RegisterQuackOauthSettings (\<lambda>_. None) (pr_startup first_process) (pr_server first_process)")
      (simp add: registered_def run_register)
qed

theorem refresh_interval_keeps_floor_witness:
  "OnJwksMinRefreshSeconds (plain_host [] [] []) (pr_startup loaded_process) GLOBAL (IntV 120) (pr_server loaded_process) =
     Inr ((pr_server loaded_process)\<lparr>sv_jwks_cache := (sv_jwks_cache (pr_server loaded_process))\<lparr>jc_min_refresh_s := 120\<rparr>\<rparr>) \<and>
   (\<forall>s'. OnJwksMinRefreshSeconds (plain_host [] [] []) (pr_startup loaded_process) GLOBAL (IntV 30) (pr_server loaded_process) \<noteq> Inr s')"
  using refresh_interval_keeps_floor [OF loaded_process_run]
  by (simp add: floor_env_floor plain_host_def)

end
