(* ===== verification/Diagnostics.thy ===== *)
theory Diagnostics
  imports Check_Token Settings Sql_Statements
begin

text \<open>
  The table functions that report on the server (diagnose.cpp, idp_probe.cpp, inspect_sql_function.cpp). A bind
  collects the rows of a table once, under the mutex; the host then calls a scan until it returns no
  row, each call going on at a cursor with at most \<open>STANDARD_VECTOR_SIZE\<close> rows (the parameter \<open>vec\<close>).
  Values are cells; \<open>Value(LogicalType::VARCHAR)\<close> is null.
\<close>

datatype cell = NullCell | TextCell string | IntCell int | BoolCell bool | ListCell "string list"

definition text_or_null :: "string \<Rightarrow> cell" where
  "text_or_null v = (if v = [] then NullCell else TextCell v)"

section \<open>Probing the identity provider (idp_probe.cpp)\<close>

datatype ProbeStatus = ProbeUnconfigured | Reachable | Unreachable

record IdpProbeResult =
  ip_status :: ProbeStatus
  ip_http_status :: int
  ip_probed_uri :: string

definition new_IdpProbeResult :: IdpProbeResult where
  "new_IdpProbeResult = \<lparr>ip_status = ProbeUnconfigured, ip_http_status = 0, ip_probed_uri = []\<rparr>"

definition StatusName :: "ProbeStatus \<Rightarrow> string" where
  "StatusName s = (case s of ProbeUnconfigured \<Rightarrow> ''unconfigured'' | Reachable \<Rightarrow> ''reachable'' | Unreachable \<Rightarrow> ''unreachable'')"

definition ProbeIdpReachability :: "(string \<Rightarrow> 'w \<Rightarrow> HttpResponse option \<times> 'w) \<Rightarrow> string \<Rightarrow> 'w \<Rightarrow> IdpProbeResult \<times> 'w" where
  "ProbeIdpReachability get jwks_uri w =
     (let out = new_IdpProbeResult\<lparr>ip_probed_uri := jwks_uri\<rparr>
      in if jwks_uri = [] then (out\<lparr>ip_status := ProbeUnconfigured\<rparr>, w)
         else case get jwks_uri w of
           (None, w') \<Rightarrow> (out\<lparr>ip_status := Unreachable, ip_http_status := 0\<rparr>, w')
         | (Some resp, w') \<Rightarrow>
             (out\<lparr>ip_http_status := status_code resp,
                ip_status := if 200 \<le> status_code resp \<and> status_code resp < 300 then Reachable else Unreachable\<rparr>, w'))"

section \<open>Health report (diagnose.cpp)\<close>

record DiagnoseRow =
  dr_component :: string
  dr_status :: string
  dr_detail :: string

text \<open>\<open>Append\<close> and the detail text that a sequence of calls builds.\<close>

definition Append :: "string \<Rightarrow> string \<Rightarrow> string \<Rightarrow> string" where
  "Append os k v = (if os \<noteq> [] then os @ '' '' else os) @ k @ ''='' @ v"

definition detail_of :: "(string \<times> string) list \<Rightarrow> string" where
  "detail_of kvs = foldl (\<lambda>os (k, v). Append os k v) [] kvs"

definition ReadSetting :: "'v Host \<Rightarrow> string \<Rightarrow> string" where
  "ReadSetting H name =
     (case h_setting H name of None \<Rightarrow> [] | Some v \<Rightarrow> if h_IsNull H v then [] else h_ToString H v)"

record ProbeCache =
  pbc_uri :: string
  pbc_probed_at_s :: seconds
  pbc_result :: IdpProbeResult

definition new_ProbeCache :: ProbeCache where
  "new_ProbeCache = \<lparr>pbc_uri = [], pbc_probed_at_s = 0, pbc_result = new_IdpProbeResult\<rparr>"

definition extension_row :: "'v Host \<Rightarrow> DiagnoseRow" where
  "extension_row H =
     (let enabled = ReadSetting H ''quack_oauth_enabled''; secret_name = ReadSetting H ''quack_oauth_server_secret_name''
      in \<lparr>dr_component = ''extension'', dr_status = if secret_name = [] then ''unconfigured'' else ''configured'',
          dr_detail = detail_of
            [(''enabled'', if enabled = [] then ''false'' else enabled),
             (''secret_name'', if secret_name = [] then ''(unset)'' else secret_name),
             (''validation_mode'', ReadSetting H ''quack_oauth_validation_mode''),
             (''provider'', ReadSetting H ''quack_oauth_provider'')]\<rparr>)"

definition jwks_cache_row :: "Startup \<Rightarrow> JwksCache \<Rightarrow> DiagnoseRow" where
  "jwks_cache_row g c =
     (let entries = JwksCache_Size c; unknown_kids = MissSize c; last_reason = jc_last_refresh_reason c
      in \<lparr>dr_component = ''jwks_cache'',
          dr_status = if 0 < entries then ''warm'' else if 0 < unknown_kids then ''misses_only'' else ''empty'',
          dr_detail = detail_of
            [(''entries'', int_to_string (int entries)), (''unknown_kids'', int_to_string (int unknown_kids)),
             (''min_refresh_s'', int_to_string (jc_min_refresh_s c)),
             (''min_refresh_floor'', int_to_string (GetJwksMinRefreshFloor g)),
             (''throttled'', int_to_string (uint (jc_throttled_refreshes c))),
             (''budget_throttled'', int_to_string (uint (jc_throttled_budget_refreshes c))),
             (''kid_throttled'', int_to_string (uint (jc_throttled_per_kid_refreshes c))),
             (''last_refresh_reason'', if last_reason = [] then ''(none)'' else last_reason),
             (''last_throttled_at'', int_to_string (jc_last_throttled_at_s c))]\<rparr>)"

definition decision_cache_row :: "DecisionCache \<Rightarrow> DiagnoseRow" where
  "decision_cache_row c =
     \<lparr>dr_component = ''decision_cache'', dr_status = if Size c = 0 then ''empty'' else ''warm'',
      dr_detail = detail_of [(''entries'', int_to_string (int (Size c)))]\<rparr>"

definition sessions_row :: "sessions \<Rightarrow> DiagnoseRow" where
  "sessions_row m =
     \<lparr>dr_component = ''session_principals'', dr_status = if m = [] then ''empty'' else ''active'',
      dr_detail = detail_of [(''sessions'', int_to_string (int (length m)))]\<rparr>"

definition probe_uri :: "'v Host \<Rightarrow> string" where
  "probe_uri H =
     (let accessor = TryOpenSecret H (ReadSetting H ''quack_oauth_server_secret_name'') (Some ''quack_oauth_server'');
          jwks_uri = secret_get H accessor ''jwks_uri''
      in if jwks_uri = [] then secret_get H accessor ''introspection_endpoint'' else jwks_uri)"

text \<open>The probe is a request without retries, and answered from the last one for two seconds.\<close>

definition cached_probe ::
    "(string \<Rightarrow> 'w \<Rightarrow> HttpResponse option \<times> 'w) \<Rightarrow> seconds \<Rightarrow> string \<Rightarrow> ProbeCache \<Rightarrow> 'w \<Rightarrow> IdpProbeResult \<times> ProbeCache \<times> 'w" where
  "cached_probe get now_s uri cache w =
     (if uri = [] then (new_IdpProbeResult, cache, w)
      else if pbc_uri cache = uri \<and> pbc_probed_at_s cache > 0 \<and> now_s \<ge> pbc_probed_at_s cache \<and> now_s - pbc_probed_at_s cache < 2
      then (pbc_result cache, cache, w)
      else case ProbeIdpReachability (\<lambda>url. RunWithRetries 0 1000 (\<lambda>_ w. w) (get url)) uri w of
        (probe, w') \<Rightarrow> (probe, \<lparr>pbc_uri = uri, pbc_probed_at_s = now_s, pbc_result = probe\<rparr>, w'))"

definition reachability_row :: "IdpProbeResult \<Rightarrow> DiagnoseRow" where
  "reachability_row probe =
     \<lparr>dr_component = ''idp_reachability'', dr_status = StatusName (ip_status probe),
      dr_detail = detail_of
        ((''uri'', if ip_probed_uri probe = [] then ''(none)'' else ip_probed_uri probe) #
         (if ip_status probe \<noteq> ProbeUnconfigured then [(''http_status'', int_to_string (ip_http_status probe))] else []))\<rparr>"

record Counters =
  ct_accepts :: nat
  ct_rejects :: nat
  ct_allows :: nat
  ct_denies :: nat
  ct_refreshes :: nat
  ct_refresh_noops :: nat
  ct_refresh_failures :: nat

definition no_events :: Counters where
  "no_events = \<lparr>ct_accepts = 0, ct_rejects = 0, ct_allows = 0, ct_denies = 0, ct_refreshes = 0, ct_refresh_noops = 0, ct_refresh_failures = 0\<rparr>"

definition count_event :: "Counters \<Rightarrow> AuditEvent \<Rightarrow> Counters" where
  "count_event c e =
     (case ae_event_type e of
        TokenAccepted \<Rightarrow> c\<lparr>ct_accepts := ct_accepts c + 1\<rparr>
      | TokenRejected \<Rightarrow> c\<lparr>ct_rejects := ct_rejects c + 1\<rparr>
      | AuthzAllow \<Rightarrow> c\<lparr>ct_allows := ct_allows c + 1\<rparr>
      | AuthzDeny \<Rightarrow> c\<lparr>ct_denies := ct_denies c + 1\<rparr>
      | JwksRefresh \<Rightarrow>
          if ae_reason e \<in> set (map RefreshReason_ToString [Rotated, Revoked, KidAbsent, KidEvicted])
          then c\<lparr>ct_refreshes := ct_refreshes c + 1\<rparr>
          else if ae_reason e \<in> set (map RefreshReason_ToString [NoRotation, Superseded])
          then c\<lparr>ct_refresh_noops := ct_refresh_noops c + 1\<rparr>
          else if ae_reason e \<noteq> RefreshReason_ToString Throttled \<and> ae_reason e \<noteq> RefreshReason_ToString BudgetThrottled
          then c\<lparr>ct_refresh_failures := ct_refresh_failures c + 1\<rparr>
          else c)"

definition recent_decisions_row :: "AuditEvent list \<Rightarrow> nat \<Rightarrow> DiagnoseRow" where
  "recent_decisions_row snap ring_cap =
     (let c = foldl count_event no_events snap; n = (\<lambda>k. int_to_string (int k))
      in \<lparr>dr_component = ''recent_decisions'', dr_status = if snap = [] then ''empty'' else ''active'',
          dr_detail = detail_of
            [(''count'', n (length snap) @ ''/'' @ n ring_cap), (''accepted'', n (ct_accepts c)), (''rejected'', n (ct_rejects c)),
             (''allowed'', n (ct_allows c)), (''denied'', n (ct_denies c)), (''refreshed'', n (ct_refreshes c)),
             (''refresh_noop'', n (ct_refresh_noops c)), (''refresh_failed'', n (ct_refresh_failures c))]\<rparr>)"

definition DiagnoseBind ::
    "'v Host \<Rightarrow> (string \<Rightarrow> 'w \<Rightarrow> HttpResponse option \<times> 'w) \<Rightarrow> seconds \<Rightarrow> Startup \<Rightarrow> 'v Server \<Rightarrow> ProbeCache \<Rightarrow> 'w \<Rightarrow>
     DiagnoseRow list \<times> ProbeCache \<times> 'w" where
  "DiagnoseBind H get now_s g s cache w =
     (let snap = Snapshot (as_ring s); ring_cap = length (ar_ring (as_ring s))
      in case cached_probe get now_s (probe_uri H) cache w of
           (probe, cache', w') \<Rightarrow>
             (sort_key dr_component
                [extension_row H, jwks_cache_row g (sv_jwks_cache s), decision_cache_row (sv_decision_cache s), sessions_row (sv_sessions s),
                 reachability_row probe, recent_decisions_row snap ring_cap],
              cache', w'))"

section \<open>Scans\<close>

text \<open>The loop that all scans share: rows from the cursor on, while the chunk has room.\<close>

function scan_loop :: "nat \<Rightarrow> ('r \<Rightarrow> cell list) \<Rightarrow> 'r list \<Rightarrow> nat \<Rightarrow> nat \<Rightarrow> cell list list \<times> nat" where
  "scan_loop vec cells rows cursor out_row =
     (if cursor < length rows \<and> out_row < vec
      then case scan_loop vec cells rows (Suc cursor) (Suc out_row) of
             (chunk, cursor') \<Rightarrow> (cells (rows ! cursor) # chunk, cursor')
      else ([], cursor))"
  by pat_completeness auto
termination by (relation "measure (\<lambda>(vec, cells, rows, cursor, out_row). length rows - cursor)") auto

declare scan_loop.simps [simp del]

definition diagnose_cells :: "DiagnoseRow \<Rightarrow> cell list" where
  "diagnose_cells row = [TextCell (dr_component row), TextCell (dr_status row), TextCell (dr_detail row)]"

definition DiagnoseScan :: "nat \<Rightarrow> DiagnoseRow list \<Rightarrow> nat \<Rightarrow> cell list list \<times> nat" where
  "DiagnoseScan vec rows cursor = scan_loop vec diagnose_cells rows cursor 0"

definition AuditLogBind :: "'v Server \<Rightarrow> AuditEvent list" where
  "AuditLogBind s = Snapshot (as_ring s)"

definition audit_cells :: "AuditEvent \<Rightarrow> cell list" where
  "audit_cells e =
     [IntCell (ae_timestamp_unix_s e), TextCell (AuditEventTypeName (ae_event_type e)), text_or_null (ae_subject e),
      text_or_null (ae_issuer e), text_or_null (ae_kid e), text_or_null (ae_token_hash e), text_or_null (ae_action e),
      text_or_null (ae_reason e)]"

definition AuditLogScan :: "nat \<Rightarrow> AuditEvent list \<Rightarrow> nat \<Rightarrow> cell list list \<times> nat" where
  "AuditLogScan vec events cursor = scan_loop vec audit_cells events cursor 0"

record PrincipalRow =
  prow_session_id :: string
  prow_subject :: string
  prow_issuer :: string
  prow_scopes :: "string list"
  prow_exp :: seconds

definition CurrentPrincipalBind :: "(sessions \<Rightarrow> sessions) \<Rightarrow> 'v Server \<Rightarrow> PrincipalRow list" where
  "CurrentPrincipalBind iter s =
     map (\<lambda>(sid, sp). \<lparr>prow_session_id = sid, prow_subject = subject (sp_principal sp), prow_issuer = issuer (sp_principal sp),
            prow_scopes = scopes (sp_principal sp), prow_exp = exp (sp_principal sp)\<rparr>) (iter (sv_sessions s))"

definition principal_cells :: "PrincipalRow \<Rightarrow> cell list" where
  "principal_cells row =
     [TextCell (prow_session_id row), text_or_null (prow_subject row), text_or_null (prow_issuer row),
      ListCell (prow_scopes row), IntCell (prow_exp row)]"

definition CurrentPrincipalScan :: "nat \<Rightarrow> PrincipalRow list \<Rightarrow> nat \<Rightarrow> cell list list \<times> nat" where
  "CurrentPrincipalScan vec rows cursor = scan_loop vec principal_cells rows cursor 0"

section \<open>The inspection as a table (inspect_sql_function.cpp)\<close>

definition InspectSqlBind :: "(string \<Rightarrow> string option + SQLStatement option list) \<Rightarrow> string option list \<Rightarrow> string + AuthzRequest" where
  "InspectSqlBind parse inputs =
     (case inputs of
        [] \<Rightarrow> Inl ''quack_oauth_inspect_sql: SQL argument must not be NULL''
      | None # _ \<Rightarrow> Inl ''quack_oauth_inspect_sql: SQL argument must not be NULL''
      | Some sql # _ \<Rightarrow> Inr (InspectSql parse sql))"

definition InspectSqlScan :: "AuthzRequest \<Rightarrow> bool \<Rightarrow> cell list list \<times> bool" where
  "InspectSqlScan req done_flag =
     (if done_flag then ([], True)
      else ([[TextCell (ActionName (ar_action req)), ListCell (ar_objects req), ListCell (ar_columns req), BoolCell (ar_unsafe req),
              text_or_null (ar_error req)]], True))"

section \<open>Draining a table function\<close>

text \<open>The host calls a scan until it returns an empty chunk.\<close>

lemma scan_loop_result:
  "scan_loop vec cells rows cursor out_row =
     (map cells (take (vec - out_row) (drop cursor rows)), cursor + length (take (vec - out_row) (drop cursor rows)))"
proof (induction vec cells rows cursor out_row rule: scan_loop.induct)
  case (1 vec cells rows cursor out_row)
  show ?case
  proof (cases "cursor < length rows \<and> out_row < vec")
    case True
    then have "take (vec - out_row) (drop cursor rows) = rows ! cursor # take (vec - Suc out_row) (drop (Suc cursor) rows)"
      by (simp add: Cons_nth_drop_Suc [symmetric] Suc_diff_Suc [symmetric])
    with 1 True show ?thesis by (subst scan_loop.simps) simp
  next
    case False
    then show ?thesis by (subst scan_loop.simps) auto
  qed
qed

text \<open>\<open>drain vec cells rows\<close> is what the host has after its last call.\<close>

function drain :: "nat \<Rightarrow> ('r \<Rightarrow> cell list) \<Rightarrow> 'r list \<Rightarrow> nat \<Rightarrow> cell list list" where
  "drain vec cells rows cursor =
     (case scan_loop vec cells rows cursor 0 of
        (chunk, cursor') \<Rightarrow> if chunk = [] then [] else chunk @ drain vec cells rows cursor')"
  by pat_completeness auto
termination
  by (relation "measure (\<lambda>(vec, cells, rows, cursor). length rows - cursor)") (auto simp: scan_loop_result)

declare drain.simps [simp del]

lemma drain_rows: "0 < vec \<Longrightarrow> drain vec cells rows cursor = map cells (drop cursor rows)"
proof (induction vec cells rows cursor rule: drain.induct)
  case (1 vec cells rows cursor)
  let ?chunk = "take vec (drop cursor rows)"
  have r: "scan_loop vec cells rows cursor 0 = (map cells ?chunk, cursor + length ?chunk)" by (simp add: scan_loop_result)
  show ?case
  proof (cases "drop cursor rows = []")
    case True
    then show ?thesis by (subst drain.simps) (simp add: r)
  next
    case False
    then have nonempty: "map cells ?chunk \<noteq> []" using "1.prems" by simp
    have rest: "drain vec cells rows (cursor + length ?chunk) = map cells (drop (cursor + length ?chunk) rows)"
      by (rule "1.IH" [OF r [symmetric] nonempty "1.prems"])
    have "drop vec (drop cursor rows) = drop (length ?chunk) (drop cursor rows)"
      using append_eq_conv_conj [THEN iffD1, OF append_take_drop_id] by blast
    then have "drop cursor rows = ?chunk @ drop (length ?chunk) (drop cursor rows)" by (metis append_take_drop_id)
    then have "map cells (drop cursor rows) = map cells ?chunk @ map cells (drop (cursor + length ?chunk) rows)"
      by (metis add.commute drop_drop map_append)
    then show ?thesis using nonempty rest by (subst drain.simps) (simp add: r del: map_is_Nil_conv)
  qed
qed

lemma cached_probe_again:
  assumes "cached_probe get t1 uri cache w = (probe, cache', w')" "0 < t1" "t1 \<le> t2" "t2 < t1 + 2"
    and "pbc_probed_at_s cache \<noteq> t1 \<longrightarrow> \<not> (pbc_uri cache = uri \<and> 0 < pbc_probed_at_s cache \<and> pbc_probed_at_s cache \<le> t1 \<and> t1 < pbc_probed_at_s cache + 2)"
  shows "cached_probe get' t2 uri cache' v = (probe, cache', v)"
  using assms by (auto simp: cached_probe_def split: if_splits prod.splits)

lemma cached_probe_quiet:
  "cached_probe get now_s uri cache w = (probe, cache', w') \<Longrightarrow>
   w' = w \<and> cache' = cache \<or> cache' = \<lparr>pbc_uri = uri, pbc_probed_at_s = now_s, pbc_result = probe\<rparr> \<and> w' = snd (get uri w) \<and>
     (pbc_uri cache = uri \<longrightarrow> 0 < pbc_probed_at_s cache \<longrightarrow> now_s < pbc_probed_at_s cache \<or> pbc_probed_at_s cache + 2 \<le> now_s)"
  by (auto simp: cached_probe_def ProbeIdpReachability_def RunWithRetries_def Let_def split: if_splits prod.splits option.splits)

lemma InspectSqlScan_error:
  assumes "parse sql \<noteq> Inl (Some [])" "InspectSqlBind parse [Some sql] = Inr req" "InspectSqlScan req False = ([[a, objs, cols, BoolCell unsafe, err]], d)"
  shows "err = NullCell \<longleftrightarrow> \<not> unsafe"
proof -
  have "wf_request (InspectSql parse sql)"
    using assms(1) by (rule InspectSql_wf)
  then show ?thesis using assms(2,3) by (auto simp: InspectSqlBind_def InspectSqlScan_def wf_request_def text_or_null_def split: if_splits)
qed

lemma sort_six:
  fixes f :: "'a \<Rightarrow> 'k :: linorder"
  assumes "f e \<le> f g" "\<not> f d \<le> f e" "\<not> f d \<le> f g" "f c \<le> f e" "\<not> f b \<le> f c" "\<not> f b \<le> f e" "f b \<le> f g" "\<not> f a \<le> f c" "f a \<le> f e"
  shows "sort_key f [a, b, c, d, e, g] = [c, a, e, b, g, d]"
  by (simp add: assms)

lemma component_order:
  "''idp_reachability'' \<le> ''recent_decisions''" "\<not> ''session_principals'' \<le> ''idp_reachability''" "\<not> ''session_principals'' \<le> ''recent_decisions''"
  "''decision_cache'' \<le> ''idp_reachability''" "\<not> ''jwks_cache'' \<le> ''decision_cache''" "\<not> ''jwks_cache'' \<le> ''idp_reachability''"
  "''jwks_cache'' \<le> ''recent_decisions''" "\<not> ''extension'' \<le> ''decision_cache''" "''extension'' \<le> ''idp_reachability''"
  by code_simp+

lemma row_components:
  "dr_component (extension_row H) = ''extension''"
  "dr_component (jwks_cache_row g c) = ''jwks_cache''"
  "dr_component (decision_cache_row dc) = ''decision_cache''"
  "dr_component (sessions_row m) = ''session_principals''"
  "dr_component (reachability_row probe) = ''idp_reachability''"
  "dr_component (recent_decisions_row snap ring_cap) = ''recent_decisions''"
  by (simp_all only: extension_row_def jwks_cache_row_def decision_cache_row_def sessions_row_def reachability_row_def
    recent_decisions_row_def Let_def DiagnoseRow.select_convs split: prod.split)

lemma diagnose_components:
  "map dr_component (fst (DiagnoseBind H get now_s g s cache w)) =
     [''decision_cache'', ''extension'', ''idp_reachability'', ''jwks_cache'', ''recent_decisions'', ''session_principals'']"
proof -
  have sorted: "sort_key dr_component [a, b, c, d, e, f] = [c, a, e, b, f, d]"
    if "dr_component a = ''extension''" "dr_component b = ''jwks_cache''" "dr_component c = ''decision_cache''" "dr_component d = ''session_principals''"
      "dr_component e = ''idp_reachability''" "dr_component f = ''recent_decisions''" for a b c d e f
    by (rule sort_six; unfold that; rule component_order)
  obtain probe cache' w' where "cached_probe get now_s (probe_uri H) cache w = (probe, cache', w')" by (metis prod_cases3)
  then have "fst (DiagnoseBind H get now_s g s cache w) =
      sort_key dr_component
        [extension_row H, jwks_cache_row g (sv_jwks_cache s), decision_cache_row (sv_decision_cache s), sessions_row (sv_sessions s),
         reachability_row probe, recent_decisions_row (Snapshot (as_ring s)) (length (ar_ring (as_ring s)))]"
    by (simp only: DiagnoseBind_def Let_def prod.case fst_conv)
  then show ?thesis unfolding sorted [OF row_components] by (simp only: list.map row_components)
qed

text \<open>
  C38: the reports show the state of the server completely. Read to its end, in chunks of any size, the audit
  log table has one row for each of the newest events of the history that fit the ring, oldest first, the
  table of principals has exactly the sessions with their principals, and the health table has its six
  components in alphabetical order.
\<close>

theorem reports_are_complete:
  assumes "0 < vec" "as_ring s = foldl Push (new_AuditRing n) es" "enumerates iter"
  shows "drain vec audit_cells (AuditLogBind s) 0 = map audit_cells (drop (length es - max n 1) es) \<and>
    set (drain vec principal_cells (CurrentPrincipalBind iter s) 0) =
      (\<lambda>(sid, sp). [TextCell sid, text_or_null (subject (sp_principal sp)), text_or_null (issuer (sp_principal sp)),
         ListCell (scopes (sp_principal sp)), IntCell (exp (sp_principal sp))]) ` set (sv_sessions s) \<and>
    map hd (drain vec diagnose_cells (fst (DiagnoseBind H get now_s g s cache w)) 0) =
      map TextCell [''decision_cache'', ''extension'', ''idp_reachability'', ''jwks_cache'', ''recent_decisions'', ''session_principals'']"
proof (intro conjI)
  have "Snapshot (new_AuditRing n) = []" "length (ar_ring (new_AuditRing n)) = max n 1"
    by (auto simp: Snapshot_def new_AuditRing_def Let_def)
  then have "Snapshot (as_ring s) = drop (length es - max n 1) es"
    using audit_ring.pushes_snap [OF new_AuditRing_inv, of n es] assms(2) by simp
  then show "drain vec audit_cells (AuditLogBind s) 0 = map audit_cells (drop (length es - max n 1) es)"
    by (simp add: drain_rows [OF assms(1)] AuditLogBind_def)
  have "set (iter (sv_sessions s)) = set (sv_sessions s)" by (rule enumerates_set [OF assms(3)])
  then show "set (drain vec principal_cells (CurrentPrincipalBind iter s) 0) =
      (\<lambda>(sid, sp). [TextCell sid, text_or_null (subject (sp_principal sp)), text_or_null (issuer (sp_principal sp)),
         ListCell (scopes (sp_principal sp)), IntCell (exp (sp_principal sp))]) ` set (sv_sessions s)"
    by (simp add: drain_rows [OF assms(1)] CurrentPrincipalBind_def image_comp comp_def case_prod_beta principal_cells_def)
  show "map hd (drain vec diagnose_cells (fst (DiagnoseBind H get now_s g s cache w)) 0) =
      map TextCell [''decision_cache'', ''extension'', ''idp_reachability'', ''jwks_cache'', ''recent_decisions'', ''session_principals'']"
    unfolding diagnose_components [of H get now_s g s cache w, symmetric]
    by (simp add: drain_rows [OF assms(1)] diagnose_cells_def comp_def)
qed

text \<open>A ring of two slots after three events, read one row at a time.\<close>

definition reported_server :: "dbval Server" where
  "reported_server = (new_QuackOauthState (\<lambda>_. None))\<lparr>as_ring := foldl Push (new_AuditRing 2)
     (map (\<lambda>r. new_AuditEvent\<lparr>ae_reason := r\<rparr>) [''a'', ''b'', ''c''])\<rparr>"

theorem reports_are_complete_witness:
  "map last (drain 1 audit_cells (AuditLogBind reported_server) 0) = [TextCell ''b'', TextCell ''c'']"
proof -
  have "drain 1 audit_cells (AuditLogBind reported_server) 0 =
      map audit_cells (drop 1 (map (\<lambda>r. new_AuditEvent\<lparr>ae_reason := r\<rparr>) [''a'', ''b'', ''c'']))"
    using conjunct1 [OF reports_are_complete [of 1 reported_server 2 "map (\<lambda>r. new_AuditEvent\<lparr>ae_reason := r\<rparr>) [''a'', ''b'', ''c'']" "\<lambda>m. m"]]
    by (simp add: reported_server_def enumerates_def)
  then show ?thesis by (simp add: audit_cells_def text_or_null_def)
qed

end
