(* ===== verification/Spec2Isabelle.thy ===== *)
theory Spec2Isabelle
  imports Check_Token Token_Flows Sql_Statements Transport Diagnostics
begin

text \<open>
  quack_oauth is a DuckDB extension that authenticates the clients of a quack server with OAuth bearer
  tokens and authorizes their queries. The development models its C++ sources (src/src, headers in
  src/src/include), one theory per component, and proves what makes each component and their
  composition correct.

  \<^bold>\<open>The program.\<close> A server calls \<open>quack_oauth_check_token\<close> with the session, the Authorization header
  and a pre-shared key. The function reads its configuration from a secret, the settings and a provider
  preset, validates the token in one of four modes and, on success, stores the principal under the
  session. Later it calls \<open>quack_oauth_check_authorization\<close> with the session and the SQL text: the
  SQL is inspected for what it touches, the session's principal is looked up, checked for expiry and put
  to a policy. All of it works on one
  process-wide state behind a mutex, which is released around every network request and every audit
  record. Client-side functions obtain, refresh and clear tokens on a client secret.

  \<^bold>\<open>The theories\<close>, in the order of their imports:

  \<^item> \<open>QO_Prelude\<close>: characters and bytes, searching in strings, association lists, clocks.
  \<^item> \<open>Text_Codec\<close>: hex, base64url, form encoding, JSON and SQL quoting, log quoting, scopes; each against a
    reader of the target format.
  \<^item> \<open>Decision_Cache\<close> (decision_cache.cpp): an LRU list with an index, refining a plain list.
  \<^item> \<open>Jwks_Cache\<close> (jwks_cache.cpp): signing keys, negative entries, reservations, the fetch budget.
  \<^item> \<open>Http_Json\<close> (http_client.hpp, picojson_helpers.cpp, jwks_parse.cpp, introspect.cpp, tokeninfo.cpp):
    requests, responses and their readers.
  \<^item> \<open>Jwt\<close> (jwt_parse.cpp, jwt_verify.cpp): parsing, key conversion, verification.
  \<^item> \<open>Validator\<close> and \<open>Opaque_Tokens\<close> (validator.cpp, github_check.cpp): the four validation modes.
  \<^item> \<open>Policy\<close> (authz.cpp, policy.cpp, principal_expiry.cpp): default scopes, rules, glob patterns.
  \<^item> \<open>Host\<close> (secret_accessor.cpp): the DuckDB host as a record of operations, secrets and settings, and the
    exceptions of the sources as the datatype \<open>Exn\<close>.
  \<^item> \<open>Audit_Trail\<close> (audit.cpp, audit_sink.cpp, tracing_redact.cpp): the ring, the log line, three sinks.
  \<^item> \<open>Policy_Table\<close> (policy_table.cpp): a policy document from a SQL table.
  \<^item> \<open>Authorization\<close> (check_authorization_function.cpp, quack_oauth_state.cpp, env_overrides.cpp and the
    session table of check_token_function.cpp): the server state as the record \<open>Server\<close>.
  \<^item> \<open>Endpoints\<close> (secrets.cpp, plaintext_guard.cpp, providers.cpp, the URL reader of
    http_client_duckdb.cpp): URL screens, creation of secrets, provider presets.
  \<^item> \<open>Check_Token\<close> (check_token_function.cpp, retry_http_client.cpp): the token check on a chunk of rows.
  \<^item> \<open>Iso_Time\<close> (platform_time.cpp, acquire_function.cpp): timestamps of expiry, with the calendar of \<open>gmtime_r\<close>.
  \<^item> \<open>Token_Flows\<close> (token_endpoint.cpp, device_code.cpp, acquire_flow.cpp and the functions login, refresh,
    device_login, logout, acquire): the client side, on the secrets of the host.
  \<^item> \<open>Sql_Ast\<close>: DuckDB's parse trees, as far as the inspection reads them.
  \<^item> \<open>Sql_Inspect\<close> (sql_inspect.cpp): the walk over a parsed query that collects a request.
  \<^item> \<open>Sql_Gating\<close>, \<open>Sql_Statements\<close>: what a query reaches, as a set-valued recursion without state, and that
    the walk accounts for it; first for queries, then for statements and whole inputs.
  \<^item> \<open>Settings\<close> (settings.cpp): the extension's options, their environment defaults and their callbacks.
  \<^item> \<open>Transport\<close> (http_client_duckdb.cpp): which connection a request opens.
  \<^item> \<open>Diagnostics\<close> (diagnose.cpp, idp_probe.cpp, inspect_sql_function.cpp): the table functions that report on
    the server, with the host's loop over their scans.
  \<^item> This theory: the server as a transition system, authorization resting on authentication, and
    authorized queries staying within the policy.

  \<^bold>\<open>Conventions.\<close> A class or struct is a record, an enum a datatype, with the names of the source; members
  carry a short prefix. A definition without a counterpart of that name models a loop body or a branch
  of the function named at it. Text is \<open>string\<close>, a list of bytes. Timestamps and counters that cannot
  reach the limits of 64 bits are \<open>int\<close>; reservation numbers are 64-bit words. An exception is the left
  value of a sum, \<open>std::optional\<close> is \<open>option\<close>. Hash maps are association lists; where the code iterates over
  one, the order is a parameter \<open>iter\<close> of which only \<open>enumerates\<close> is assumed. Third-party code is a
  parameter: jwt-cpp, OpenSSL and picojson are the record \<open>Externals\<close>, DuckDB is \<open>Host\<close>, httplib the
  functions that answer a request (for the client flows with a clock and a timer, the record
  \<open>ClientEnv\<close>), DuckDB's SQL parser the argument \<open>parse\<close> of \<open>InspectSql\<close>. Where the mutex is free the state passes through a parameter
  (\<open>others\<close>, or the cache that a request returns), which stands for any work of other threads.

  \<^bold>\<open>What is shown.\<close> End to end, in each of the four validation modes, an authorized query belongs to a
  session whose token a trusted key verified or the provider declared active, unexpired, and allowed by
  the policy (\<open>authorized_query_was_authenticated\<close>), and it reaches no
  table, function or column, however deeply nested, that the policy does not allow
  (\<open>authorized_query_within_policy\<close>). For the SQL inspection: a request that is not unsafe accounts for
  everything the query reaches, the inspection fails closed, its lists are well formed. For the client:
  the flows end when the clock advances, with boundedly many requests, a login serves later calls until the renewal window, a logout
  leaves nothing to reuse, timestamps read back. For the validators: soundness under interference, the fetch budget, no loss of keys when the provider fails,
  exactly which verifications succeed. For the caches: refinement, capacity, provenance, rate limits and
  overtaken refreshes. For the policy: the decision of the rule matrix, the glob matcher against its
  declarative meaning, which tables load. For the audit trail: every decision leaves one event, the
  ring keeps the newest, lines read back unambiguously, tokens appear only as digest prefixes, warnings are
  printable and at most one per key in half a minute. For the sessions: at most a thousand, those that
  expire first go first. For the configuration: endpoints are https or local, presets keep their host, public plaintext listeners
  are refused, the refresh interval stays above the floor of the start, screened requests travel over
  verified TLS or stay on the host. For the reports: the host reads every row once, whatever the size of its
  chunks. For the codecs: each escaping is inverted by a reader of its format. Interfaces shared by
  clients are locales (\<open>decision_store\<close>, \<open>fetch_budget\<close>, \<open>bounded_log\<close>), each interpreted on the model's
  operations.

  \<^bold>\<open>Bounds and fuel.\<close> \<open>evict_sessions\<close> runs on fuel equal to the size of the table, and removes one entry
  per step, so the fuel never runs out before the loop ends. The reader \<open>log_line\<close> of audit lines takes a
  bound on the number of fields; a line has at most eight. The polling loop of the device login is a
  partial function, since its end depends on the clock; \<open>token_flows_terminate\<close> shows that it ends when
  sleeping advances the clock, after at most two requests per polling interval of the device code's lifetime. All other loops are structural or have a
  termination proof.

  \<^bold>\<open>Not modelled.\<close> The classes of DuckDB's parse trees are third-party: \<open>Sql_Ast\<close> has the members that
  sql_inspect.cpp reads, and where the walk calls a visitor of the tree the children are listed. Registration of
  functions and their descriptions (quack_oauth_extension.cpp and the Register functions of the other files),
  telemetry and the log storage, scrubbing of memory (secure_scrub.cpp), which have no effect on the values
  modelled, and the WebAssembly branch of the transport.
\<close>

section \<open>The server as a state machine\<close>

text \<open>
  The reachable states of a server: it starts empty, and then checks tokens with either token function,
  authorizes queries, registers its options, changes its refresh interval and leaves audit records, in
  any order. Every step may run in another of the four validation modes, with other settings, another
  clock and another behaviour of the network; \<open>T\<close> says which keys are trusted, \<open>A\<close> which answers of the provider
  are real and \<open>C\<close> which configurations are ever loaded. While the mutex is free other threads keep the
  invariant \<open>server_ok\<close>, which the steps themselves are shown to keep.
\<close>

definition peaceful ::
    "Externals \<Rightarrow> (string \<Rightarrow> Jwk \<Rightarrow> bool) \<Rightarrow> (PostRequest \<Rightarrow> HttpResponse \<Rightarrow> bool) \<Rightarrow> (ServerConfig \<Rightarrow> bool) \<Rightarrow>
     (nat \<Rightarrow> nat \<Rightarrow> 'v Server \<Rightarrow> 'v Server) \<Rightarrow> bool" where
  "peaceful X T A C others \<longleftrightarrow> (\<forall>i j t. server_ok X T A C t \<longrightarrow> server_ok X T A C (others i j t))"

inductive reachable ::
    "Externals \<Rightarrow> (string \<Rightarrow> Jwk \<Rightarrow> bool) \<Rightarrow> (PostRequest \<Rightarrow> HttpResponse \<Rightarrow> bool) \<Rightarrow> (ServerConfig \<Rightarrow> bool) \<Rightarrow> 'v Server \<Rightarrow> bool"
  for X :: Externals and T :: "string \<Rightarrow> Jwk \<Rightarrow> bool" and A :: "PostRequest \<Rightarrow> HttpResponse \<Rightarrow> bool" and C :: "ServerConfig \<Rightarrow> bool" where
  reach_start: "reachable X T A C (new_QuackOauthState getenv)"
| reach_check_token1:
    "reachable X T A C s \<Longrightarrow> honest_deps T A C D \<Longrightarrow> d_ext D = X \<Longrightarrow> peaceful X T A C others \<Longrightarrow>
     (\<And>cfg. LoadServerConfig H = Inr cfg \<Longrightarrow> C cfg) \<Longrightarrow>
     CheckTokenScalarFun1 H D others now_s tokens s = Inr (rs, s') \<Longrightarrow> reachable X T A C s'"
| reach_check_token3:
    "reachable X T A C s \<Longrightarrow> honest_deps T A C D \<Longrightarrow> d_ext D = X \<Longrightarrow> peaceful X T A C others \<Longrightarrow>
     (\<And>cfg. LoadServerConfig H = Inr cfg \<Longrightarrow> C cfg) \<Longrightarrow>
     CheckTokenScalarFun3 H D others now_s args s = Inr (rs, s') \<Longrightarrow> reachable X T A C s'"
| reach_check_authorization:
    "reachable X T A C s \<Longrightarrow> peaceful X T A C others \<Longrightarrow>
     CheckAuthorizationScalarFun H others inspect now_s rows s = (bs, s') \<Longrightarrow> reachable X T A C s'"
| reach_register:
    "reachable X T A C s \<Longrightarrow> RegisterQuackOauthSettings getenv g s = (options, g', s') \<Longrightarrow> reachable X T A C s'"
| reach_set_min_refresh:
    "reachable X T A C s \<Longrightarrow> OnJwksMinRefreshSeconds H g scope v s = Inr s' \<Longrightarrow> reachable X T A C s'"
| reach_audit: "reachable X T A C s \<Longrightarrow> reachable X T A C (EmitAuditEvent H e s)"

inductive_cases reachable_cases: "reachable X T A C s"

lemma server_ok_start: "server_ok X T A C (new_QuackOauthState getenv)"
  by (simp add: server_ok_def new_QuackOauthState_def trusted_cache_def new_JwksCache_ok sessions_ok_def decisions_ok_def new_DecisionCache_ok)
    (simp add: cached_keys_def new_JwksCache_def)

lemma server_ok_erase:
  assumes "server_ok X T A C s"
  shows "server_ok X T A C (s\<lparr>sv_sessions := AList.delete sid (sv_sessions s)\<rparr>)"
proof -
  have "length (AList.delete sid (sv_sessions s)) \<le> length (sv_sessions s)" by (rule length_delete_le)
  then show ?thesis
    using assms set_delete_subset [of sid "sv_sessions s"]
    by (auto simp: server_ok_def sessions_ok_def distinct_delete)
qed

lemma server_ok_min_refresh:
  assumes "server_ok X T A C s"
  shows "server_ok X T A C (s\<lparr>sv_jwks_cache := SetMinRefreshSeconds (sv_jwks_cache s) m\<rparr>)"
proof -
  have "trusted_cache T (jwks_step (OpMinRefresh m) (sv_jwks_cache s))"
    by (rule trusted_step) (use assms in \<open>auto simp: server_ok_def\<close>)
  with assms show ?thesis by (simp add: server_ok_def)
qed

lemma authorize_row_ok:
  assumes "server_ok X T A C s" "\<And>j t. server_ok X T A C t \<Longrightarrow> server_ok X T A C (others j t)"
  shows "server_ok X T A C (snd (authorize_row H others inspect policy now_s skew sid query s))"
proof -
  obtain e s1 where "snd (authorize_row H others inspect policy now_s skew sid query s) = EmitAuditEvent H e s1"
      "s1 = others 0 s \<or> s1 = others 1 ((others 0 s)\<lparr>sv_sessions := AList.delete sid (sv_sessions (others 0 s))\<rparr>)"
    using authorize_row_event [of H others inspect policy now_s skew sid query s] by blast
  moreover have o: "server_ok X T A C (others 0 s)" using assms by blast
  moreover have "server_ok X T A C
      (others 1 ((others 0 s)\<lparr>sv_sessions := AList.delete sid (sv_sessions (others 0 s))\<rparr>))"
    by (rule assms(2), rule server_ok_erase, rule o)
  ultimately show ?thesis by (metis server_ok_Emit)
qed

lemma authorize_rows_ok:
  assumes "\<And>i j t. server_ok X T A C t \<Longrightarrow> server_ok X T A C (others i j t)"
  shows "server_ok X T A C s \<Longrightarrow> server_ok X T A C (snd (authorize_rows H others inspect policy now_s skew i rows s))"
proof (induction rows arbitrary: i s)
  case (Cons r rows)
  obtain sid query where r: "r = (sid, query)" by (cases r)
  have "server_ok X T A C (snd (authorize_row H (others i) inspect policy now_s skew sid query s))"
    using Cons.prems assms by (rule authorize_row_ok)
  then show ?case using Cons.IH by (simp add: r split_beta)
qed simp

lemma ValidateChunk_ok:
  assumes "server_ok (d_ext D) T A C s" "honest_deps T A C D" "peaceful (d_ext D) T A C others"
    and "\<And>cfg. LoadServerConfig H = Inr cfg \<Longrightarrow> C cfg" "ValidateChunk H D ws others now_s rows s = Inr (rs, s')"
  shows "server_ok (d_ext D) T A C s'"
proof -
  obtain cfg where cfg: "LoadServerConfig H = Inr cfg"
      "s' = snd (RunValidationLoop H D cfg (chunk_options cfg now_s) ws others rows s)"
    using assms(5) by (auto simp: ValidateChunk_def split: sum.splits)
  show ?thesis
    unfolding cfg(2) by (rule RunValidationLoop_ok) (use assms cfg(1) in \<open>auto simp: peaceful_def\<close>)
qed

lemma reachable_ok: "reachable X T A C s \<Longrightarrow> server_ok X T A C s"
proof (induction rule: reachable.induct)
  case (reach_start getenv)
  show ?case by (rule server_ok_start)
next
  case (reach_check_token1 s D others H now_s tokens rs s')
  then have "ValidateChunk H D False others now_s (map (\<lambda>t. (t, None)) tokens) s = Inr (rs, s')"
    by (simp add: CheckTokenScalarFun1_def split: sum.splits)
  then show ?case using ValidateChunk_ok reach_check_token1 by blast
next
  case (reach_check_token3 s D others H now_s args rs s')
  then have "ValidateChunk H D True others now_s (map (\<lambda>(sid, auth, psk). (auth, sid)) args) s = Inr (rs, s')"
    by (simp add: CheckTokenScalarFun3_def split: sum.splits)
  then show ?case using ValidateChunk_ok reach_check_token3 by blast
next
  case (reach_check_authorization s others H inspect now_s rows bs s')
  have "server_ok X T A C (snd (authorize_rows H others inspect (chunk_policy H) now_s (LookupClockSkew H) 0 rows s))"
    by (rule authorize_rows_ok) (use reach_check_authorization in \<open>auto simp: peaceful_def\<close>)
  moreover have "s' = snd (authorize_rows H others inspect (chunk_policy H) now_s (LookupClockSkew H) 0 rows s)"
    using reach_check_authorization by (simp add: CheckAuthorizationScalarFun_def)
  ultimately show ?case by simp
next
  case (reach_register s getenv g options g' s')
  then show ?case
    by (auto simp: RegisterQuackOauthSettings_def startup_floor_once_def Let_def server_ok_min_refresh split: prod.splits if_splits)
next
  case (reach_set_min_refresh s H g scope v s')
  then show ?case by (auto simp: OnJwksMinRefreshSeconds_def Let_def server_ok_min_refresh split: if_splits)
next
  case (reach_audit s H e)
  then show ?case by (simp add: server_ok_Emit)
qed

text \<open>
  C1: Authorization rests on authentication, end to end and in all four validation modes. In every reachable
  state, whatever other threads did, a query is authorized only for a session that stands for a real
  token, accepted at some time under a configuration the server loaded: in the mode jwks one that parses and that a key trusted for
  the provider and kid verified under the configured issuer, audience and skew; in the other modes one
  that the provider itself, asked at the configured endpoint, declared active and for no audience or issuer other
  than the configured ones, as far as the answer names them. The principal the policy was asked about is made of the claims of that token, it has not
  expired beyond the clock skew at the time of the query, and the policy allows it what the query asks for.
\<close>

theorem authorized_query_was_authenticated:
  assumes "reachable X T A C s"
    and "fst (CheckAuthorizationScalarFun H others inspect now_s [(sid, query)] s) = [True]"
  shows "\<exists>sp cfg token t.
    map_of (sv_sessions s) sid = Some sp \<and> C cfg \<and>
    (if sc_mode cfg \<in> {''introspect'', ''tokeninfo'', ''github_check''} then vouched_by X T A cfg t token (sp_principal sp)
     else \<exists>parsed jwk. ParseJwt X token = Some parsed \<and> sp_principal sp = PrincipalFromJwt parsed \<and>
       T (CacheKey (sc_jwks_uri cfg) (jp_kid parsed)) jwk \<and> VerifyJwt X token jwk (chunk_options cfg t) = Some Ok) \<and>
    (exp (sp_principal sp) \<le> 0 \<or> now_s \<le> exp (sp_principal sp) + LookupClockSkew H) \<and>
    \<not> ar_unsafe (inspect query) \<and> chunk_policy H \<noteq> LoadFailed \<and>
    po_decision (policy_outcome (chunk_policy H) (sp_principal sp) (inspect query)) = Allow"
proof -
  have "fst (authorize_row H (others 0) inspect (chunk_policy H) now_s (LookupClockSkew H) sid query s)"
    using assms(2) by (simp add: CheckAuthorizationScalarFun_def split_beta)
  then obtain sp where sp: "map_of (sv_sessions s) sid = Some sp" "\<not> IsPrincipalExpired (sp_principal sp) now_s (LookupClockSkew H)"
      "\<not> ar_unsafe (inspect query)" "chunk_policy H \<noteq> LoadFailed"
      "po_decision (policy_outcome (chunk_policy H) (sp_principal sp) (inspect query)) = Allow"
    unfolding authorize_row_allows by blast
  have "vouched X T A C (sp_principal sp)"
    using reachable_ok [OF assms(1)] map_of_SomeD [OF sp(1)] by (auto simp: server_ok_def)
  then obtain cfg token t where v: "C cfg" "vouched_by X T A cfg t token (sp_principal sp)"
    unfolding vouched_def by blast
  have "\<exists>parsed jwk. ParseJwt X token = Some parsed \<and> sp_principal sp = PrincipalFromJwt parsed \<and>
      T (CacheKey (sc_jwks_uri cfg) (jp_kid parsed)) jwk \<and> VerifyJwt X token jwk (chunk_options cfg t) = Some Ok"
    if "sc_mode cfg \<notin> {''introspect'', ''tokeninfo'', ''github_check''}"
    using vouched_by_jwt [OF that v(2)] .
  with sp(1,3-5) v sp(2) [unfolded not_expired] show ?thesis by meson
qed

text \<open>
  A concrete run: a JWT is checked for one session, then the operator changes the mode and a second token is
  checked by introspection for another session; queries of both are authorized by a policy table.
\<close>

definition run_host :: "dbval Host" where
  "run_host =
     plain_host
       [(''quack_oauth_server_secret_name'', StrV ''srv'')]
       [(''srv'', \<lparr>sec_type = ''quack_oauth_server'',
          sec_map = [(''issuer'', StrV ''https://idp''), (''audience'', StrV ''api''),
                     (''jwks_uri'', StrV ''https://idp/keys''), (''policy_table'', StrV ''pol'')],
          sec_redact_keys = []\<rparr>)]
       [(columns_sql ''pol'', [[StrV ''priority''], [StrV ''subject''], [StrV ''any_scope''], [StrV ''actions''], [StrV ''allow'']]),
        (rules_sql False False ''pol'', [[IntV 1, NullV, ListV [StrV ''read''], ListV [StrV ''Scan''], BoolV True]])]"

definition run_deps :: Deps where
  "run_deps = \<lparr>d_ext = sample_ext, d_get = sample_get ''new'', d_post = (\<lambda>req dc. (None, dc)),
     d_sleep_jwks = (\<lambda>ms c. c), d_sleep_dc = (\<lambda>ms c. c), d_iter_keys = (\<lambda>m. m), d_iter_sessions = (\<lambda>m. m),
     d_iter_throttle = (\<lambda>m. m)\<rparr>"

definition run_trust :: "string \<Rightarrow> Jwk \<Rightarrow> bool" where
  "run_trust k jwk \<longleftrightarrow>
     jwk \<in> set (ParseJwksJson (x_json_parse sample_ext) ''new'') \<and> (\<exists>uri. k = CacheKey uri (jwk_kid jwk))"

definition run_config :: ServerConfig where
  "run_config = \<lparr>sc_mode = ''jwks'', sc_issuer = ''https://idp'', sc_audience = ''api'', sc_clock_skew_s = 60,
     sc_jwks_uri = ''https://idp/keys'', sc_introspection_endpoint = [], sc_introspect_client_id = [],
     sc_introspect_client_secret = []\<rparr>"

definition run_state :: "dbval Server" where
  "run_state = snd (RunValidationLoop run_host run_deps run_config (chunk_options run_config 500) True (\<lambda>_ _ s. s)
     [(Some ''Bearer tok'', Some ''sess'')] (new_QuackOauthState (\<lambda>_. None)))"

lemma run_config_loads: "LoadServerConfig run_host = Inr run_config"
  by code_simp

definition opaque_host :: "dbval Host" where
  "opaque_host =
     plain_host
       [(''quack_oauth_server_secret_name'', StrV ''srv''), (''quack_oauth_validation_mode'', StrV ''introspect'')]
       [(''srv'', \<lparr>sec_type = ''quack_oauth_server'',
          sec_map = [(''issuer'', StrV ''https://idp''), (''introspection_endpoint'', StrV ''https://idp/introspect''),
                     (''introspect_client_id'', StrV ''c''), (''introspect_client_secret'', StrV ''s'')],
          sec_redact_keys = []\<rparr>)]
       []"

definition opaque_config :: ServerConfig where
  "opaque_config = \<lparr>sc_mode = ''introspect'', sc_issuer = ''https://idp'', sc_audience = [], sc_clock_skew_s = 60,
     sc_jwks_uri = [], sc_introspection_endpoint = ''https://idp/introspect'', sc_introspect_client_id = ''c'',
     sc_introspect_client_secret = ''s''\<rparr>"

definition opaque_deps :: Deps where
  "opaque_deps = run_deps\<lparr>d_post := sample_post ''active''\<rparr>"

definition opaque_state :: "dbval Server" where
  "opaque_state = snd (RunValidationLoop opaque_host opaque_deps opaque_config (chunk_options opaque_config 600) True (\<lambda>_ _ s. s)
     [(Some ''Bearer opq'', Some ''sess2'')] run_state)"

definition run_answers :: "PostRequest \<Rightarrow> HttpResponse \<Rightarrow> bool" where
  "run_answers req http \<longleftrightarrow> http = \<lparr>status_code = 200, resp_body = ''active''\<rparr>"

lemma opaque_config_loads: "LoadServerConfig opaque_host = Inr opaque_config"
  by code_simp

lemma run_honest: "honest_deps run_trust A C run_deps" "honest_deps run_trust run_answers C opaque_deps"
  by (auto simp: honest_deps_def opaque_deps_def run_deps_def enumerates_def honest_get_def honest_post_def sample_get_def sample_post_def
    trusted_keys_def run_trust_def run_answers_def)

lemma run_peaceful: "peaceful X T A C (\<lambda>_ _ s. s)"
  by (simp add: peaceful_def)

lemma run_reachable:
  assumes "C run_config"
  shows "reachable sample_ext run_trust A C run_state"
proof (rule reach_check_token3 [OF reach_start run_honest(1) _ run_peaceful])
  show "d_ext run_deps = sample_ext" by (simp add: run_deps_def)
  show "C cfg" if "LoadServerConfig run_host = Inr cfg" for cfg using that assms by (simp add: run_config_loads)
  have "EnforcePlaintextGuard run_host = Inr ()" by code_simp
  then show "CheckTokenScalarFun3 run_host run_deps (\<lambda>_ _ s. s) 500 [(Some ''sess'', Some ''Bearer tok'', None)] (new_QuackOauthState (\<lambda>_. None)) =
      Inr (fst (RunValidationLoop run_host run_deps run_config (chunk_options run_config 500) True (\<lambda>_ _ s. s)
        [(Some ''Bearer tok'', Some ''sess'')] (new_QuackOauthState (\<lambda>_. None))), run_state)"
    by (simp add: CheckTokenScalarFun3_def ValidateChunk_def run_config_loads run_state_def)
qed

lemma opaque_reachable: "reachable sample_ext run_trust run_answers (\<lambda>cfg. cfg = run_config \<or> cfg = opaque_config) opaque_state"
proof (rule reach_check_token3 [OF run_reachable run_honest(2) _ run_peaceful])
  show "run_config = run_config \<or> run_config = opaque_config" by simp
  show "d_ext opaque_deps = sample_ext" by (simp add: run_deps_def opaque_deps_def)
  show "cfg = run_config \<or> cfg = opaque_config" if "LoadServerConfig opaque_host = Inr cfg" for cfg using that by (simp add: opaque_config_loads)
  have "EnforcePlaintextGuard opaque_host = Inr ()" by code_simp
  then show "CheckTokenScalarFun3 opaque_host opaque_deps (\<lambda>_ _ s. s) 600 [(Some ''sess2'', Some ''Bearer opq'', None)] run_state =
      Inr (fst (RunValidationLoop opaque_host opaque_deps opaque_config (chunk_options opaque_config 600) True (\<lambda>_ _ s. s)
        [(Some ''Bearer opq'', Some ''sess2'')] run_state), opaque_state)"
    by (simp add: CheckTokenScalarFun3_def ValidateChunk_def opaque_config_loads opaque_state_def)
qed

lemma run_authorized:
  "fst (CheckAuthorizationScalarFun run_host (\<lambda>_ _ s. s) (\<lambda>q. sample_request []) 900 [(''sess'', ''SELECT * FROM users'')] run_state) = [True]"
  by code_simp

lemma opaque_authorized:
  "fst (CheckAuthorizationScalarFun run_host (\<lambda>_ _ s. s) (\<lambda>q. sample_request []) 900
     [(''sess'', ''SELECT * FROM users''), (''sess2'', ''SELECT * FROM users''), (''sess3'', ''SELECT * FROM users'')] opaque_state) =
   [True, True, False]"
  by code_simp

lemma authorized_query_was_authenticated_witness:
  "\<exists>token parsed jwk t. ParseJwt sample_ext token = Some parsed \<and> run_trust (CacheKey ''https://idp/keys'' (jp_kid parsed)) jwk \<and>
     VerifyJwt sample_ext token jwk (chunk_options run_config t) = Some Ok \<and> 900 \<le> jp_exp parsed + LookupClockSkew run_host"
proof -
  have jwks: "sc_mode run_config \<notin> {''introspect'', ''tokeninfo'', ''github_check''}" by code_simp
  have "reachable sample_ext run_trust (\<lambda>req http. False) (\<lambda>cfg. cfg = run_config) run_state" by (rule run_reachable) (rule refl)
  from authorized_query_was_authenticated [OF this run_authorized]
  obtain sp token t parsed jwk where p: "map_of (sv_sessions run_state) ''sess'' = Some sp"
      "ParseJwt sample_ext token = Some parsed" "sp_principal sp = PrincipalFromJwt parsed"
      "run_trust (CacheKey (sc_jwks_uri run_config) (jp_kid parsed)) jwk"
      "VerifyJwt sample_ext token jwk (chunk_options run_config t) = Some Ok"
      "exp (sp_principal sp) \<le> 0 \<or> 900 \<le> exp (sp_principal sp) + LookupClockSkew run_host"
    using jwks by (metis (full_types))
  have "map_option (\<lambda>sp. exp (sp_principal sp)) (map_of (sv_sessions run_state) ''sess'') = Some 1000" by code_simp
  with p(1,3) have "exp (sp_principal sp) = 1000" "jp_exp parsed = 1000" by (auto simp: PrincipalFromJwt_def)
  with p(6) have "900 \<le> jp_exp parsed + LookupClockSkew run_host" by simp
  moreover have "sc_jwks_uri run_config = ''https://idp/keys''" by (simp add: run_config_def)
  ultimately show ?thesis using p by metis
qed

section \<open>Queries and the policy\<close>

text \<open>The object under which the policy decides on an access, if it does: the exempt view and functions have none.\<close>

fun gated_object :: "access \<Rightarrow> string option" where
  "gated_object (TableAccess t) =
     (if snd (snd t) = [] \<or> schema_of t \<in> {''information_schema'', ''pg_catalog''} then None else Some (object_of t))"
| "gated_object (TableRead t) =
     (if snd (snd t) = [] \<or> schema_of t \<in> {''information_schema'', ''pg_catalog''} then None else Some (object_of t))"
| "gated_object (FunctionAccess name) =
     (if lower_ascii name \<in> {''duckdb_tables'', ''duckdb_columns''} then None else Some (''fn:'' @ lower_ascii name))"
| "gated_object (NamedAccess obj) = Some obj"
| "gated_object _ = None"

lemma accounted_object: "accounted req a \<Longrightarrow> gated_object a = Some obj \<Longrightarrow> obj \<in> set (ar_objects req)"
  by (cases a) (auto simp: gated_table_def split: if_splits)

lemma request_cells_object:
  assumes "obj \<in> set (ar_objects req)"
  shows "\<exists>col. (obj, col) \<in> request_cells req" and "col \<in> set (ar_columns req) \<Longrightarrow> (obj, col) \<in> request_cells req"
  using assms by (auto simp: request_cells_def intro: exI [of _ "hd (ar_columns req)"])

text \<open>
  C2: a query that is authorized under a policy table does only what the table allows, however deeply
  nested. For every statement of the query and everything it reaches, the policy allows the session's
  principal the action of the statement on the object of the access, together with every column that the
  statement mentions; inspection, policy loading, policy evaluation and the session table work together.
\<close>

theorem authorized_query_within_policy:
  assumes "LookupPolicyTable H \<noteq> []" "query \<noteq> []" "parse query = Inr stmts" "stmt \<in> set stmts"
    and "fst (CheckAuthorizationScalarFun H others (InspectSql parse) now_s [(sid, query)] s) = [True]"
  shows "\<exists>sp doc st. map_of (sv_sessions s) sid = Some sp \<and> LoadPolicyFromTable H (LookupPolicyTable H) = Some doc \<and> stmt = Some st \<and>
    (\<forall>a \<in> reach_statement st {}. \<forall>obj. gated_object a = Some obj \<longrightarrow>
       (\<exists>col. cell_allowed (doc\<lparr>pd_default_allow := LookupDefaultAllow H\<rparr>) (sp_principal sp) (statement_action st) obj col) \<and>
       (\<forall>col. ColumnAccess col \<in> reach_statement st {} \<longrightarrow> col \<noteq> [] \<longrightarrow>
          cell_allowed (doc\<lparr>pd_default_allow := LookupDefaultAllow H\<rparr>) (sp_principal sp) (statement_action st) obj (lower_ascii col)))"
proof -
  let ?req = "InspectSql parse query"
  have "fst (authorize_row H (others 0) (InspectSql parse) (chunk_policy H) now_s (LookupClockSkew H) sid query s)"
    using assms(5) by (simp add: CheckAuthorizationScalarFun_def split_beta)
  then obtain sp where sp: "map_of (sv_sessions s) sid = Some sp" and safe: "\<not> ar_unsafe ?req"
      and allow: "chunk_policy H \<noteq> LoadFailed \<and> po_decision (policy_outcome (chunk_policy H) (sp_principal sp) ?req) = Allow"
    unfolding authorize_row_allows by blast
  from allow [unfolded chunk_policy_allows] assms(1) obtain doc where doc: "LoadPolicyFromTable H (LookupPolicyTable H) = Some doc"
      "po_decision (EvaluatePolicy (doc\<lparr>pd_default_allow := LookupDefaultAllow H\<rparr>) (sp_principal sp) ?req) = Allow"
    by auto
  have "stmt_ok ?req stmt"
    using safe assms(4) inspect_statements_sound [of True new_AuthzRequest stmts] by (simp add: InspectSql_parsed [of query parse stmts, OF assms(2,3)])
  then obtain st where st: "stmt = Some st" "statement_action st = ar_action ?req" "\<forall>a \<in> reach_statement st {}. accounted ?req a"
    unfolding stmt_ok_def by blast
  have cells: "cell_allowed (doc\<lparr>pd_default_allow := LookupDefaultAllow H\<rparr>) (sp_principal sp) (ar_action ?req) obj col"
    if "(obj, col) \<in> request_cells ?req" for obj col
    using doc(2) that unfolding EvaluatePolicy_cells by blast
  have "(\<exists>col. cell_allowed (doc\<lparr>pd_default_allow := LookupDefaultAllow H\<rparr>) (sp_principal sp) (statement_action st) obj col) \<and>
       (\<forall>col. ColumnAccess col \<in> reach_statement st {} \<longrightarrow> col \<noteq> [] \<longrightarrow>
          cell_allowed (doc\<lparr>pd_default_allow := LookupDefaultAllow H\<rparr>) (sp_principal sp) (statement_action st) obj (lower_ascii col))"
    if "a \<in> reach_statement st {}" "gated_object a = Some obj" for a obj
  proof -
    have obj: "obj \<in> set (ar_objects ?req)" using that st(3) accounted_object by blast
    moreover have "lower_ascii col \<in> set (ar_columns ?req)" if "ColumnAccess col \<in> reach_statement st {}" "col \<noteq> []" for col
      using that st(3) by fastforce
    ultimately show ?thesis using request_cells_object [OF obj] cells st(2) by metis
  qed
  with sp doc(1) st(1) show ?thesis by blast
qed

lemma authorize_one_row:
  "fst (CheckAuthorizationScalarFun H others inspect now_s [(sid, query)] s) =
   fst (CheckAuthorizationScalarFun H others (\<lambda>_. inspect query) now_s [(sid, query)] s)"
  by (simp add: CheckAuthorizationScalarFun_def authorize_row_def Let_def split_beta)

lemma run_select_authorized:
  "fst (CheckAuthorizationScalarFun run_host (\<lambda>_ _ s. s) (InspectSql example_parse) 900 [(''sess'', ''select'')] run_state) = [True]"
proof -
  have "fst (CheckAuthorizationScalarFun run_host (\<lambda>_ _ s. s)
      (\<lambda>_. \<lparr>ar_action = Scan, ar_objects = [''main.base'', ''fn:read_csv'', ''sales.orders''], ar_columns = [''k'', ''a'', ''*''], ar_unsafe = False, ar_error = []\<rparr>)
      900 [(''sess'', ''select'')] run_state) = [True]"
    by code_simp
  then show ?thesis by (subst authorize_one_row) (simp only: example_request)
qed

theorem authorized_query_within_policy_witness:
  "\<exists>sp doc. map_of (sv_sessions run_state) ''sess'' = Some sp \<and> LoadPolicyFromTable run_host (LookupPolicyTable run_host) = Some doc \<and>
     cell_allowed (doc\<lparr>pd_default_allow := LookupDefaultAllow run_host\<rparr>) (sp_principal sp) Scan ''sales.orders'' ''*''"
proof -
  have "LookupPolicyTable run_host \<noteq> []" by code_simp
  moreover have "example_parse ''select'' = Inr [Some example_select]" by (simp add: example_parse_def)
  ultimately obtain sp doc where sp: "map_of (sv_sessions run_state) ''sess'' = Some sp" "LoadPolicyFromTable run_host (LookupPolicyTable run_host) = Some doc"
      and allowed: "\<forall>a \<in> reach_statement example_select {}. \<forall>obj. gated_object a = Some obj \<longrightarrow>
        (\<exists>col. cell_allowed (doc\<lparr>pd_default_allow := LookupDefaultAllow run_host\<rparr>) (sp_principal sp) (statement_action example_select) obj col) \<and>
        (\<forall>col. ColumnAccess col \<in> reach_statement example_select {} \<longrightarrow> col \<noteq> [] \<longrightarrow>
          cell_allowed (doc\<lparr>pd_default_allow := LookupDefaultAllow run_host\<rparr>) (sp_principal sp) (statement_action example_select) obj (lower_ascii col))"
    using authorized_query_within_policy [of run_host "''select''" example_parse "[Some example_select]" "Some example_select", OF _ _ _ _ run_select_authorized]
    by auto
  have table: "TableRead ([], ''sales'', ''Orders'') \<in> reach_statement example_select {}" "ColumnAccess ''*'' \<in> reach_statement example_select {}"
    by (auto simp: example_select_def select_from_def example_exists_def reach_opt_def anywhere_def opts_def names_cte_def)
  have obj: "gated_object (TableRead ([], ''sales'', ''Orders'')) = Some ''sales.orders''"
    by (simp add: schema_of_def object_of_def lower_literals del: lower_ascii_Cons)
  have "statement_action example_select = Scan" by (simp add: statement_action_def example_select_def)
  moreover have "''*'' \<noteq> []" by simp
  ultimately show ?thesis using sp bspec [OF allowed table(1)] table(2) obj lower_literals(10) by metis
qed

end
